(* ===== verification/Qrtr_Prelude.thy ===== *)
theory Qrtr_Prelude
  imports Main "HOL-Library.Word" "HOL-Library.Multiset" "HOL-Library.Monad_Syntax"
begin

text \<open>
  Shared vocabulary of the development: the machine types of the C code, its errno values,
  the script of allocation outcomes that stands for \<open>calloc\<close>, bounds-checked array access,
  the byte representation of words and the generic facts on options, lists and words that
  several components use.

  Every operation of the C code that can run into undefined behaviour (an array index out
  of bounds, a null or dangling pointer, a division by zero) is a function into an option:
  \<open>None\<close> is "the C program has no defined behaviour here (or does not return)", \<open>Some\<close> is a
  defined outcome, which may still be an error code. The safety theorems say that \<open>None\<close> is
  never reached.
\<close>

section \<open>Machine types and error codes\<close>

type_synonym u8 = "8 word"
type_synonym u16 = "16 word"
type_synonym u32 = "32 word"
type_synonym u64 = "64 word"
type_synonym ptr = nat

definition ENOENT :: int where "ENOENT = 2"
definition EFAULT :: int where "EFAULT = 14"
definition EINVAL :: int where "EINVAL = 22"
definition EMSGSIZE :: int where "EMSGSIZE = 90"

named_theorems errno_defs \<open>numeric values of the errno constants\<close>
declare ENOENT_def [errno_defs] EFAULT_def [errno_defs] EINVAL_def [errno_defs]
  EMSGSIZE_def [errno_defs]

section \<open>Allocation outcomes\<close>

text \<open>
  \<open>calloc\<close> may fail at any call. The outcomes of the coming calls are a script: the head says
  whether the next call succeeds; past the end of the script calls succeed. Every finite run
  makes finitely many calls, so every run is covered by some script.
\<close>

type_synonym allocs = "bool list"

fun alloc :: "allocs \<Rightarrow> bool \<times> allocs" where
  "alloc [] = (True, [])"
| "alloc (b # bs) = (b, bs)"

definition alloc_all :: "allocs \<Rightarrow> bool" where
  "alloc_all al \<longleftrightarrow> (\<forall>b \<in> set al. b)"

lemma alloc_all_alloc: "alloc_all al \<Longrightarrow> alloc al = (b, al') \<Longrightarrow> b \<and> alloc_all al'"
  by (cases al) (auto simp: alloc_all_def)

lemma alloc_all_Nil [simp]: "alloc_all []"
  by (simp add: alloc_all_def)

section \<open>Bounds-checked array access\<close>

definition array_at :: "'a list \<Rightarrow> nat \<Rightarrow> 'a option" where
  "array_at xs i = (if i < length xs then Some (xs ! i) else None)"

lemma array_at_Some [simp]: "array_at xs i = Some x \<longleftrightarrow> i < length xs \<and> xs ! i = x"
  by (auto simp: array_at_def)

lemma array_at_in [simp]: "i < length xs \<Longrightarrow> array_at xs i = Some (xs ! i)"
  by (simp add: array_at_def)

section \<open>Lists and multisets\<close>

lemma find_upt_least:
  assumes "find P [a..<b] = Some j"
  shows "a \<le> j \<and> j < b \<and> P j \<and> (\<forall>i. a \<le> i \<and> i < j \<longrightarrow> \<not> P i)"
proof -
  from assms obtain i where i: "i < length [a..<b]" "P ([a..<b] ! i)" "j = [a..<b] ! i"
    "\<forall>i' < i. \<not> P ([a..<b] ! i')"
    by (auto simp: find_Some_iff)
  then have j: "j = a + i" "a + i < b" by auto
  have "\<not> P i'" if "a \<le> i' \<and> i' < j" for i'
  proof -
    have "i' - a < i" using that j by auto
    with i(4) have "\<not> P ([a..<b] ! (i' - a))" by blast
    with that j show ?thesis by simp
  qed
  with i j show ?thesis by auto
qed

lemma find_upt_None: "find P [a..<b] = None \<longleftrightarrow> (\<forall>i. a \<le> i \<and> i < b \<longrightarrow> \<not> P i)"
  by (auto simp: find_None_iff)

lemma find_upt_eqI:
  assumes "P j" "j < b" "\<forall>i < j. \<not> P i"
  shows "find P [0..<b] = Some j"
proof (cases "find P [0..<b]")
  case None
  with assms show ?thesis by (simp add: find_upt_None)
next
  case (Some i)
  with find_upt_least [OF this] assms have "i = j"
    by (metis le0 linorder_neqE_nat)
  with Some show ?thesis by simp
qed

lemma find_upt_unfold: "a < b \<Longrightarrow> find P [a..<b] = (if P a then Some a else find P [Suc a..<b])"
  by (simp add: upt_conv_Cons)

section \<open>Words\<close>

lemma unat_add_le:
  fixes a b :: "'a::len word"
  assumes "unat a + unat b < 2 ^ LENGTH('a)"
  shows "unat (a + b) = unat a + unat b"
  using assms by (simp add: unat_word_ariths)

lemma unat_plus1_less:
  fixes a b :: "'a::len word"
  assumes "unat a < unat b"
  shows "unat (a + 1) = unat a + 1"
proof -
  have "unat b < 2 ^ LENGTH('a)" by simp
  with assms have "unat a + 1 < 2 ^ LENGTH('a)" by linarith
  then show ?thesis by (simp add: unat_word_ariths)
qed

lemma unat_minus1:
  fixes a :: "'a::len word"
  assumes "0 < unat a"
  shows "unat (a - 1) = unat a - 1"
  using assms by (simp add: unat_sub word_le_nat_alt Suc_le_eq)

end
