(* ===== verification/Hash.thy ===== *)
theory Hash
  imports Qrtr_Prelude
begin

text \<open>
  The hash functions of \<open>src/hash.c\<close> on their machine types. \<open>hash_u32\<close> multiplies in
  \<open>unsigned long\<close> and truncates; the name server uses it for every map key, so its
  injectivity is what makes a map key stand for one node or one port. \<open>hash_mem\<close> is the
  byte hash, shown to be a rotate-and-xor fold.
\<close>

unbundle bit_operations_syntax

section \<open>hash_mem and hash_string\<close>

fun hash_mem_loop :: "u32 \<Rightarrow> u8 list \<Rightarrow> u32" where
  "hash_mem_loop h [] = h"
| "hash_mem_loop h (b # bs) =
     hash_mem_loop ((drop_bit 27 h XOR push_bit 5 h) XOR ucast b) bs"

text \<open>
  \<open>len\<close> is the second parameter of the C function; \<open>data\<close> must hold at least that many
  bytes, otherwise the read is out of bounds.
\<close>

definition hash_mem :: "u8 list \<Rightarrow> u32 \<Rightarrow> u32 option" where
  "hash_mem data len =
     (if unat len \<le> length data then Some (hash_mem_loop len (take (unat len) data)) else None)"

text \<open>
  \<open>strlen\<close>: the position of the first NUL byte, which must exist.
\<close>

fun c_strlen :: "u8 list \<Rightarrow> nat option" where
  "c_strlen [] = None"
| "c_strlen (b # bs) = (if b = 0 then Some 0 else map_option Suc (c_strlen bs))"

definition hash_string :: "u8 list \<Rightarrow> u32 option" where
  "hash_string value = do { n \<leftarrow> c_strlen value; hash_mem value (of_nat n) }"

section \<open>Integer hashes\<close>

definition hash_u32 :: "u32 \<Rightarrow> u32" where
  "hash_u32 value = ucast ((ucast value :: u64) * 2654435761)"

definition hash_u64 :: "u64 \<Rightarrow> u32" where
  "hash_u64 value = hash_u32 (ucast (value AND 0xffffffff)) XOR hash_u32 (ucast (drop_bit 32 value))"

text \<open>
  The first parameter is \<open>sizeof(void *)\<close>; \<open>(long)value\<close> then has the same width, and the
  conversion to \<open>uint32_t\<close> on a 32-bit host keeps the low half.
\<close>

definition hash_pointer :: "nat \<Rightarrow> u64 \<Rightarrow> u32" where
  "hash_pointer sizeof_ptr value =
     (if sizeof_ptr = 8 then hash_u64 value else hash_u32 (ucast value))"

section \<open>Facts\<close>

text \<open>The 64-bit product truncates to the 32-bit product.\<close>

lemma hash_u32_mult: "hash_u32 v = v * 2654435761"
  unfolding hash_u32_def by transfer (simp add: take_bit_eq_mod mod_mult_left_eq mod_mod_cancel)

text \<open>
  The multiplier is odd, hence invertible modulo \<open>2 ^ 32\<close>: the hash is a bijection.
\<close>

definition unhash_u32 :: "u32 \<Rightarrow> u32" where
  "unhash_u32 h = h * 244002641"

lemma hash_multiplier_inverse: "(2654435761 :: u32) * 244002641 = 1"
  by simp

lemma unhash_hash_u32 [simp]: "unhash_u32 (hash_u32 v) = v"
  unfolding unhash_u32_def hash_u32_mult mult.assoc hash_multiplier_inverse by simp

lemma hash_unhash_u32 [simp]: "hash_u32 (unhash_u32 h) = h"
  using hash_multiplier_inverse
  by (metis (no_types) hash_u32_mult mult.commute mult.left_commute mult.right_neutral unhash_u32_def)

lemma hash_u32_eq_iff [simp]: "hash_u32 a = hash_u32 b \<longleftrightarrow> a = b"
  by (metis unhash_hash_u32)

lemma hash_u32_bij: "bij hash_u32"
  by (rule o_bij [where g = unhash_u32]) (auto simp: fun_eq_iff)

text \<open>
  Two keys collide in a table whose size is a multiple of 256 only if the hashed values agree
  in the low byte; that byte depends on the low byte of the value alone.
\<close>

lemma hash_u32_low_byte: "unat (hash_u32 v) mod 256 = (unat v * 177) mod 256"
proof -
  have "unat (hash_u32 v) mod 256 = (unat v * 2654435761 mod 4294967296) mod 256"
    by (simp add: hash_u32_mult unat_word_ariths)
  also have "\<dots> = (unat v * 2654435761) mod 256"
    by (rule mod_mod_cancel) simp
  also have "\<dots> = (unat v * (2654435761 mod 256)) mod 256"
    by (rule mod_mult_right_eq [symmetric])
  finally show ?thesis by simp
qed

text \<open>One round of \<open>hash_mem\<close> rotates left by five bits and xors the next byte.\<close>

lemma hash_mem_round: "(drop_bit 27 h XOR push_bit 5 h) = word_rotl 5 (h :: u32)"
proof (rule bit_word_eqI)
  fix n assume n: "n < LENGTH(32)"
  show "bit (drop_bit 27 h XOR push_bit 5 h) n \<longleftrightarrow> bit (word_rotl 5 h) n"
  proof (cases "n < 5")
    case True
    then show ?thesis by (simp add: bit_simps bit_word_rotl_iff add.commute)
  next
    case False
    with n have "(n + 27) mod 32 = n - 5" by (simp add: le_mod_geq)
    moreover have "\<not> bit h (27 + n)"
      using False bit_imp_le_length [of h "27 + n"] by auto
    ultimately show ?thesis using False n by (simp add: bit_simps bit_word_rotl_iff)
  qed
qed

lemma hash_mem_loop_foldl:
  "hash_mem_loop h bs = foldl (\<lambda>h b. word_rotl 5 h XOR ucast b) h bs"
  by (induction bs arbitrary: h) (simp_all add: hash_mem_round)

lemma hash_mem_defined_iff: "hash_mem d n \<noteq> None \<longleftrightarrow> unat n \<le> length d"
  by (simp add: hash_mem_def)

lemma c_strlen_Some: "c_strlen s = Some n \<Longrightarrow> n < length s \<and> s ! n = 0 \<and> (\<forall>i < n. s ! i \<noteq> 0)"
  by (induction s arbitrary: n) (auto split: if_splits simp: nth_Cons' less_Suc_eq_0_disj)

text \<open>
  A 64-bit value whose upper half is zero hashes like its lower half, because zero hashes
  to zero.
\<close>

lemma hash_u64_small: "hash_u64 (ucast (v :: u32)) = hash_u32 v"
proof -
  have mask32: "mask 32 = (4294967295 :: u64)" by (simp add: mask_eq_exp_minus_1)
  have lo: "(ucast (ucast v AND 0xffffffff :: u64) :: u32) = v"
    by (rule bit_word_eqI) (simp add: bit_simps flip: mask32)
  have hi: "drop_bit 32 (ucast v :: u64) = 0"
    by (rule bit_word_eqI) (auto simp: bit_simps dest: bit_imp_le_length)
  show ?thesis by (simp add: hash_u64_def lo hi hash_u32_mult)
qed

end
