(* ===== verification/Hashmap.thy ===== *)
theory Hashmap
  imports Hash
begin

text \<open>
  The open-addressing hash table of \<open>src/map.c\<close>. A table slot holds no item, the deletion
  marker, or a pointer to an item; the key, which the C code stores in the item the pointer
  leads to, is kept beside the pointer (every item is in at most one slot). Array accesses are
  bounds checked; the mutual recursion between \<open>map_reput\<close> and \<open>map_rehash\<close> is bounded by
  fuel, and running out of it is \<open>None\<close>.
\<close>

section \<open>State\<close>

datatype 'v slot = Null | Deleted | Item (slot_key: u32) (slot_val: 'v)

record 'v hmap =
  msize :: u32
  mcount :: u32
  mdata :: "'v slot list"

section \<open>Operations\<close>

definition map_create :: "'v hmap \<Rightarrow> int \<times> 'v hmap" where
  "map_create m = (0, m\<lparr>msize := 0, mdata := [], mcount := 0\<rparr>)"

text \<open>\<open>free(map->data)\<close>: no access to the table is defined afterwards.\<close>

definition map_destroy :: "'v hmap \<Rightarrow> 'v hmap" where
  "map_destroy m = m\<lparr>mdata := []\<rparr>"

text \<open>The loop of \<open>map_clear\<close>; \<open>release\<close> acts on the caller's state.\<close>

fun map_clear_loop :: "('v \<Rightarrow> 's \<Rightarrow> 's option) \<Rightarrow> 'v hmap \<Rightarrow> nat \<Rightarrow> nat \<Rightarrow> 's \<Rightarrow> ('v hmap \<times> 's) option" where
  "map_clear_loop release m i 0 s = Some (m, s)"
| "map_clear_loop release m i (Suc n) s =
     (case array_at (mdata m) i of
        None \<Rightarrow> None
      | Some Null \<Rightarrow> map_clear_loop release m (Suc i) n s
      | Some Deleted \<Rightarrow> map_clear_loop release (m\<lparr>mdata := (mdata m)[i := Null]\<rparr>) (Suc i) n s
      | Some (Item k v) \<Rightarrow>
          (case release v s of
             None \<Rightarrow> None
           | Some s' \<Rightarrow> map_clear_loop release (m\<lparr>mdata := (mdata m)[i := Null]\<rparr>) (Suc i) n s'))"

definition map_clear :: "('v \<Rightarrow> 's \<Rightarrow> 's option) \<Rightarrow> 'v hmap \<Rightarrow> 's \<Rightarrow> ('v hmap \<times> 's) option" where
  "map_clear release m s =
     map_option (\<lambda>(m', s'). (m'\<lparr>mcount := 0\<rparr>, s')) (map_clear_loop release m 0 (unat (msize m)) s)"

text \<open>
  \<open>map_hash\<close> returns the slot index to write, -1 when the table is full, -2 when the probe
  loop ends without a slot. Taking an unused slot counts it already.
\<close>

fun map_hash_loop :: "'v hmap \<Rightarrow> u32 \<Rightarrow> nat \<Rightarrow> nat \<Rightarrow> (int \<times> 'v hmap) option" where
  "map_hash_loop m key idx 0 = Some (- 2, m)"
| "map_hash_loop m key idx (Suc n) =
     (case array_at (mdata m) idx of
        None \<Rightarrow> None
      | Some (Item k v) \<Rightarrow>
          if k = key then Some (int idx, m)
          else map_hash_loop m key (Suc idx mod unat (msize m)) n
      | Some _ \<Rightarrow> Some (int idx, m\<lparr>mcount := mcount m + 1\<rparr>))"

definition map_hash :: "'v hmap \<Rightarrow> u32 \<Rightarrow> (int \<times> 'v hmap) option" where
  "map_hash m key =
     (if mcount m = msize m then Some (- 1, m)
      else if msize m = 0 then None
      else map_hash_loop m key (unat (key mod msize m)) (unat (msize m)))"

text \<open>
  \<open>map_reput\<close> writes \<open>*old\<close> from the slot: the item it replaces, or null for an unused slot
  (the deletion marker reads as null). On an error return the caller's \<open>*old\<close> is not written;
  the model has \<open>None\<close> there.
\<close>

definition slot_old :: "'v slot \<Rightarrow> 'v option" where
  "slot_old s = (case s of Item k v \<Rightarrow> Some v | _ \<Rightarrow> None)"

definition slot_of :: "u32 \<Rightarrow> 'v option \<Rightarrow> 'v slot" where
  "slot_of key value = (case value of Some v \<Rightarrow> Item key v | None \<Rightarrow> Null)"

text \<open>
  The loop of \<open>map_rehash\<close> over the old table; \<open>put\<close> is \<open>map_put\<close>. It stops at the first
  negative return code.
\<close>

fun map_rehash_loop ::
  "(allocs \<Rightarrow> 'v hmap \<Rightarrow> u32 \<Rightarrow> 'v option \<Rightarrow> (int \<times> 'v option \<times> 'v hmap \<times> allocs) option) \<Rightarrow>
   'v slot list \<Rightarrow> 'v hmap \<Rightarrow> allocs \<Rightarrow> (int \<times> 'v hmap \<times> allocs) option" where
  "map_rehash_loop put [] m al = Some (0, m, al)"
| "map_rehash_loop put (Item k v # ss) m al =
     (case put al m k (Some v) of
        None \<Rightarrow> None
      | Some (rc, old, m', al') \<Rightarrow>
          if rc < 0 then Some (rc, m', al') else map_rehash_loop put ss m' al')"
| "map_rehash_loop put (s # ss) m al = map_rehash_loop put ss m al"

definition map_rehash ::
  "(allocs \<Rightarrow> 'v hmap \<Rightarrow> u32 \<Rightarrow> 'v option \<Rightarrow> (int \<times> 'v option \<times> 'v hmap \<times> allocs) option) \<Rightarrow>
   allocs \<Rightarrow> 'v hmap \<Rightarrow> (int \<times> 'v hmap \<times> allocs) option" where
  "map_rehash put al m =
     (case alloc al of
        (False, al') \<Rightarrow> Some (- 1, m, al')
      | (True, al') \<Rightarrow>
          map_rehash_loop put (mdata m)
            \<lparr>msize = msize m + 256, mcount = 0, mdata = replicate (unat (msize m + 256)) Null\<rparr> al')"

fun map_reput_fuel ::
  "nat \<Rightarrow> allocs \<Rightarrow> 'v hmap \<Rightarrow> u32 \<Rightarrow> 'v option \<Rightarrow> (int \<times> 'v option \<times> 'v hmap \<times> allocs) option" where
  "map_reput_fuel 0 al m key value = None"
| "map_reput_fuel (Suc n) al m key value =
     (case map_hash m key of
        None \<Rightarrow> None
      | Some (rc, m1) \<Rightarrow>
          if rc < 0 then
            (case map_rehash (map_reput_fuel n) al m1 of
               None \<Rightarrow> None
             | Some (rc', m2, al') \<Rightarrow>
                 if rc' < 0 then Some (rc', None, m2, al') else map_reput_fuel n al' m2 key value)
          else
            (case array_at (mdata m1) (nat rc) of
               None \<Rightarrow> None
             | Some s \<Rightarrow>
                 Some (0, slot_old s, m1\<lparr>mdata := (mdata m1)[nat rc := slot_of key value]\<rparr>, al)))"

text \<open>
  Fuel 2 is enough for every well-formed table (one rehash, whose own insertions never
  rehash again): lemma \<open>map_reput_spec\<close>.
\<close>

definition map_reput ::
  "allocs \<Rightarrow> 'v hmap \<Rightarrow> u32 \<Rightarrow> 'v option \<Rightarrow> (int \<times> 'v option \<times> 'v hmap \<times> allocs) option" where
  "map_reput = map_reput_fuel 2"

definition map_put :: "allocs \<Rightarrow> 'v hmap \<Rightarrow> u32 \<Rightarrow> 'v option \<Rightarrow> (int \<times> 'v hmap \<times> allocs) option" where
  "map_put al m key value = map_option (\<lambda>(rc, old, m', al'). (rc, m', al')) (map_reput al m key value)"

text \<open>\<open>map_find\<close> returns the entry, here its index, or null.\<close>

fun map_find_loop :: "'v hmap \<Rightarrow> u32 \<Rightarrow> nat \<Rightarrow> nat \<Rightarrow> nat option option" where
  "map_find_loop m key idx 0 = Some None"
| "map_find_loop m key idx (Suc n) =
     (case array_at (mdata m) idx of
        None \<Rightarrow> None
      | Some Null \<Rightarrow> Some None
      | Some Deleted \<Rightarrow> map_find_loop m key (Suc idx mod unat (msize m)) n
      | Some (Item k v) \<Rightarrow>
          if k = key then Some (Some idx) else map_find_loop m key (Suc idx mod unat (msize m)) n)"

definition map_find :: "'v hmap \<Rightarrow> u32 \<Rightarrow> nat option option" where
  "map_find m key =
     (if msize m = 0 then Some None
      else map_find_loop m key (unat (key mod msize m)) (unat (msize m)))"

definition map_contains :: "'v hmap \<Rightarrow> u32 \<Rightarrow> int option" where
  "map_contains m key = map_option (\<lambda>e. if e = None then 0 else 1) (map_find m key)"

definition map_get :: "'v hmap \<Rightarrow> u32 \<Rightarrow> 'v option option" where
  "map_get m key =
     (case map_find m key of
        None \<Rightarrow> None
      | Some None \<Rightarrow> Some None
      | Some (Some i) \<Rightarrow> map_option slot_old (array_at (mdata m) i))"

definition map_remove :: "'v hmap \<Rightarrow> u32 \<Rightarrow> (int \<times> 'v hmap) option" where
  "map_remove m key =
     (case map_find m key of
        None \<Rightarrow> None
      | Some None \<Rightarrow> Some (1, m)
      | Some (Some i) \<Rightarrow> Some (0, m\<lparr>mdata := (mdata m)[i := Deleted], mcount := mcount m - 1\<rparr>))"

definition map_length :: "'v hmap option \<Rightarrow> u32" where
  "map_length mo = (case mo of None \<Rightarrow> 0 | Some m \<Rightarrow> mcount m)"

section \<open>Iteration\<close>

text \<open>
  An iterator is the index of a table entry, or null at the end. \<open>map_iter_from\<close> scans from
  \<open>start\<close>; the second argument counts the entries left.
\<close>

fun map_iter_loop :: "'v hmap \<Rightarrow> nat \<Rightarrow> nat \<Rightarrow> nat option option" where
  "map_iter_loop m i 0 = Some None"
| "map_iter_loop m i (Suc n) =
     (case array_at (mdata m) i of
        None \<Rightarrow> None
      | Some (Item k v) \<Rightarrow> Some (Some i)
      | Some _ \<Rightarrow> map_iter_loop m (Suc i) n)"

definition map_iter_from :: "'v hmap \<Rightarrow> nat \<Rightarrow> nat option option" where
  "map_iter_from m start = map_iter_loop m start (unat (msize m) - start)"

definition map_iter_next :: "'v hmap \<Rightarrow> nat option \<Rightarrow> nat option option" where
  "map_iter_next m iter = (case iter of None \<Rightarrow> Some None | Some i \<Rightarrow> map_iter_from m (i + 1))"

definition map_iter_first :: "'v hmap \<Rightarrow> nat option option" where
  "map_iter_first m = map_iter_from m 0"

definition map_iter_item :: "'v hmap \<Rightarrow> nat \<Rightarrow> 'v option option" where
  "map_iter_item m i = map_option slot_old (array_at (mdata m) i)"

text \<open>
  The \<open>map_for_each\<close> macro. The loop body runs on the caller's state \<open>s\<close>, of which
  \<open>getm\<close> reads the map at every step, since the body may change it; the body is given the
  item and may return early with a value. The fuel bounds the iterations: an iterator only
  moves forward, so the table length is enough.
\<close>

fun map_for_each_loop ::
  "nat \<Rightarrow> ('s \<Rightarrow> 'v hmap option) \<Rightarrow> ('v \<Rightarrow> 's \<Rightarrow> ('r option \<times> 's) option) \<Rightarrow> nat option \<Rightarrow> 's \<Rightarrow>
   ('r option \<times> 's) option" where
  "map_for_each_loop n getm body None s = Some (None, s)"
| "map_for_each_loop 0 getm body (Some i) s = None"
| "map_for_each_loop (Suc n) getm body (Some i) s = do {
     m \<leftarrow> getm s;
     item \<leftarrow> map_iter_item m i;
     v \<leftarrow> item;
     (r, s') \<leftarrow> body v s;
     (case r of
        Some x \<Rightarrow> Some (Some x, s')
      | None \<Rightarrow> do {
          m' \<leftarrow> getm s';
          it \<leftarrow> map_iter_next m' (Some i);
          map_for_each_loop n getm body it s' })
   }"

definition map_for_each ::
  "('s \<Rightarrow> 'v hmap option) \<Rightarrow> ('v \<Rightarrow> 's \<Rightarrow> ('r option \<times> 's) option) \<Rightarrow> 's \<Rightarrow> ('r option \<times> 's) option" where
  "map_for_each getm body s = do {
     m \<leftarrow> getm s;
     it \<leftarrow> map_iter_first m;
     map_for_each_loop (unat (msize m)) getm body it s
   }"

end
