(* ===== verification/Keyed_Table.thy ===== *)
theory Keyed_Table
  imports Qrtr_Prelude
begin

text \<open>
  The interface the name server relies on when it keeps nodes and servers in hash tables.
  Contents are a list of key/item pairs; the laws say what lookup, removal and insertion do to
  them, including that a lookup returns some item of the key (a table may hold a key twice) and
  that an insertion may fail without changing the table. The lemmas derive the behaviour of an
  abstract map for tables whose keys are all different.
\<close>

section \<open>Lists of keys and items\<close>

text \<open>Lists with different keys in which one key was set, replacing the item \<open>old\<close> if there was one.\<close>

lemma map_of_replaced:
  assumes eq: "mset ys + (case old of None \<Rightarrow> {#} | Some u \<Rightarrow> {#(k, u)#}) = add_mset (k, v) (mset xs)"
    and d: "distinct (map fst xs)" and old: "old = map_of xs k" and kv: "(k, v) \<in> set ys"
  shows "distinct (map fst ys) \<and> map_of ys = (map_of xs)(k \<mapsto> v)"
proof -
  have keys: "mset (map fst ys) + (case old of None \<Rightarrow> {#} | Some u \<Rightarrow> {#k#}) =
      add_mset k (mset (map fst xs))"
    using arg_cong [OF eq, of "image_mset fst"] by (cases old) auto
  show ?thesis
  proof (cases old)
    case None
    then have k: "k \<notin> fst ` set xs" using old by (simp add: map_of_eq_None_iff)
    have d2: "distinct (map fst ((k, v) # xs))" using d k by auto
    have "mset (map fst ys) = mset (map fst ((k, v) # xs))"
      using keys None by simp
    then have d': "distinct (map fst ys)"
      using d2 mset_eq_imp_distinct_iff by blast
    have "mset ys = mset ((k, v) # xs)" using eq None by simp
    then have "set ys = set ((k, v) # xs)" by (rule mset_eq_setD)
    then have "map_of ys = map_of ((k, v) # xs)"
      using map_of_inject_set [OF d' d2] by blast
    with d' show ?thesis by simp
  next
    case (Some u)
    have "mset (map fst ys) = mset (map fst xs)" using keys Some by simp
    then have d': "distinct (map fst ys)"
      using d mset_eq_imp_distinct_iff by blast
    have "map_of ys x = ((map_of xs)(k \<mapsto> v)) x" for x
    proof (cases "x = k")
      case True
      with kv d' show ?thesis by simp
    next
      case False
      have "mset ((k, u) # ys) = mset ((k, v) # xs)" using eq Some by simp
      from mset_eq_setD [OF this] False
      have "(x, y) \<in> set ys \<longleftrightarrow> (x, y) \<in> set xs" for y by auto
      then have "map_of ys x = Some y \<longleftrightarrow> map_of xs x = Some y" for y
        using d' d by (simp add: map_of_eq_Some_iff)
      then have "map_of ys x = map_of xs x"
        by (metis option.exhaust)
      with False show ?thesis by simp
    qed
    with d' show ?thesis by auto
  qed
qed

section \<open>Lookup and removal\<close>

locale keyed_table =
  fixes get :: "'m \<Rightarrow> 'k \<Rightarrow> 'v option option"
    and remove :: "'m \<Rightarrow> 'k \<Rightarrow> (int \<times> 'm) option"
    and contents :: "'m \<Rightarrow> ('k \<times> 'v) list"
    and ok :: "'m \<Rightarrow> bool"
  assumes get_total: "ok m \<Longrightarrow> \<exists>r. get m k = Some r"
    and get_absent: "ok m \<Longrightarrow> get m k = Some None \<longleftrightarrow> k \<notin> fst ` set (contents m)"
    and get_present: "ok m \<Longrightarrow> get m k = Some (Some v) \<Longrightarrow> (k, v) \<in> set (contents m)"
    and remove_absent: "ok m \<Longrightarrow> get m k = Some None \<Longrightarrow> remove m k = Some (1, m)"
    and remove_present: "ok m \<Longrightarrow> get m k = Some (Some v) \<Longrightarrow>
      \<exists>m'. remove m k = Some (0, m') \<and> ok m' \<and>
        add_mset (k, v) (mset (contents m')) = mset (contents m)"
begin

lemma get_map_of:
  assumes "ok m" "distinct (map fst (contents m))"
  shows "get m k = Some (map_of (contents m) k)"
proof -
  obtain r where r: "get m k = Some r" using get_total assms(1) by blast
  show ?thesis
  proof (cases r)
    case None
    then have "map_of (contents m) k = None"
      using r get_absent [OF assms(1), of k] by (simp add: map_of_eq_None_iff)
    with r None show ?thesis by simp
  next
    case (Some v)
    with r get_present [OF assms(1)] assms(2) show ?thesis by simp
  qed
qed

lemma remove_total: "ok m \<Longrightarrow> \<exists>rc m'. remove m k = Some (rc, m') \<and> ok m'"
  using get_total [of m k] remove_absent remove_present by (metis option.exhaust)

text \<open>With different keys, removal deletes the key from the represented map.\<close>

lemma remove_map_of:
  assumes ok: "ok m" and d: "distinct (map fst (contents m))" and rm: "remove m k = Some (rc, m')"
  shows "ok m'" "distinct (map fst (contents m'))"
    "map_of (contents m') = (map_of (contents m))(k := None)"
    "rc = (if k \<in> fst ` set (contents m) then 0 else 1)"
proof -
  obtain r where r: "get m k = Some r" using get_total ok by blast
  have "ok m' \<and> distinct (map fst (contents m')) \<and>
      map_of (contents m') = (map_of (contents m))(k := None) \<and>
      rc = (if k \<in> fst ` set (contents m) then 0 else 1)"
  proof (cases r)
    case None
    with r ok rm have "m' = m" "rc = 1" "k \<notin> fst ` set (contents m)"
      using remove_absent get_absent by auto
    with ok d show ?thesis by (simp add: fun_upd_idem map_of_eq_None_iff)
  next
    case (Some v)
    with r ok rm obtain m'' where m'': "m' = m''" "rc = 0" "ok m''"
      "add_mset (k, v) (mset (contents m'')) = mset (contents m)"
      using remove_present by fastforce
    then have eq: "mset ((k, v) # contents m') = mset (contents m)" by simp
    then have "mset (map fst ((k, v) # contents m')) = mset (map fst (contents m))"
      by (metis mset_map)
    then have d': "distinct (map fst ((k, v) # contents m'))"
      using d mset_eq_imp_distinct_iff by blast
    have "map_of (contents m) = map_of ((k, v) # contents m')"
      using d d' mset_eq_setD [OF eq] by (subst map_of_inject_set) auto
    moreover have "map_of (contents m') k = None"
      using d' by (simp add: map_of_eq_None_iff)
    moreover have "k \<in> fst ` set (contents m)"
      using get_present [OF ok] r Some by force
    ultimately show ?thesis using m'' d' by (auto simp: fun_eq_iff)
  qed
  then show "ok m'" "distinct (map fst (contents m'))"
    "map_of (contents m') = (map_of (contents m))(k := None)"
    "rc = (if k \<in> fst ` set (contents m) then 0 else 1)"
    by simp_all
qed

end

section \<open>Insertion\<close>

text \<open>
  An insertion returns 0, the item it replaced, if any, and the new table, or a negative code
  with the table unchanged. It works on the contents \<open>M\<close>, which are all of the old contents
  when the keys are different, and never loses a key.
\<close>

locale growing_table = keyed_table get remove contents ok
  for get :: "'m \<Rightarrow> 'k \<Rightarrow> 'v option option"
    and remove :: "'m \<Rightarrow> 'k \<Rightarrow> (int \<times> 'm) option"
    and contents :: "'m \<Rightarrow> ('k \<times> 'v) list"
    and ok :: "'m \<Rightarrow> bool" +
  fixes put :: "'a \<Rightarrow> 'm \<Rightarrow> 'k \<Rightarrow> 'v \<Rightarrow> (int \<times> 'v option \<times> 'm \<times> 'a) option"
    and small :: "'m \<Rightarrow> bool"
    and pristine :: "'m \<Rightarrow> bool"
  assumes put_cases: "ok m \<Longrightarrow> small m \<Longrightarrow>
    \<exists>rc old m' a'. put a m k v = Some (rc, old, m', a') \<and> ok m' \<and>
      (rc < 0 \<and> m' = m \<or>
       rc = 0 \<and> get m' k = Some (Some v) \<and>
       (\<exists>M. M \<subseteq># mset (contents m) \<and> fst ` set_mset M = fst ` set (contents m) \<and>
          (distinct (map fst (contents m)) \<longrightarrow> M = mset (contents m)) \<and>
          mset (contents m') + (case old of None \<Rightarrow> {#} | Some u \<Rightarrow> {#(k, u)#}) = add_mset (k, v) M) \<and>
       (pristine m \<longrightarrow> distinct (map fst (contents m)) \<longrightarrow> pristine m' \<and> get m k = Some old))"
begin

text \<open>
  Inserting a key that is not there, or into a pristine table (one without deletion marks),
  keeps the keys different and updates the represented map.
\<close>

lemma put_map_of:
  assumes "ok m" "distinct (map fst (contents m))" "put a m k v = Some (0, old, m', a')" "small m"
    and new: "k \<notin> fst ` set (contents m) \<or> pristine m"
  shows "ok m'" "distinct (map fst (contents m'))"
    "map_of (contents m') = (map_of (contents m))(k \<mapsto> v)"
    "old = map_of (contents m) k" "pristine m \<Longrightarrow> pristine m'"
proof -
  let ?o = "case old of None \<Rightarrow> {#} | Some u \<Rightarrow> {#(k, u)#}"
  from put_cases [OF assms(1,4), of a k v] assms(2,3) have ok': "ok m'"
    and getk: "get m' k = Some (Some v)"
    and eq: "mset (contents m') + ?o = add_mset (k, v) (mset (contents m))"
    and pr: "pristine m \<Longrightarrow> pristine m' \<and> get m k = Some old"
    by auto
  have kv: "(k, v) \<in> set (contents m')" using get_present [OF ok' getk] .
  have keys: "mset (map fst (contents m')) + (case old of None \<Rightarrow> {#} | Some u \<Rightarrow> {#k#}) =
      add_mset k (mset (map fst (contents m)))"
    using arg_cong [OF eq, of "image_mset fst"] by (cases old) auto
  have old: "old = map_of (contents m) k"
  proof (cases "pristine m")
    case True
    with pr get_map_of [OF assms(1,2), of k] show ?thesis by simp
  next
    case False
    with new have k: "k \<notin> fst ` set (contents m)" by blast
    have "old = None"
    proof (rule ccontr)
      assume "old \<noteq> None"
      then obtain u where "old = Some u" by blast
      with keys have "mset (map fst (contents m')) = mset (map fst (contents m))" by simp
      then have "set (map fst (contents m')) = set (map fst (contents m))" by (rule mset_eq_setD)
      with kv k show False by force
    qed
    with k show ?thesis by (metis map_of_eq_None_iff)
  qed
  from map_of_replaced [OF eq assms(2) old kv]
  show "distinct (map fst (contents m'))" "map_of (contents m') = (map_of (contents m))(k \<mapsto> v)"
    by simp_all
  show "ok m'" by (rule ok')
  show "old = map_of (contents m) k" by (rule old)
  show "pristine m'" if "pristine m" using pr that by blast
qed

end

end
