(* ===== verification/Hashmap_Spec.thy ===== *)
theory Hashmap_Spec
  imports Hashmap Keyed_Table
begin

text \<open>
  Well-formedness and correctness of the hash table. The probe sequence of a key visits every
  slot; the well-formedness invariant says that an item can be reached from its home slot
  without crossing an unused slot, that the item counter is exact and that the table size stays
  below the \<open>int\<close> range. The contents are the list of entries in slot order; each operation is
  described by what it does to the multiset of entries, and, for tables with unique keys, to
  the abstract map they represent.
\<close>

section \<open>Entries\<close>

fun slot_entries :: "'v slot list \<Rightarrow> (u32 \<times> 'v) list" where
  "slot_entries [] = []"
| "slot_entries (Item k v # ss) = (k, v) # slot_entries ss"
| "slot_entries (_ # ss) = slot_entries ss"

definition entries :: "'v hmap \<Rightarrow> (u32 \<times> 'v) list" where
  "entries m = slot_entries (mdata m)"

definition map_uniq :: "'v hmap \<Rightarrow> bool" where
  "map_uniq m \<longleftrightarrow> distinct (map fst (entries m))"

definition map_abs :: "'v hmap \<Rightarrow> u32 \<Rightarrow> 'v option" where
  "map_abs m = map_of (entries m)"

definition no_tombs :: "'v hmap \<Rightarrow> bool" where
  "no_tombs m \<longleftrightarrow> Deleted \<notin> set (mdata m)"

lemma set_slot_entries [simp]: "(k, v) \<in> set (slot_entries ss) \<longleftrightarrow> Item k v \<in> set ss"
  by (induction ss rule: slot_entries.induct) auto

lemma slot_entries_append [simp]: "slot_entries (xs @ ys) = slot_entries xs @ slot_entries ys"
  by (induction xs rule: slot_entries.induct) auto

lemma slot_entries_replicate_Null [simp]: "slot_entries (replicate n Null) = []"
  by (induction n) auto

lemma slot_entries_single: "slot_entries [s] = (case s of Item k v \<Rightarrow> [(k, v)] | _ \<Rightarrow> [])"
  by (cases s) auto

lemma mset_slot_entries_update:
  assumes "i < length ss"
  shows "mset (slot_entries (ss[i := x])) + mset (slot_entries [ss ! i]) =
         mset (slot_entries ss) + mset (slot_entries [x])"
proof -
  have split: "ss = take i ss @ [ss ! i] @ drop (Suc i) ss"
    using assms by (simp add: id_take_nth_drop)
  have "slot_entries (ss[i := x]) =
      slot_entries (take i ss) @ slot_entries [x] @ slot_entries (drop (Suc i) ss)"
    using assms by (simp only: upd_conv_take_nth_drop slot_entries_append flip: append_Cons)
      (metis append_Cons append_Nil slot_entries_append)
  moreover have "slot_entries ss =
      slot_entries (take i ss) @ slot_entries [ss ! i] @ slot_entries (drop (Suc i) ss)"
    by (subst split) (simp only: slot_entries_append)
  ultimately show ?thesis by simp
qed

lemma length_slot_entries_le: "length (slot_entries ss) \<le> length ss"
  by (induction ss rule: slot_entries.induct) auto

lemma slot_entries_free:
  "length (slot_entries ss) < length ss \<Longrightarrow> \<exists>i < length ss. \<forall>k v. ss ! i \<noteq> Item k v"
proof (induction ss rule: slot_entries.induct)
  case (2 k v ss)
  then obtain i where "i < length ss" "\<forall>k v. ss ! i \<noteq> Item k v" by auto
  then show ?case by (intro exI [of _ "Suc i"]) auto
qed auto

lemma slot_entries_full_no_tombs:
  "length (slot_entries ss) = length ss \<Longrightarrow> s \<in> set ss \<Longrightarrow> \<exists>k v. s = Item k v"
proof (induction ss)
  case (Cons a ss)
  then show ?case using length_slot_entries_le [of ss] by (cases a) auto
qed simp

section \<open>Probe sequences and well-formedness\<close>

definition home :: "'v hmap \<Rightarrow> u32 \<Rightarrow> nat" where
  "home m key = unat (key mod msize m)"

definition probe :: "'v hmap \<Rightarrow> u32 \<Rightarrow> nat \<Rightarrow> nat" where
  "probe m key j = (home m key + j) mod unat (msize m)"

definition map_chain :: "'v hmap \<Rightarrow> bool" where
  "map_chain m \<longleftrightarrow> (\<forall>i k v. i < length (mdata m) \<longrightarrow> mdata m ! i = Item k v \<longrightarrow>
     (\<exists>j < unat (msize m). i = probe m k j \<and> (\<forall>j' < j. mdata m ! probe m k j' \<noteq> Null)))"

definition map_wf :: "'v hmap \<Rightarrow> bool" where
  "map_wf m \<longleftrightarrow> length (mdata m) = unat (msize m) \<and> unat (msize m) < 2 ^ 31 \<and>
     unat (mcount m) = length (entries m) \<and> map_chain m"

lemma probe_cong [simp]:
  "probe (m\<lparr>mcount := c\<rparr>) = probe m" "probe (m\<lparr>mdata := d\<rparr>) = probe m"
  by (simp_all add: probe_def home_def fun_eq_iff)

lemma probe_less [simp]: "0 < unat (msize m) \<Longrightarrow> probe m k j < unat (msize m)"
  by (simp add: probe_def)

lemma home_less: "0 < unat (msize m) \<Longrightarrow> home m k < unat (msize m)"
  by (simp add: home_def unat_mod)

lemma probe_0: "0 < unat (msize m) \<Longrightarrow> probe m k 0 = home m k"
  using home_less [of m k] by (simp add: probe_def)

lemma probe_Suc: "Suc (probe m k j) mod unat (msize m) = probe m k (Suc j)"
  by (simp add: probe_def mod_Suc_eq)

lemma probe_surj:
  assumes "i < unat (msize m)"
  shows "\<exists>j < unat (msize m). probe m k j = i"
proof -
  let ?S = "unat (msize m)" and ?h = "home m k"
  have h: "?h < ?S" using assms by (intro home_less) simp
  have "(?h + (i + (?S - ?h)) mod ?S) mod ?S = (?h + (i + (?S - ?h))) mod ?S"
    by (simp add: mod_add_right_eq)
  also have "?h + (i + (?S - ?h)) = i + ?S" using h by simp
  finally have "probe m k ((i + (?S - ?h)) mod ?S) = i" using assms by (simp add: probe_def)
  then show ?thesis using assms by (intro exI [of _ "(i + (?S - ?h)) mod ?S"]) auto
qed

lemma map_wf_Item_bounds: "map_wf m \<Longrightarrow> Item k v \<in> set (mdata m) \<Longrightarrow> 0 < unat (msize m)"
  unfolding map_wf_def by (metis in_set_conv_nth not_gr_zero not_less_zero)

lemma map_wf_chainD:
  assumes "map_wf m" "i < length (mdata m)" "mdata m ! i = Item k v"
  shows "\<exists>j < unat (msize m). i = probe m k j \<and> (\<forall>j' < j. mdata m ! probe m k j' \<noteq> Null)"
  using assms unfolding map_wf_def map_chain_def by blast

text \<open>The stopping slots of the insertion probe and of the lookup probe.\<close>

definition hstop :: "'v hmap \<Rightarrow> u32 \<Rightarrow> nat \<Rightarrow> bool" where
  "hstop m key j = (case mdata m ! probe m key j of Item k v \<Rightarrow> k = key | _ \<Rightarrow> True)"

definition fstop :: "'v hmap \<Rightarrow> u32 \<Rightarrow> nat \<Rightarrow> bool" where
  "fstop m key j = (case mdata m ! probe m key j of Null \<Rightarrow> True | Deleted \<Rightarrow> False | Item k v \<Rightarrow> k = key)"

definition map_take :: "'v hmap \<Rightarrow> nat \<Rightarrow> 'v hmap" where
  "map_take m i = (case mdata m ! i of Item k v \<Rightarrow> m | _ \<Rightarrow> m\<lparr>mcount := mcount m + 1\<rparr>)"

lemma map_hash_loop_find:
  assumes "length (mdata m) = unat (msize m)" "j + n = unat (msize m)" "0 < unat (msize m)"
  shows "map_hash_loop m key (probe m key j) n =
    (case find (hstop m key) [j..<unat (msize m)] of
       None \<Rightarrow> Some (- 2, m)
     | Some j0 \<Rightarrow> Some (int (probe m key j0), map_take m (probe m key j0)))"
  using assms
proof (induction n arbitrary: j)
  case (Suc n)
  then have "j < unat (msize m)" by simp
  with Suc show ?case
    by (auto simp: find_upt_unfold hstop_def map_take_def probe_Suc split: slot.splits)
qed simp

lemma map_find_loop_find:
  assumes "length (mdata m) = unat (msize m)" "j + n = unat (msize m)" "0 < unat (msize m)"
  shows "map_find_loop m key (probe m key j) n =
    Some (case find (fstop m key) [j..<unat (msize m)] of
       None \<Rightarrow> None
     | Some j0 \<Rightarrow> (if mdata m ! probe m key j0 = Null then None else Some (probe m key j0)))"
  using assms
proof (induction n arbitrary: j)
  case (Suc n)
  then have "j < unat (msize m)" by simp
  with Suc show ?case
    by (auto simp: find_upt_unfold fstop_def probe_Suc split: slot.splits)
qed simp


section \<open>Lookup\<close>

lemma map_find_unfold:
  assumes "map_wf m"
  shows "map_find m key =
    Some (if unat (msize m) = 0 then None
      else (case find (fstop m key) [0..<unat (msize m)] of
         None \<Rightarrow> None
       | Some j0 \<Rightarrow> (if mdata m ! probe m key j0 = Null then None else Some (probe m key j0))))"
proof (cases "msize m = 0")
  case False
  then have "0 < unat (msize m)" by (simp add: unat_gt_0)
  then show ?thesis
    using False assms map_find_loop_find [of m 0 "unat (msize m)" key]
    by (simp add: map_find_def map_wf_def probe_0 home_def)
qed (simp add: map_find_def)

text \<open>
  On a well-formed table the search is defined, finds only matching items, and misses none.
\<close>

lemma map_find_cases:
  assumes wf: "map_wf m"
  obtains (absent) "map_find m key = Some None" "\<forall>v. Item key v \<notin> set (mdata m)"
  | (present) i v j where "map_find m key = Some (Some i)" "i < length (mdata m)"
      "mdata m ! i = Item key v" "i = probe m key j" "j < unat (msize m)"
      "\<forall>j' < j. \<not> fstop m key j'"
proof (cases "\<exists>v. Item key v \<in> set (mdata m)")
  case True
  then obtain i v where i: "i < length (mdata m)" "mdata m ! i = Item key v"
    by (auto simp: in_set_conv_nth)
  then obtain j where j: "j < unat (msize m)" "i = probe m key j"
    "\<forall>j' < j. mdata m ! probe m key j' \<noteq> Null"
    using map_wf_chainD [OF wf] by blast
  have S: "0 < unat (msize m)" using j by simp
  have "fstop m key j" using i j by (simp add: fstop_def)
  then obtain j0 where j0: "find (fstop m key) [0..<unat (msize m)] = Some j0"
    using j by (metis find_upt_None le0 option.exhaust)
  note least = find_upt_least [OF j0]
  have "j0 \<le> j" using least j \<open>fstop m key j\<close> by (meson le0 not_less)
  then have "mdata m ! probe m key j0 \<noteq> Null"
    using j i by (cases "j0 = j") auto
  with least obtain v' where "mdata m ! probe m key j0 = Item key v'"
    by (auto simp: fstop_def split: slot.splits)
  moreover have "probe m key j0 < length (mdata m)" using wf S by (simp add: map_wf_def)
  ultimately show thesis
    using least j0 S wf by (intro present [of "probe m key j0" v' j0]) (auto simp: map_find_unfold)
next
  case False
  have "mdata m ! probe m key j = Null" if "fstop m key j" "0 < unat (msize m)" for j
  proof -
    have "probe m key j < length (mdata m)" using wf that by (simp add: map_wf_def)
    then have "mdata m ! probe m key j \<in> set (mdata m)" by simp
    with False that show ?thesis by (auto simp: fstop_def split: slot.splits)
  qed
  then have "map_find m key = Some None"
    using wf by (auto simp: map_find_unfold split: option.splits dest: find_upt_least)
  with False show thesis by (intro absent) auto
qed

lemma map_get_cases:
  assumes "map_wf m"
  obtains (absent) "map_get m key = Some None" "key \<notin> fst ` set (entries m)"
  | (present) v where "map_get m key = Some (Some v)" "(key, v) \<in> set (entries m)"
proof (cases rule: map_find_cases [OF assms, of key])
  case 1
  then show thesis by (intro absent) (auto simp: map_get_def entries_def)
next
  case (2 i v j)
  then have "Item key v \<in> set (mdata m)" by (metis nth_mem)
  with 2 show thesis
    by (intro present [of v]) (auto simp: map_get_def slot_old_def entries_def)
qed

lemma map_get_abs:
  assumes "map_wf m" "map_uniq m"
  shows "map_get m key = Some (map_abs m key)"
proof (cases rule: map_get_cases [OF assms(1), of key])
  case 1
  then have "map_abs m key = None" by (simp add: map_abs_def map_of_eq_None_iff)
  with 1 show ?thesis by simp
next
  case (2 v)
  then show ?thesis using assms(2) by (simp add: map_abs_def map_uniq_def)
qed

lemma map_contains_spec:
  assumes "map_wf m"
  shows "map_contains m key = Some (if key \<in> fst ` set (entries m) then 1 else 0)"
proof (cases rule: map_find_cases [OF assms, of key])
  case 1
  then show ?thesis by (force simp: map_contains_def entries_def)
next
  case (2 i v j)
  then have "Item key v \<in> set (mdata m)" by (metis nth_mem)
  then have "(key, v) \<in> set (entries m)" by (simp add: entries_def)
  then have "key \<in> fst ` set (entries m)" by force
  with 2 show ?thesis by (simp add: map_contains_def)
qed

section \<open>Removal\<close>

lemma map_chain_update:
  assumes "map_chain m" "i < length (mdata m)" "length (mdata m) = unat (msize m)"
    "s = Deleted \<or> (\<exists>k v j. s = Item k v \<and> j < unat (msize m) \<and> i = probe m k j \<and>
       (\<forall>j' < j. mdata m ! probe m k j' \<noteq> Null))"
  shows "map_chain (m\<lparr>mdata := (mdata m)[i := s]\<rparr>)"
  unfolding map_chain_def
proof (intro allI impI)
  fix a k v
  assume a: "a < length (mdata (m\<lparr>mdata := (mdata m)[i := s]\<rparr>))"
    "mdata (m\<lparr>mdata := (mdata m)[i := s]\<rparr>) ! a = Item k v"
  have S: "0 < unat (msize m)" using assms by simp
  have keep: "(mdata m)[i := s] ! b \<noteq> Null" if "mdata m ! b \<noteq> Null" for b
    using that assms by (cases "b = i") auto
  show "\<exists>j < unat (msize (m\<lparr>mdata := (mdata m)[i := s]\<rparr>)). a = probe (m\<lparr>mdata := (mdata m)[i := s]\<rparr>) k j \<and>
      (\<forall>j' < j. mdata (m\<lparr>mdata := (mdata m)[i := s]\<rparr>) ! probe (m\<lparr>mdata := (mdata m)[i := s]\<rparr>) k j' \<noteq> Null)"
  proof (cases "a = i")
    case True
    with a assms(2) have "s = Item k v" by simp
    with assms(4) True keep show ?thesis by auto
  next
    case False
    with a have "mdata m ! a = Item k v" "a < length (mdata m)" by simp_all
    then obtain j where "j < unat (msize m)" "a = probe m k j"
      "\<forall>j' < j. mdata m ! probe m k j' \<noteq> Null"
      using assms(1) unfolding map_chain_def by blast
    with keep show ?thesis by (intro exI [of _ j]) simp
  qed
qed

lemma map_remove_cases:
  assumes wf: "map_wf m"
  obtains (absent) "map_remove m key = Some (1, m)" "map_get m key = Some None"
      "key \<notin> fst ` set (entries m)"
  | (present) v m' where "map_remove m key = Some (0, m')" "map_get m key = Some (Some v)"
      "map_wf m'" "msize m' = msize m"
      "add_mset (key, v) (mset (entries m')) = mset (entries m)"
proof (cases rule: map_find_cases [OF wf, of key])
  case 1
  then have "key \<notin> fst ` set (entries m)" by (force simp: entries_def)
  with 1 show thesis by (intro absent) (auto simp: map_get_def map_remove_def)
next
  case (2 i v j)
  let ?m' = "m\<lparr>mdata := (mdata m)[i := Deleted], mcount := mcount m - 1\<rparr>"
  have ms: "mset (entries ?m') + {#(key, v)#} = mset (entries m)"
    using mset_slot_entries_update [OF 2(2), of Deleted] 2(3)
    by (simp add: entries_def slot_entries_single)
  then have len: "Suc (length (entries ?m')) = length (entries m)"
    by (metis add_mset_add_single size_add_mset size_mset)
  have "unat (mcount m) = length (entries m)" using wf by (simp add: map_wf_def)
  then have "unat (mcount m - 1) = length (entries ?m')"
    using len by (subst unat_minus1) auto
  moreover have "map_chain ?m'"
    using map_chain_update [of m i Deleted] wf 2(2) by (simp add: map_wf_def map_chain_def)
  ultimately have "map_wf ?m'" using wf by (simp add: map_wf_def)
  moreover have "map_remove m key = Some (0, ?m')" using 2(1) by (simp add: map_remove_def)
  moreover have "map_get m key = Some (Some v)" using 2 by (simp add: map_get_def slot_old_def)
  ultimately show thesis using ms by (intro present [of ?m' v]) simp_all
qed

section \<open>Insertion into a table with room\<close>

lemma map_hash_full: "mcount m = msize m \<Longrightarrow> map_hash m key = Some (- 1, m)"
  by (simp add: map_hash_def)

lemma map_wf_room:
  assumes "map_wf m" "mcount m \<noteq> msize m"
  shows "unat (mcount m) < unat (msize m)"
proof -
  have "unat (mcount m) \<le> unat (msize m)"
    using assms(1) length_slot_entries_le [of "mdata m"] by (simp add: map_wf_def entries_def)
  with assms(2) show ?thesis by (simp add: word_unat_eq_iff)
qed

lemma map_hash_room:
  assumes wf: "map_wf m" and room: "mcount m \<noteq> msize m"
  obtains j where "j < unat (msize m)" "hstop m key j" "\<forall>j' < j. \<not> hstop m key j'"
    "map_hash m key = Some (int (probe m key j), map_take m (probe m key j))"
proof -
  have len: "length (mdata m) = unat (msize m)" using wf by (simp add: map_wf_def)
  have less: "unat (mcount m) < unat (msize m)" by (rule map_wf_room [OF wf room])
  then have S: "0 < unat (msize m)" by simp
  obtain i where i: "i < unat (msize m)" "\<forall>k v. mdata m ! i \<noteq> Item k v"
    using slot_entries_free [of "mdata m"] less wf by (auto simp: map_wf_def entries_def)
  obtain j where j: "j < unat (msize m)" "probe m key j = i" using probe_surj i by blast
  with i have "hstop m key j" by (auto simp: hstop_def split: slot.splits)
  with j obtain j0 where j0: "find (hstop m key) [0..<unat (msize m)] = Some j0"
    by (metis find_upt_None le0 option.exhaust)
  have "msize m \<noteq> 0" using S by auto
  then have "map_hash m key = Some (int (probe m key j0), map_take m (probe m key j0))"
    using room map_hash_loop_find [OF len, of 0 "unat (msize m)" key] S j0
    by (simp add: map_hash_def probe_0 home_def)
  with find_upt_least [OF j0] show thesis by (intro that [of j0]) auto
qed

text \<open>The table after writing an item into the slot that \<open>map_hash\<close> chose.\<close>

definition map_write :: "'v hmap \<Rightarrow> nat \<Rightarrow> u32 \<Rightarrow> 'v \<Rightarrow> 'v hmap" where
  "map_write m i key v = (map_take m i)\<lparr>mdata := (mdata m)[i := Item key v]\<rparr>"

lemma map_take_simps [simp]:
  "mdata (map_take m i) = mdata m" "msize (map_take m i) = msize m"
  by (simp_all add: map_take_def split: slot.splits)

lemma map_write_simps [simp]:
  "mdata (map_write m i key v) = (mdata m)[i := Item key v]"
  "msize (map_write m i key v) = msize m"
  "mcount (map_write m i key v) = mcount (map_take m i)"
  by (simp_all add: map_write_def)

lemma probe_map_write [simp]: "probe (map_write m i key v) = probe m"
  by (simp add: probe_def home_def fun_eq_iff)

declare map_reput_fuel.simps [simp del]

lemma map_reput_fuel_room:
  assumes wf: "map_wf m" and room: "mcount m \<noteq> msize m"
  obtains j where "j < unat (msize m)" "hstop m key j" "\<forall>j' < j. \<not> hstop m key j'"
    "map_reput_fuel (Suc n) al m key (Some v) =
      Some (0, slot_old (mdata m ! probe m key j), map_write m (probe m key j) key v, al)"
proof (cases rule: map_hash_room [OF wf room, of key])
  case (1 j)
  then have "probe m key j < length (mdata m)" using wf by (simp add: map_wf_def)
  with 1 show thesis
    by (intro that [of j]) (simp_all add: map_reput_fuel.simps map_write_def slot_of_def)
qed

lemma hstop_Item:
  "hstop m key j \<Longrightarrow> mdata m ! probe m key j = Item k v \<Longrightarrow> k = key"
  by (simp add: hstop_def)

lemma map_write_entries:
  assumes wf: "map_wf m" and j: "j < unat (msize m)" "hstop m key j"
  shows "mset (entries (map_write m (probe m key j) key v)) +
      (case slot_old (mdata m ! probe m key j) of None \<Rightarrow> {#} | Some u \<Rightarrow> {#(key, u)#}) =
    add_mset (key, v) (mset (entries m))"
proof -
  let ?i = "probe m key j"
  have i: "?i < length (mdata m)" using wf j by (simp add: map_wf_def)
  show ?thesis
    using mset_slot_entries_update [OF i, of "Item key v"] hstop_Item [OF j(2)]
    by (cases "mdata m ! ?i") (auto simp: entries_def slot_entries_single slot_old_def)
qed

lemma map_write_count:
  assumes wf: "map_wf m" and j: "j < unat (msize m)" "hstop m key j"
    and room: "mcount m \<noteq> msize m"
  shows "unat (mcount (map_write m (probe m key j) key v)) =
    length (entries (map_write m (probe m key j) key v))"
proof -
  let ?i = "probe m key j"
  have cnt: "unat (mcount m) = length (entries m)" using wf by (simp add: map_wf_def)
  note plus = unat_plus1_less [OF map_wf_room [OF wf room]]
  have "size (mset (entries (map_write m ?i key v)) +
      (case slot_old (mdata m ! ?i) of None \<Rightarrow> {#} | Some u \<Rightarrow> {#(key, u)#})) =
    Suc (length (entries m))"
    unfolding map_write_entries [OF wf j] by simp
  then show ?thesis
    using cnt plus by (cases "mdata m ! ?i") (simp_all add: map_take_def slot_old_def)
qed

lemma map_write_wf:
  assumes wf: "map_wf m" and j: "j < unat (msize m)" "hstop m key j" "\<forall>j' < j. \<not> hstop m key j'"
    and room: "mcount m \<noteq> msize m"
  shows "map_wf (map_write m (probe m key j) key v)"
proof -
  let ?i = "probe m key j"
  have i: "?i < length (mdata m)" using wf j by (simp add: map_wf_def)
  have "mdata m ! probe m key j' \<noteq> Null" if "j' < j" for j'
    using j(3) that by (force simp: hstop_def)
  then have "map_chain (m\<lparr>mdata := (mdata m)[?i := Item key v]\<rparr>)"
    using map_chain_update [of m ?i "Item key v"] wf i j(1) by (auto simp: map_wf_def)
  then have "map_chain (map_write m ?i key v)"
    by (simp add: map_chain_def)
  with wf map_write_count [OF wf j(1,2) room] show ?thesis by (simp add: map_wf_def)
qed

text \<open>After the write the key is found first in its probe sequence, with the new value.\<close>

lemma map_write_get:
  assumes wf: "map_wf m" and j: "j < unat (msize m)" "hstop m key j" "\<forall>j' < j. \<not> hstop m key j'"
    and room: "mcount m \<noteq> msize m"
  shows "map_get (map_write m (probe m key j) key v) key = Some (Some v)"
proof -
  let ?i = "probe m key j" and ?m = "map_write m (probe m key j) key v"
  have wf': "map_wf ?m" by (rule map_write_wf [OF assms])
  have i: "?i < length (mdata m)" using wf j by (simp add: map_wf_def)
  have stop: "fstop ?m key j" using i by (simp add: fstop_def)
  have before: "\<not> fstop ?m key j'" if "j' < j" for j'
  proof -
    have "\<not> hstop m key j'" using j(3) that by blast
    then have ne: "mdata m ! probe m key j' \<noteq> mdata m ! ?i"
      and nst: "\<not> hstop m key j'" using j(2) by (auto simp: hstop_def)
    then have "probe m key j' \<noteq> ?i" by auto
    then show ?thesis using nst by (auto simp: hstop_def fstop_def split: slot.splits)
  qed
  have "find (fstop ?m key) [0..<unat (msize ?m)] = Some j"
    by (rule find_upt_eqI) (use stop before j(1) in auto)
  then show ?thesis using wf' i j(1) by (simp add: map_get_def map_find_unfold slot_old_def)
qed

text \<open>
  What one insertion does to a table: one entry more, less the replaced one, and the new
  value is what the key now yields. In a table without deletion markers the replaced item is
  exactly the one a lookup would have found.
\<close>

definition old_mset :: "u32 \<Rightarrow> 'v option \<Rightarrow> (u32 \<times> 'v) multiset" where
  "old_mset key old = (case old of None \<Rightarrow> {#} | Some u \<Rightarrow> {#(key, u)#})"

lemma old_mset_simps [simp]: "old_mset key None = {#}" "old_mset key (Some u) = {#(key, u)#}"
  by (simp_all add: old_mset_def)

definition put_effect :: "'v hmap \<Rightarrow> u32 \<Rightarrow> 'v \<Rightarrow> 'v option \<Rightarrow> 'v hmap \<Rightarrow> bool" where
  "put_effect m key v old m' \<longleftrightarrow> map_wf m' \<and>
     mset (entries m') + old_mset key old = add_mset (key, v) (mset (entries m)) \<and>
     map_get m' key = Some (Some v) \<and>
     (no_tombs m \<longrightarrow> no_tombs m' \<and> map_get m key = Some old)"

lemma hstop_fstop:
  assumes "map_wf m" "no_tombs m" "0 < unat (msize m)"
  shows "hstop m key j = fstop m key j"
proof -
  have "probe m key j < length (mdata m)" using assms by (simp add: map_wf_def)
  then have "mdata m ! probe m key j \<in> set (mdata m)" by simp
  then have "mdata m ! probe m key j \<noteq> Deleted" using assms(2) by (auto simp: no_tombs_def)
  then show ?thesis by (simp add: hstop_def fstop_def split: slot.splits)
qed

lemma map_get_no_tombs:
  assumes wf: "map_wf m" and nt: "no_tombs m"
    and j: "j < unat (msize m)" "hstop m key j" "\<forall>j' < j. \<not> hstop m key j'"
  shows "map_get m key = Some (slot_old (mdata m ! probe m key j))"
proof -
  have S: "0 < unat (msize m)" using j by simp
  note eq = hstop_fstop [OF wf nt S]
  have "find (fstop m key) [0..<unat (msize m)] = Some j"
    by (rule find_upt_eqI) (use j in \<open>auto simp: eq\<close>)
  moreover have "probe m key j < length (mdata m)" using wf S by (simp add: map_wf_def)
  ultimately show ?thesis using wf S by (simp add: map_get_def map_find_unfold slot_old_def)
qed

lemma map_reput_fuel_effect:
  assumes wf: "map_wf m" and room: "mcount m \<noteq> msize m"
  obtains old m' where "map_reput_fuel (Suc n) al m key (Some v) = Some (0, old, m', al)"
    "put_effect m key v old m'" "msize m' = msize m"
proof (cases rule: map_reput_fuel_room [OF wf room, of key n al v])
  case (1 j)
  let ?i = "probe m key j"
  have "no_tombs (map_write m ?i key v)" if "no_tombs m"
    using that set_update_subset_insert [of "mdata m" ?i "Item key v"]
    by (auto simp: no_tombs_def)
  then have eff: "put_effect m key v (slot_old (mdata m ! ?i)) (map_write m ?i key v)"
    using 1 map_write_entries [OF wf 1(1,2)] map_write_wf [OF wf 1(1-3) room]
      map_write_get [OF wf 1(1-3) room] map_get_no_tombs [OF wf _ 1(1-3)]
    by (simp add: put_effect_def old_mset_def)
  show thesis by (rule that [OF 1(4) eff]) simp
qed

section \<open>Rehashing\<close>

lemma mset_keys_eq:
  "mset xs = mset ys \<Longrightarrow> fst ` set xs = fst ` set ys"
  by (metis set_mset_mset)

lemma map_uniq_mset: "mset (entries m) = mset (entries m') \<Longrightarrow> map_uniq m = map_uniq m'"
  unfolding map_uniq_def by (metis mset_map mset_eq_imp_distinct_iff)

lemma put_effect_uniq:
  assumes "put_effect m key v old m'" "map_uniq m" "old \<noteq> None \<or> key \<notin> fst ` set (entries m)"
  shows "map_uniq m'"
proof -
  have eq: "mset (map fst (entries m')) + (case old of None \<Rightarrow> {#} | Some u \<Rightarrow> {#key#}) =
      add_mset key (mset (map fst (entries m)))"
    using assms(1) by (auto simp: put_effect_def split: option.splits
        dest!: arg_cong [where f = "image_mset fst"])
  show ?thesis
  proof (cases old)
    case None
    then have "mset (map fst (entries m')) = mset (key # map fst (entries m))" using eq by simp
    then have "distinct (map fst (entries m')) = distinct (key # map fst (entries m))"
      by (rule mset_eq_imp_distinct_iff)
    then show ?thesis using assms(2,3) None by (simp add: map_uniq_def)
  next
    case (Some u)
    then have "mset (map fst (entries m')) = mset (map fst (entries m))" using eq by simp
    then have "distinct (map fst (entries m')) = distinct (map fst (entries m))"
      by (rule mset_eq_imp_distinct_iff)
    then show ?thesis using assms(2) by (simp add: map_uniq_def)
  qed
qed

lemma put_effect_keys:
  assumes "put_effect m key v old m'" "map_wf m"
  shows "fst ` set (entries m') = insert key (fst ` set (entries m))"
proof -
  have eq: "set_mset (mset (entries m') + old_mset key old) =
      set_mset (add_mset (key, v) (mset (entries m)))"
    using assms(1) by (simp add: put_effect_def)
  have "(key, v) \<in> set (entries m')"
    using assms(1) map_get_cases [of m' key]
    by (auto simp: put_effect_def)
  with eq show ?thesis
    by (cases old) (auto simp: image_iff, (metis fst_conv insert_iff)+)
qed

text \<open>
  Re-inserting a list of old slots into a fresh table: it never fills up, so nothing fails;
  no key is lost; and if all keys are different no entry is lost either.
\<close>

lemma map_rehash_loop_ok:
  assumes "map_wf m" "no_tombs m" "map_uniq m"
    "length (entries m) + length (slot_entries ss) < unat (msize m)"
  shows "\<exists>m'. map_rehash_loop (map_reput_fuel (Suc n)) ss m al = Some (0, m', al) \<and>
    map_wf m' \<and> no_tombs m' \<and> map_uniq m' \<and> msize m' = msize m \<and>
    length (entries m') \<le> length (entries m) + length (slot_entries ss) \<and>
    mset (entries m') \<subseteq># mset (entries m) + mset (slot_entries ss) \<and>
    fst ` set (entries m') = fst ` set (entries m) \<union> fst ` set (slot_entries ss) \<and>
    (distinct (map fst (entries m @ slot_entries ss)) \<longrightarrow>
       mset (entries m') = mset (entries m) + mset (slot_entries ss))"
  using assms
proof (induction ss arbitrary: m rule: slot_entries.induct)
  case (2 k v ss)
  have room: "mcount m \<noteq> msize m" using 2 by (auto simp: map_wf_def)
  obtain old m1 where m1: "map_reput_fuel (Suc n) al m k (Some v) = Some (0, old, m1, al)"
    "put_effect m k v old m1" "msize m1 = msize m"
    by (rule map_reput_fuel_effect [OF 2(2) room])
  have ms: "mset (entries m1) + old_mset k old = add_mset (k, v) (mset (entries m))"
    using m1 by (simp add: put_effect_def)
  then have sub: "mset (entries m1) \<subseteq># add_mset (k, v) (mset (entries m))"
    by (metis mset_subset_eq_add_left)
  have old: "map_get m k = Some old" using m1 2 by (simp add: put_effect_def)
  have "old \<noteq> None \<or> k \<notin> fst ` set (entries m)"
    by (cases rule: map_get_cases [OF 2(2), of k]) (use old in auto)
  with m1 2 have uniq: "map_uniq m1" by (blast intro: put_effect_uniq)
  have len: "length (entries m1) \<le> Suc (length (entries m))"
    using size_mset_mono [OF sub] by simp
  have wf1: "map_wf m1" "no_tombs m1" using m1 2 by (simp_all add: put_effect_def)
  have room1: "length (entries m1) + length (slot_entries ss) < unat (msize m1)"
    using len 2(5) m1(3) by simp
  from "2.IH" [OF wf1 uniq room1] obtain m' where m':
    "map_rehash_loop (map_reput_fuel (Suc n)) ss m1 al = Some (0, m', al)"
    "map_wf m'" "no_tombs m'" "map_uniq m'" "msize m' = msize m1"
    "length (entries m') \<le> length (entries m1) + length (slot_entries ss)"
    "mset (entries m') \<subseteq># mset (entries m1) + mset (slot_entries ss)"
    "fst ` set (entries m') = fst ` set (entries m1) \<union> fst ` set (slot_entries ss)"
    "distinct (map fst (entries m1 @ slot_entries ss)) \<longrightarrow>
       mset (entries m') = mset (entries m1) + mset (slot_entries ss)"
    by blast
  have keys: "fst ` set (entries m1) = insert k (fst ` set (entries m))"
    by (rule put_effect_keys [OF m1(2) 2(2)])
  have full: "mset (entries m') = mset (entries m) + mset (slot_entries (Item k v # ss))"
    if d: "distinct (map fst (entries m @ slot_entries (Item k v # ss)))"
  proof -
    have "k \<notin> fst ` set (entries m)" using d by auto
    then have "old = None" using old by (cases rule: map_get_cases [OF 2(2), of k]) force+
    then have ms1: "mset (entries m1) = add_mset (k, v) (mset (entries m))" using ms by simp
    have "distinct (map fst (entries m1 @ slot_entries ss))"
      using d keys uniq by (auto simp: map_uniq_def)
    then show ?thesis using m'(9) ms1 by simp
  qed
  have "mset (entries m') \<subseteq># mset (entries m) + mset (slot_entries (Item k v # ss))"
    by (rule subset_mset.trans [OF m'(7)]) (use sub in \<open>simp add: subset_mset.add_right_mono flip: add_mset_add_single union_mset_add_mset_left\<close>)
  then show ?case
    using m1 m' full keys len by (intro exI [of _ m']) auto
qed auto

text \<open>A full table has only items, so rehashing starts from all entries.\<close>

definition fresh_table :: "u32 \<Rightarrow> 'v hmap" where
  "fresh_table n = \<lparr>msize = n, mcount = 0, mdata = replicate (unat n) Null\<rparr>"

lemma fresh_table_ok:
  assumes "unat n < 2 ^ 31"
  shows "map_wf (fresh_table n)" "no_tombs (fresh_table n)" "map_uniq (fresh_table n)"
    "entries (fresh_table n) = []" "msize (fresh_table n) = n"
  using assms by (simp_all add: map_wf_def map_chain_def no_tombs_def map_uniq_def entries_def
      fresh_table_def)

lemma map_rehash_fails:
  "alloc al = (False, al') \<Longrightarrow> map_rehash put al m = Some (- 1, m, al')"
  by (simp add: map_rehash_def)

lemma map_rehash_ok:
  assumes wf: "map_wf m" and small: "unat (msize m) + 256 < 2 ^ 31"
    and al: "alloc al = (True, al')"
  obtains m' where "map_rehash (map_reput_fuel (Suc n)) al m = Some (0, m', al')"
    "map_wf m'" "no_tombs m'" "map_uniq m'" "mcount m' \<noteq> msize m'"
    "unat (msize m') = unat (msize m) + 256"
    "mset (entries m') \<subseteq># mset (entries m)" "fst ` set (entries m') = fst ` set (entries m)"
    "map_uniq m \<longrightarrow> mset (entries m') = mset (entries m)"
proof -
  let ?n = "msize m + 256"
  have n: "unat ?n = unat (msize m) + 256"
    using small by (subst unat_add_le) simp_all
  have small': "unat ?n < 2 ^ 31" using n small by simp
  note fresh = fresh_table_ok [OF small']
  have "length (slot_entries (mdata m)) \<le> unat (msize m)"
    using wf length_slot_entries_le [of "mdata m"] by (simp add: map_wf_def)
  then have "length (entries (fresh_table ?n)) + length (slot_entries (mdata m))
      < unat (msize (fresh_table ?n))"
    using n by (simp add: fresh)
  from map_rehash_loop_ok [OF fresh(1-3) this, of n al'] obtain m' where m':
    "map_rehash_loop (map_reput_fuel (Suc n)) (mdata m) (fresh_table ?n) al' = Some (0, m', al')"
    "map_wf m'" "no_tombs m'" "map_uniq m'" "msize m' = ?n"
    "length (entries m') \<le> length (entries m)"
    "mset (entries m') \<subseteq># mset (entries m)" "fst ` set (entries m') = fst ` set (entries m)"
    "map_uniq m \<longrightarrow> mset (entries m') = mset (entries m)"
    by (auto simp: fresh map_uniq_def simp flip: entries_def)
  have "unat (mcount m') \<le> unat (msize m)"
    using m'(2,6) \<open>length (slot_entries (mdata m)) \<le> unat (msize m)\<close>
    by (simp add: map_wf_def entries_def)
  then have "mcount m' \<noteq> msize m'" using m'(5) n by auto
  moreover have "map_rehash (map_reput_fuel (Suc n)) al m = Some (0, m', al')"
    using m'(1) al by (simp add: map_rehash_def fresh_table_def)
  ultimately show thesis using m' n by (intro that) simp_all
qed

section \<open>map_reput\<close>

text \<open>
  The full specification of \<open>map_reput\<close>: on a well-formed table (below the size bound) it
  always returns. Either the table was full and the allocation failed, and nothing changed;
  or it returned 0 and the insertion happened on the table \<open>m0\<close>, which is \<open>m\<close> itself or,
  if \<open>m\<close> was full, the rehashed \<open>m\<close>.
\<close>

lemma map_reput_spec:
  assumes wf: "map_wf m" and small: "unat (msize m) + 256 < 2 ^ 31"
  obtains (full_no_memory) al' where "map_reput al m key (Some v) = Some (- 1, None, m, al')"
      "mcount m = msize m" "alloc al = (False, al')"
  | (room) old m' where "map_reput al m key (Some v) = Some (0, old, m', al)"
      "put_effect m key v old m'" "msize m' = msize m" "mcount m \<noteq> msize m"
  | (grown) old m0 m' al' where "map_reput al m key (Some v) = Some (0, old, m', al')"
      "alloc al = (True, al')" "mcount m = msize m"
      "map_wf m0" "no_tombs m0" "map_uniq m0" "put_effect m0 key v old m'"
      "mset (entries m0) \<subseteq># mset (entries m)" "fst ` set (entries m0) = fst ` set (entries m)"
      "map_uniq m \<longrightarrow> mset (entries m0) = mset (entries m)"
      "unat (msize m') = unat (msize m) + 256"
proof (cases "mcount m = msize m")
  case False
  from map_reput_fuel_effect [OF wf False, of 1 al key v] obtain old m' where
    "map_reput_fuel (Suc 1) al m key (Some v) = Some (0, old, m', al)"
    "put_effect m key v old m'" "msize m' = msize m" by blast
  then show thesis using False by (intro room [of old m']) (simp_all add: map_reput_def numeral_2_eq_2)
next
  case True
  obtain b al' where al: "alloc al = (b, al')" by fastforce
  show thesis
  proof (cases b)
    case False
    then show thesis using True al
      by (intro full_no_memory [of al'])
        (simp_all add: map_reput_def numeral_2_eq_2 map_reput_fuel.simps map_hash_full map_rehash_fails)
  next
    case b: True
    from al b have al1: "alloc al = (True, al')" by simp
    obtain m0 where m0: "map_rehash (map_reput_fuel (Suc 0)) al m = Some (0, m0, al')"
      "map_wf m0" "no_tombs m0" "map_uniq m0" "mcount m0 \<noteq> msize m0"
      "unat (msize m0) = unat (msize m) + 256"
      "mset (entries m0) \<subseteq># mset (entries m)" "fst ` set (entries m0) = fst ` set (entries m)"
      "map_uniq m \<longrightarrow> mset (entries m0) = mset (entries m)"
      by (rule map_rehash_ok [OF wf small al1, where n = 0])
    obtain old m' where m': "map_reput_fuel (Suc 0) al' m0 key (Some v) = Some (0, old, m', al')"
      "put_effect m0 key v old m'" "msize m' = msize m0"
      by (rule map_reput_fuel_effect [OF m0(2,5), where n = 0])
    have "map_reput al m key (Some v) = Some (0, old, m', al')"
      using True m0(1) m'(1)
      by (simp add: map_reput_def numeral_2_eq_2 map_reput_fuel.simps(2) [where n = "Suc 0"] map_hash_full)
    then show thesis using al b True m0 m' by (intro grown [of old m' al' m0]) simp_all
  qed
qed

section \<open>The table provides the keyed-table interface\<close>

definition map_small :: "'v hmap \<Rightarrow> bool" where
  "map_small m \<longleftrightarrow> unat (msize m) + 256 < 2 ^ 31"

lemma map_get_total: "map_wf m \<Longrightarrow> \<exists>r. map_get m k = Some r"
  by (erule map_get_cases [of m k]) auto

lemma map_get_None_iff:
  assumes "map_wf m"
  shows "map_get m k = Some None \<longleftrightarrow> k \<notin> fst ` set (entries m)"
  by (cases rule: map_get_cases [OF assms, of k]) force+

lemma put_effect_replaced:
  assumes "put_effect m k v old m'"
  shows "mset (entries m') + (case old of None \<Rightarrow> {#} | Some u \<Rightarrow> {#(k, u)#}) =
    add_mset (k, v) (mset (entries m))"
  using assms by (simp add: put_effect_def old_mset_def)

lemma map_get_same_contents:
  assumes "map_wf m" "map_wf m0" "map_uniq m" "mset (entries m0) = mset (entries m)"
  shows "map_get m0 k = map_get m k"
proof -
  have u: "map_uniq m0" using assms(3,4) map_uniq_mset by blast
  have "set (entries m0) = set (entries m)" using assms(4) by (rule mset_eq_setD)
  then have "map_of (entries m0) = map_of (entries m)"
    using assms(3) u by (simp add: map_uniq_def map_of_inject_set)
  then show ?thesis using assms u by (simp add: map_get_abs map_abs_def)
qed

interpretation hm: growing_table map_get map_remove entries map_wf
  "\<lambda>al m k v. map_reput al m k (Some v)" map_small no_tombs
proof unfold_locales
  fix m :: "'v hmap" and k v
  assume wf: "map_wf m"
  show "\<exists>r. map_get m k = Some r" by (rule map_get_total [OF wf])
  show "map_get m k = Some None \<longleftrightarrow> k \<notin> fst ` set (entries m)" by (rule map_get_None_iff [OF wf])
  show "(k, v) \<in> set (entries m)" if "map_get m k = Some (Some v)"
    using that by (cases rule: map_get_cases [OF wf, of k]) auto
  show "map_remove m k = Some (1, m)" if "map_get m k = Some None"
    using that by (cases rule: map_remove_cases [OF wf, of k]) auto
  show "\<exists>m'. map_remove m k = Some (0, m') \<and> map_wf m' \<and>
      add_mset (k, v) (mset (entries m')) = mset (entries m)" if "map_get m k = Some (Some v)"
    using that by (cases rule: map_remove_cases [OF wf, of k]) auto
next
  fix m :: "'v hmap" and al k v
  assume wf: "map_wf m" and sm: "map_small m"
  then have small: "unat (msize m) + 256 < 2 ^ 31" by (simp add: map_small_def)
  show "\<exists>rc old m' a'. map_reput al m k (Some v) = Some (rc, old, m', a') \<and> map_wf m' \<and>
      (rc < 0 \<and> m' = m \<or>
       rc = 0 \<and> map_get m' k = Some (Some v) \<and>
       (\<exists>M. M \<subseteq># mset (entries m) \<and> fst ` set_mset M = fst ` set (entries m) \<and>
          (distinct (map fst (entries m)) \<longrightarrow> M = mset (entries m)) \<and>
          mset (entries m') + (case old of None \<Rightarrow> {#} | Some u \<Rightarrow> {#(k, u)#}) = add_mset (k, v) M) \<and>
       (no_tombs m \<longrightarrow> distinct (map fst (entries m)) \<longrightarrow> no_tombs m' \<and> map_get m k = Some old))"
  proof (cases rule: map_reput_spec [OF wf small, of al k v])
    case (1 al')
    then show ?thesis using wf by simp
  next
    case (2 old m')
    then show ?thesis
      using put_effect_replaced [OF 2(2)] by (auto simp: put_effect_def intro!: exI [of _ "mset (entries m)"])
  next
    case (3 old m0 m' al')
    have "no_tombs m' \<and> map_get m k = Some old" if "distinct (map fst (entries m))"
      using 3 that map_get_same_contents [OF wf 3(4)] by (simp add: put_effect_def map_uniq_def)
    then show ?thesis
      using 3 put_effect_replaced [OF 3(7)]
      by (auto simp: put_effect_def map_uniq_def intro!: exI [of _ "mset (entries m0)"])
  qed
qed

end
