(* ===== verification/Hashmap_Iter.thy ===== *)
theory Hashmap_Iter
  imports Hashmap_Spec
begin

text \<open>
  Iteration over the hash table: the iterator visits the items in slot order. A loop whose body
  leaves the table alone runs over the list of entries; a loop whose body may delete items has
  an invariant rule indexed by the slot the iterator has reached.
\<close>

section \<open>Iterators\<close>

lemma map_iter_loop_cases:
  assumes "i + n = length (mdata m)"
  shows "(map_iter_loop m i n = Some None \<and> slot_entries (drop i (mdata m)) = [] \<and>
      (\<forall>x. i \<le> x \<and> x < length (mdata m) \<longrightarrow> (\<forall>k v. mdata m ! x \<noteq> Item k v))) \<or>
    (\<exists>j k v. map_iter_loop m i n = Some (Some j) \<and> i \<le> j \<and> j < length (mdata m) \<and>
      mdata m ! j = Item k v \<and> (\<forall>x. i \<le> x \<and> x < j \<longrightarrow> (\<forall>k v. mdata m ! x \<noteq> Item k v)) \<and>
      slot_entries (drop i (mdata m)) = (k, v) # slot_entries (drop (Suc j) (mdata m)))"
  using assms
proof (induction n arbitrary: i)
  case 0
  then show ?case by auto
next
  case (Suc n)
  then have i: "i < length (mdata m)" by simp
  then have d: "drop i (mdata m) = mdata m ! i # drop (Suc i) (mdata m)"
    by (simp add: Cons_nth_drop_Suc)
  from Suc.IH [of "Suc i"] Suc.prems have IH: "(map_iter_loop m (Suc i) n = Some None \<and>
      slot_entries (drop (Suc i) (mdata m)) = [] \<and>
      (\<forall>x. Suc i \<le> x \<and> x < length (mdata m) \<longrightarrow> (\<forall>k v. mdata m ! x \<noteq> Item k v))) \<or>
    (\<exists>j k v. map_iter_loop m (Suc i) n = Some (Some j) \<and> Suc i \<le> j \<and> j < length (mdata m) \<and>
      mdata m ! j = Item k v \<and> (\<forall>x. Suc i \<le> x \<and> x < j \<longrightarrow> (\<forall>k v. mdata m ! x \<noteq> Item k v)) \<and>
      slot_entries (drop (Suc i) (mdata m)) = (k, v) # slot_entries (drop (Suc j) (mdata m)))"
    by simp
  have split: "i \<le> x \<longleftrightarrow> x = i \<or> Suc i \<le> x" for x by auto
  show ?case
  proof (cases "mdata m ! i")
    case (Item k v)
    then show ?thesis using i d by (auto intro!: exI [of _ i])
  next
    case Null
    with IH i d show ?thesis by (auto simp: split)
  next
    case Deleted
    with IH i d show ?thesis by (auto simp: split)
  qed
qed

lemma map_iter_from_cases:
  assumes "length (mdata m) = unat (msize m)" "i \<le> unat (msize m)"
  obtains (finished) "map_iter_from m i = Some None" "slot_entries (drop i (mdata m)) = []"
      "\<forall>x. i \<le> x \<and> x < length (mdata m) \<longrightarrow> (\<forall>k v. mdata m ! x \<noteq> Item k v)"
  | (item) j k v where "map_iter_from m i = Some (Some j)" "i \<le> j" "j < length (mdata m)"
      "mdata m ! j = Item k v" "\<forall>x. i \<le> x \<and> x < j \<longrightarrow> (\<forall>k v. mdata m ! x \<noteq> Item k v)"
      "slot_entries (drop i (mdata m)) = (k, v) # slot_entries (drop (Suc j) (mdata m))"
  using map_iter_loop_cases [of i "unat (msize m) - i" m] assms that
  unfolding map_iter_from_def by fastforce

section \<open>Loops that leave the table alone\<close>

fun each_item :: "('v \<Rightarrow> 's \<Rightarrow> ('r option \<times> 's) option) \<Rightarrow> 'v list \<Rightarrow> 's \<Rightarrow> ('r option \<times> 's) option" where
  "each_item body [] s = Some (None, s)"
| "each_item body (v # vs) s =
     (case body v s of
        None \<Rightarrow> None
      | Some (Some x, s') \<Rightarrow> Some (Some x, s')
      | Some (None, s') \<Rightarrow> each_item body vs s')"

lemma map_for_each_loop_const:
  assumes P: "\<And>s. P s \<Longrightarrow> getm s = Some m" and wf: "length (mdata m) = unat (msize m)"
    and step: "\<And>v s r s'. P s \<Longrightarrow> body v s = Some (r, s') \<Longrightarrow> P s'"
    and "P s" "i \<le> unat (msize m)" "unat (msize m) - i \<le> n"
  shows "(case map_iter_from m i of None \<Rightarrow> None | Some it \<Rightarrow> map_for_each_loop n getm body it s) =
    each_item body (map snd (slot_entries (drop i (mdata m)))) s"
  using assms(4-)
proof (induction n arbitrary: i s)
  case 0
  then show ?case by (cases rule: map_iter_from_cases [OF wf, of i]) (auto simp: wf)
next
  case (Suc n)
  show ?case
  proof (cases rule: map_iter_from_cases [OF wf Suc.prems(2)])
    case 1
    then show ?thesis by simp
  next
    case (2 j k v)
    have item: "map_iter_item m j = Some (Some v)" using 2 by (simp add: map_iter_item_def slot_old_def)
    show ?thesis
    proof (cases "body v s")
      case None
      then show ?thesis using 2 item P [OF Suc.prems(1)] by simp
    next
      case (Some rs)
      obtain r s' where rs: "rs = (r, s')" by (cases rs)
      have Ps: "P s'" using step [OF Suc.prems(1)] Some rs by simp
      have IH: "(case map_iter_from m (Suc j) of None \<Rightarrow> None
          | Some it \<Rightarrow> map_for_each_loop n getm body it s') =
        each_item body (map snd (slot_entries (drop (Suc j) (mdata m)))) s'"
        by (rule Suc.IH) (use Ps 2 Suc.prems wf in auto)
      show ?thesis
        using 2 item P [OF Suc.prems(1)] P [OF Ps] Some rs IH
        by (cases r; cases "map_iter_from m (Suc j)") (simp_all add: map_iter_next_def)
    qed
  qed
qed

lemma map_for_each_const:
  assumes "\<And>s. P s \<Longrightarrow> getm s = Some m" "map_wf m"
    and "\<And>v s r s'. P s \<Longrightarrow> body v s = Some (r, s') \<Longrightarrow> P s'" and "P s"
  shows "map_for_each getm body s = each_item body (map snd (entries m)) s"
proof -
  have wf: "length (mdata m) = unat (msize m)" using assms(2) by (simp add: map_wf_def)
  have "(case map_iter_from m 0 of None \<Rightarrow> None
      | Some it \<Rightarrow> map_for_each_loop (unat (msize m)) getm body it s) =
    each_item body (map snd (entries m)) s"
    unfolding entries_def
    by (rule map_for_each_loop_const [where P = P and i = 0, simplified drop0])
      (use assms wf in auto)
  then show ?thesis
    using assms(1) [OF assms(4)]
    by (cases "map_iter_from m 0") (simp_all add: map_for_each_def map_iter_first_def)
qed

section \<open>Loops that may delete\<close>

lemma map_for_each_rule:
  fixes N :: nat
  assumes getm: "\<And>i s. I i s \<Longrightarrow> \<exists>m. getm s = Some m \<and> length (mdata m) = N \<and> unat (msize m) = N"
    and step: "\<And>i j s m k v. I i s \<Longrightarrow> getm s = Some m \<Longrightarrow> i \<le> j \<Longrightarrow> j < N \<Longrightarrow>
      mdata m ! j = Item k v \<Longrightarrow> (\<forall>x. i \<le> x \<and> x < j \<longrightarrow> (\<forall>k v. mdata m ! x \<noteq> Item k v)) \<Longrightarrow>
      \<exists>s'. body v s = Some (None, s') \<and> I (Suc j) s'"
    and finish: "\<And>i s m. I i s \<Longrightarrow> getm s = Some m \<Longrightarrow>
      (\<forall>x. i \<le> x \<and> x < N \<longrightarrow> (\<forall>k v. mdata m ! x \<noteq> Item k v)) \<Longrightarrow> Q s"
    and init: "I 0 s"
  shows "\<exists>s'. map_for_each getm body s = Some (None, s') \<and> Q s'"
proof -
  have loop: "\<exists>it. map_iter_from m i = Some it \<and>
      (\<exists>s'. map_for_each_loop n getm body it s = Some (None, s') \<and> Q s')"
    if "I i s" "getm s = Some m" "i \<le> N" "N - i \<le> n" for i s m n
    using that
  proof (induction n arbitrary: i s m)
    case 0
    then have N: "length (mdata m) = unat (msize m)" "i \<le> unat (msize m)" "unat (msize m) = N"
      using getm [of i s] by auto
    show ?case
      by (cases rule: map_iter_from_cases [OF N(1,2)]) (use 0 N finish [of i s m] in auto)
  next
    case (Suc n)
    then have N: "length (mdata m) = unat (msize m)" "i \<le> unat (msize m)" "unat (msize m) = N"
      using getm [of i s] by auto
    show ?case
    proof (cases rule: map_iter_from_cases [OF N(1,2)])
      case 1
      then show ?thesis using Suc.prems N finish [of i s m] by simp
    next
      case (2 j k v)
      then have "j < N" using N by simp
      from step [OF Suc.prems(1,2) 2(2) this 2(4,5)] obtain s' where
        s': "body v s = Some (None, s')" "I (Suc j) s'" by blast
      obtain m' where m': "getm s' = Some m'" using getm [OF s'(2)] by blast
      have "\<exists>it. map_iter_from m' (Suc j) = Some it \<and>
          (\<exists>s''. map_for_each_loop n getm body it s' = Some (None, s'') \<and> Q s'')"
        by (rule Suc.IH [OF s'(2) m']) (use \<open>j < N\<close> 2 Suc.prems in auto)
      moreover have "map_iter_item m j = Some (Some v)"
        using 2 by (simp add: map_iter_item_def slot_old_def)
      ultimately show ?thesis
        using 2(1) Suc.prems(2) s' m' by (auto simp: map_iter_next_def)
    qed
  qed
  obtain m where m: "getm s = Some m" "unat (msize m) = N" using getm [OF init] by blast
  from loop [OF init m(1), of N] m show ?thesis
    by (auto simp: map_for_each_def map_iter_first_def)
qed

section \<open>Clearing\<close>

fun release_all :: "('v \<Rightarrow> 's \<Rightarrow> 's option) \<Rightarrow> 'v list \<Rightarrow> 's \<Rightarrow> 's option" where
  "release_all rel [] s = Some s"
| "release_all rel (v # vs) s = (case rel v s of None \<Rightarrow> None | Some s' \<Rightarrow> release_all rel vs s')"

lemma map_clear_loop_spec:
  assumes "i + n = length (mdata m)" "\<forall>x < i. mdata m ! x = Null"
  shows "map_clear_loop rel m i n s =
    map_option (\<lambda>s'. (m\<lparr>mdata := replicate (length (mdata m)) Null\<rparr>, s'))
      (release_all rel (map snd (slot_entries (drop i (mdata m)))) s)"
  using assms
proof (induction n arbitrary: i m s)
  case 0
  then have "mdata m = replicate (length (mdata m)) Null" by (intro nth_equalityI) auto
  then have "m\<lparr>mdata := replicate (length (mdata m)) Null\<rparr> = m" by simp
  with 0 show ?case by simp
next
  case (Suc n)
  then have i: "i < length (mdata m)" by simp
  then have d: "drop i (mdata m) = mdata m ! i # drop (Suc i) (mdata m)"
    by (simp add: Cons_nth_drop_Suc)
  let ?m = "m\<lparr>mdata := (mdata m)[i := Null]\<rparr>"
  have IH: "map_clear_loop rel ?m (Suc i) n s' =
    map_option (\<lambda>s''. (?m\<lparr>mdata := replicate (length (mdata ?m)) Null\<rparr>, s''))
      (release_all rel (map snd (slot_entries (drop (Suc i) (mdata ?m)))) s')" for s'
    by (rule Suc.IH) (use Suc.prems i in \<open>auto simp: less_Suc_eq\<close>)
  show ?case
  proof (cases "mdata m ! i")
    case Null
    then have "?m = m" using i by (metis list_update_id hmap.surjective hmap.update_convs(3))
    with IH [of s] Null i d show ?thesis by simp
  next
    case Deleted
    with IH [of s] i d show ?thesis by simp
  next
    case (Item k v)
    with IH i d show ?thesis by (cases "rel v s") simp_all
  qed
qed

lemma map_clear_spec:
  assumes "map_wf m"
  shows "map_clear rel m s =
    map_option (\<lambda>s'. (m\<lparr>mdata := replicate (unat (msize m)) Null, mcount := 0\<rparr>, s'))
      (release_all rel (map snd (entries m)) s)"
  using map_clear_loop_spec [of 0 "unat (msize m)" m rel s] assms
  by (simp add: map_clear_def map_wf_def entries_def option.map_comp comp_def)

end
