(* ===== verification/Hashmap_Marks.thy ===== *)
theory Hashmap_Marks
  imports Hashmap_Spec
begin

text \<open>
  Insertion of a key that the table already holds, with deletion marks around: when the insertion
  probe reaches the stored item, and what becomes of the table when it does not.
\<close>

text \<open>
  A deletion mark comes before every item of the key in its probe sequence. This is when
  \<open>map_hash\<close> does not get to the item.
\<close>

definition behind_mark :: "'v hmap \<Rightarrow> u32 \<Rightarrow> bool" where
  "behind_mark m key \<longleftrightarrow> (\<exists>j < unat (msize m). mdata m ! probe m key j = Deleted \<and>
     (\<forall>i < j. case mdata m ! probe m key i of Item k v \<Rightarrow> k \<noteq> key | _ \<Rightarrow> True))"

lemma insertion_slot:
  assumes wf: "map_wf m" and st: "map_get m key = Some (Some u)"
    and j: "j < unat (msize m)" "hstop m key j" "\<forall>j' < j. \<not> hstop m key j'"
  shows "mdata m ! probe m key j = (if behind_mark m key then Deleted else Item key (the (slot_old (mdata m ! probe m key j))))"
proof -
  obtain i w where i: "i < length (mdata m)" "mdata m ! i = Item key w"
  proof -
    have "Item key u \<in> set (mdata m)"
      using st by (cases rule: map_get_cases [OF wf, of key]) (simp_all add: entries_def)
    then show thesis using that by (metis in_set_conv_nth)
  qed
  then obtain k where k: "k < unat (msize m)" "i = probe m key k" "\<forall>j' < k. mdata m ! probe m key j' \<noteq> Null"
    using map_wf_chainD [OF wf] by blast
  have "hstop m key k" using i(2) k(2) by (simp add: hstop_def)
  then have "j \<le> k" using j(3) by (meson not_less)
  then have null: "mdata m ! probe m key j \<noteq> Null" using k i(2) by (cases "j = k") auto
  have before: "mdata m ! probe m key j' \<noteq> Deleted \<and> mdata m ! probe m key j' \<noteq> Item key x" if "j' < j" for j' x
    using j(3) that by (force simp: hstop_def)
  show ?thesis
  proof (cases "mdata m ! probe m key j")
    case Null
    with null show ?thesis by simp
  next
    case Deleted
    then have "behind_mark m key" unfolding behind_mark_def using j(1) before
      by (intro exI [of _ j]) (auto split: slot.splits)
    with Deleted show ?thesis by simp
  next
    case (Item k' x)
    with j(2) have x: "k' = key" by (simp add: hstop_def)
    have "\<not> behind_mark m key"
    proof
      assume "behind_mark m key"
      then obtain j1 where j1: "mdata m ! probe m key j1 = Deleted"
        "\<forall>i < j1. case mdata m ! probe m key i of Item k v \<Rightarrow> k \<noteq> key | _ \<Rightarrow> True"
        by (auto simp: behind_mark_def)
      then have "\<not> j1 < j" using before by blast
      moreover have "j \<noteq> j1" using j1(1) Item by auto
      ultimately show False using j1(2) Item x by (auto dest!: spec [of _ j])
    qed
    with Item x show ?thesis by (simp add: slot_old_def)
  qed
qed

lemma full_not_behind:
  assumes "map_wf m" "mcount m = msize m"
  shows "no_tombs m" "\<not> behind_mark m key"
proof -
  have len: "length (slot_entries (mdata m)) = length (mdata m)" using assms by (simp add: map_wf_def entries_def)
  show n: "no_tombs m" using slot_entries_full_no_tombs [OF len] by (force simp: no_tombs_def)
  have "mdata m ! probe m key j \<noteq> Deleted" if "j < unat (msize m)" for j
  proof -
    have "probe m key j < length (mdata m)" using assms(1) that by (simp add: map_wf_def)
    then show ?thesis using n nth_mem by (metis no_tombs_def)
  qed
  then show "\<not> behind_mark m key" by (auto simp: behind_mark_def)
qed

lemma reput_in_place:
  assumes wf: "map_wf m" and u: "map_uniq m" and sm: "map_small m" and al: "alloc_all al"
    and st: "map_get m key = Some (Some u)" and nb: "\<not> behind_mark m key"
  shows "\<exists>m' al'. map_reput al m key (Some v) = Some (0, Some u, m', al') \<and> map_wf m' \<and> map_uniq m' \<and>
    map_abs m' = (map_abs m)(key \<mapsto> v)"
proof -
  have abs: "map_abs m key = Some u" using map_get_abs [OF wf u, of key] st by simp
  show ?thesis
  proof (cases "mcount m = msize m")
    case True
    obtain old m' al' where put: "map_reput al m key (Some v) = Some (0, old, m', al')"
    proof (cases rule: map_reput_spec [OF wf sm [unfolded map_small_def], of al key v])
      case (1 al')
      with alloc_all_alloc [OF al 1(3)] show thesis by simp
    qed (rule that)+
    note facts = hm.put_map_of [OF wf u [unfolded map_uniq_def] put sm disjI2 [OF full_not_behind(1) [OF wf True]]]
    from facts put abs show ?thesis by (auto simp: map_uniq_def map_abs_def)
  next
    case False
    show ?thesis
    proof (cases rule: map_reput_fuel_room [OF wf False, of key 1 al v])
      case (1 j)
      let ?m' = "map_write m (probe m key j) key v"
      obtain w where w: "mdata m ! probe m key j = Item key w"
        using insertion_slot [OF wf st 1(1-3)] nb by auto
      have "probe m key j < length (mdata m)" using wf 1(1) by (simp add: map_wf_def)
      then have "Item key w \<in> set (mdata m)" using w nth_mem by metis
      then have "map_abs m key = Some w" using u by (simp add: map_abs_def map_uniq_def entries_def)
      then have w: "mdata m ! probe m key j = Item key u" using w abs by simp
      have "map_get ?m' key = Some (Some v)" by (rule map_write_get [OF wf 1(1-3) False])
      with map_write_wf [OF wf 1(1-3) False] have kv: "(key, v) \<in> set (entries ?m')"
        by (cases rule: map_get_cases [of ?m' key]) auto
      from map_of_replaced [OF map_write_entries [OF wf 1(1,2)] u [unfolded map_uniq_def] _ kv]
      have "map_uniq ?m' \<and> map_abs ?m' = (map_abs m)(key \<mapsto> v)"
        using abs w by (simp add: map_uniq_def map_abs_def slot_old_def)
      then show ?thesis using 1(4) w map_write_wf [OF wf 1(1-3) False, of v]
        by (simp add: map_reput_def numeral_2_eq_2 slot_old_def)
    qed
  qed
qed

lemma added_twice:
  assumes eq: "mset (entries m') = add_mset (key, v) (mset (entries m))" and st: "map_get m key = Some (Some u)"
    and wf: "map_wf m"
  shows "\<not> map_uniq m'"
proof
  assume "map_uniq m'"
  moreover have "mset (map fst (entries m')) = mset (key # map fst (entries m))"
    using arg_cong [OF eq, of "image_mset fst"] by simp
  ultimately have "distinct (key # map fst (entries m))"
    unfolding map_uniq_def using mset_eq_imp_distinct_iff by blast
  moreover have "key \<in> fst ` set (entries m)"
    using st by (cases rule: map_get_cases [OF wf, of key]) force+
  ultimately show False by simp
qed

lemma reput_behind_mark:
  assumes wf: "map_wf m" and u: "map_uniq m" and st: "map_get m key = Some (Some u)" and b: "behind_mark m key"
  shows "\<exists>m' m''. map_reput al m key (Some v) = Some (0, None, m', al) \<and> map_wf m' \<and>
    mset (entries m') = add_mset (key, v) (mset (entries m)) \<and> map_get m' key = Some (Some v) \<and>
    map_remove m' key = Some (0, m'') \<and> map_wf m'' \<and> map_abs m'' = map_abs m \<and> map_uniq m''"
proof -
  have room: "mcount m \<noteq> msize m" using full_not_behind(2) [OF wf] b by blast
  show ?thesis
  proof (cases rule: map_reput_fuel_room [OF wf room, of key 1 al v])
    case (1 j)
    let ?m' = "map_write m (probe m key j) key v"
    have d: "slot_old (mdata m ! probe m key j) = None"
      using insertion_slot [OF wf st 1(1-3)] b by (simp add: slot_old_def)
    have wf': "map_wf ?m'" and get': "map_get ?m' key = Some (Some v)"
      by (rule map_write_wf [OF wf 1(1-3) room], rule map_write_get [OF wf 1(1-3) room])
    have ms: "mset (entries ?m') = add_mset (key, v) (mset (entries m))"
      using map_write_entries [OF wf 1(1,2), of v] d by simp
    obtain m'' where m'': "map_remove ?m' key = Some (0, m'')" "map_wf m''"
      "add_mset (key, v) (mset (entries m'')) = mset (entries ?m')"
      using get' by (cases rule: map_remove_cases [OF wf', of key]) auto
    have eq: "mset (entries m'') = mset (entries m)" using m''(3) ms by simp
    then have u'': "map_uniq m''" using u map_uniq_mset by blast
    then have "map_abs m'' = map_abs m"
      using map_get_same_contents [OF wf m''(2) u eq] map_get_abs [OF wf u] map_get_abs [OF m''(2)]
      by (intro ext) (metis option.inject)
    then show ?thesis using 1(4) d ms wf' get' m'' u'' by (simp add: map_reput_def numeral_2_eq_2)
  qed
qed

end
