(* ===== verification/Hashmap_Props.thy ===== *)
theory Hashmap_Props
  imports Hashmap_Iter Hashmap_Marks
begin

text \<open>
  The properties of the hash functions and of the hash table that the development claims,
  stated over the operations of \<open>src/hash.c\<close> and \<open>src/map.c\<close>.
\<close>

definition empty_map :: "'v hmap" where
  "empty_map = \<lparr>msize = 0, mcount = 0, mdata = []\<rparr>"

lemma empty_map_ok [simp]:
  "map_wf empty_map" "map_uniq empty_map" "map_small empty_map" "no_tombs empty_map"
  "entries empty_map = []"
  by (simp_all add: empty_map_def map_wf_def map_chain_def map_uniq_def map_small_def
      no_tombs_def entries_def)

lemma empty_map_abs [simp]: "map_abs empty_map = Map.empty"
  by (simp add: map_abs_def)

text \<open>
  A table of 256 slots in which keys 5 and 261 have been stored and 5 has been removed: both have
  home slot 5, so key 261 is in slot 6, behind the mark that key 5 has left.
\<close>

definition marked_map :: "nat hmap" where
  "marked_map = \<lparr>msize = 256, mcount = 1, mdata = (replicate 256 Null)[5 := Deleted, 6 := Item 261 60]\<rparr>"

lemma marked_map_entries: "entries marked_map = [(261, 60)]"
  by code_simp

lemma marked_map_run:
  "do { (_, m, al) \<leftarrow> map_put [] empty_map 5 (Some 50);
        (_, m, al) \<leftarrow> map_put al m 261 (Some 60);
        map_remove m 5 } = Some (0, marked_map)"
  by code_simp

lemma marked_map_ok: "map_wf marked_map" "map_uniq marked_map" "map_small marked_map"
  "map_abs marked_map 261 = Some 60" "behind_mark marked_map 261"
proof -
  have p: "probe marked_map 261 0 = 5" "probe marked_map 261 1 = 6" by (simp_all add: probe_def home_def marked_map_def)
  have "map_chain marked_map" unfolding map_chain_def
  proof (intro allI impI)
    fix i k v
    assume "i < length (mdata marked_map)" "mdata marked_map ! i = Item k v"
    then have "i = 6" "k = 261" by (auto simp: marked_map_def nth_list_update split: if_splits)
    then show "\<exists>j < unat (msize marked_map). i = probe marked_map k j \<and>
        (\<forall>j' < j. mdata marked_map ! probe marked_map k j' \<noteq> Null)"
      using p by (intro exI [of _ 1]) (simp add: marked_map_def)
  qed
  then show "map_wf marked_map" unfolding map_wf_def marked_map_entries by (simp add: marked_map_def)
  show "map_uniq marked_map" "map_abs marked_map 261 = Some 60"
    by (simp_all add: map_uniq_def map_abs_def marked_map_entries)
  show "map_small marked_map" by (simp add: map_small_def marked_map_def)
  have "0 < unat (msize marked_map)" by (simp add: marked_map_def)
  then show "behind_mark marked_map 261"
    unfolding behind_mark_def using p(1) by (intro exI [of _ 0]) (simp add: marked_map_def)
qed

section \<open>Hash functions\<close>

text \<open>\<open>hash_u32\<close>, computed in 64 bits and truncated, is a bijection on 32-bit words,
  so two different node ids or ports never share a map key.\<close>
lemma hash_u32_bijective: "bij hash_u32"
  by (rule hash_u32_bij)

text \<open>\<open>hash_mem\<close> over a buffer that holds at least \<open>len\<close> bytes is defined and is the
  fold that rotates the hash left by five bits and xors the next byte, starting from \<open>len\<close>.\<close>

lemma hash_mem_rotate_xor:
  assumes "unat len \<le> length data"
  shows "hash_mem data len =
    Some (foldl (\<lambda>h b. xor (word_rotl 5 h) (ucast b)) len (take (unat len) data))"
  using assms by (simp add: hash_mem_def hash_mem_loop_foldl)

section \<open>The hash table\<close>

text \<open>Claim C32: on a well-formed table with different keys, \<open>map_reput\<close> with a non-null item
  returns 0 whenever memory is available, and the new table represents the old map with the key
  updated; the replaced item is the one the key had. The key must be new or the table free of
  deletion marks.\<close>
theorem map_reput_updates:
  assumes "map_wf m" "map_uniq m" "map_small m" "alloc_all al"
    and "map_abs m key = None \<or> no_tombs m"
  shows "\<exists>m' al'. map_reput al m key (Some v) = Some (0, map_abs m key, m', al') \<and>
    map_wf m' \<and> map_uniq m' \<and> map_abs m' = (map_abs m)(key \<mapsto> v) \<and> (no_tombs m \<longrightarrow> no_tombs m')"
proof -
  obtain old m' al' where put: "map_reput al m key (Some v) = Some (0, old, m', al')"
  proof (cases rule: map_reput_spec [OF assms(1) assms(3) [unfolded map_small_def], of al key v])
    case (1 al')
    with alloc_all_alloc [OF assms(4) 1(3)] show thesis by simp
  qed (rule that)+
  have new: "key \<notin> fst ` set (entries m) \<or> no_tombs m"
    using assms(5) by (simp add: map_abs_def map_of_eq_None_iff)
  note facts = hm.put_map_of [OF assms(1) assms(2) [unfolded map_uniq_def] put assms(3) new]
  from facts put show ?thesis by (auto simp: map_uniq_def map_abs_def)
qed

theorem map_reput_updates_witness:
  "\<exists>m' al'. map_reput [] (empty_map :: nat hmap) 5 (Some 50) =
      Some (0, map_abs (empty_map :: nat hmap) 5, m', al') \<and>
    map_wf m' \<and> map_uniq m' \<and> map_abs m' = (map_abs empty_map)(5 \<mapsto> 50) \<and>
    (no_tombs (empty_map :: nat hmap) \<longrightarrow> no_tombs m')"
  by (rule map_reput_updates) simp_all

text \<open>Claim C33: on a well-formed table below the size bound \<open>map_reput\<close> always returns: it never
  runs out of fuel, never indexes outside the table and never divides by zero. The only failure is
  \<open>-1\<close>, for a full table whose allocation failed, and then the table is unchanged; after success
  the key yields the new item, even if it was stored twice before.\<close>
theorem map_reput_total:
  assumes "map_wf m" "map_small m"
  shows "\<exists>rc old m' al'. map_reput al m key (Some v) = Some (rc, old, m', al') \<and> map_wf m' \<and>
    (rc = - 1 \<and> m' = m \<and> mcount m = msize m \<and> \<not> fst (alloc al) \<or>
     rc = 0 \<and> map_get m' key = Some (Some v))"
proof (cases rule: map_reput_spec [OF assms(1) assms(2) [unfolded map_small_def], of al key v])
  case (1 al')
  then show ?thesis using assms by simp
next
  case (2 old m')
  then show ?thesis by (simp add: put_effect_def)
next
  case (3 old m0 m' al')
  then show ?thesis by (simp add: put_effect_def)
qed

theorem map_reput_total_witness:
  "\<exists>rc old m' al'. map_reput [False] (empty_map :: nat hmap) 5 (Some 50) = Some (rc, old, m', al') \<and>
    map_wf m' \<and>
    (rc = - 1 \<and> m' = empty_map \<and> mcount (empty_map :: nat hmap) = msize (empty_map :: nat hmap) \<and>
       \<not> fst (alloc [False]) \<or>
     rc = 0 \<and> map_get m' 5 = Some (Some 50))"
  by (rule map_reput_total) simp_all

text \<open>Claim C34: \<open>map_get\<close> and \<open>map_contains\<close> compute the represented map: they find a key
  exactly if it is stored, wherever its probe sequence has led.\<close>
theorem map_get_refines:
  assumes "map_wf m" "map_uniq m"
  shows "map_get m key = Some (map_abs m key) \<and>
    map_contains m key = Some (if map_abs m key = None then 0 else 1)"
  using map_get_abs [OF assms] map_contains_spec [OF assms(1)]
  by (simp add: map_abs_def map_of_eq_None_iff)

theorem map_get_refines_witness:
  "map_get marked_map 261 = Some (Some 60) \<and> map_contains marked_map 261 = Some 1"
  using map_get_refines [OF marked_map_ok(1,2), of 261] marked_map_ok(4) by simp

text \<open>Claim C35: \<open>map_remove\<close> deletes the key from the represented map, keeps the table
  well-formed with different keys, and returns 0 if the key was stored and 1 otherwise.\<close>
theorem map_remove_deletes:
  assumes "map_wf m" "map_uniq m"
  shows "\<exists>m'. map_remove m key = Some (if map_abs m key = None then 1 else 0, m') \<and>
    map_wf m' \<and> map_uniq m' \<and> map_abs m' = (map_abs m)(key := None)"
proof -
  obtain rc m' where rm: "map_remove m key = Some (rc, m')"
    using hm.remove_total [OF assms(1)] by blast
  from hm.remove_map_of [OF assms(1) assms(2) [unfolded map_uniq_def] rm] rm
  show ?thesis by (simp add: map_uniq_def map_abs_def map_of_eq_None_iff)
qed

theorem map_remove_deletes_witness:
  "\<exists>m'. map_remove marked_map 261 = Some (0, m') \<and> map_wf m' \<and> map_uniq m' \<and> map_abs m' = Map.empty"
  using map_remove_deletes [OF marked_map_ok(1,2), of 261]
  by (simp add: map_abs_def [of marked_map] marked_map_entries)

text \<open>Claim C36: What \<open>map_reput\<close> does to a key that a table with different keys already holds: if the
  probe sequence has no deletion mark before the item, it replaces the item, returns the old one, and
  the table represents the updated map; if it has one, it reports that there was no old item, stores the
  key a second time in the place of the mark, and after the next \<open>map_remove\<close> of the key, which returns
  success, the old item is found again.\<close>
theorem map_reput_stored_key:
  assumes "map_wf m" "map_uniq m" "map_small m" "alloc_all al" "map_abs m key = Some u"
  shows "\<exists>old m' al'. map_reput al m key (Some v) = Some (0, old, m', al') \<and> map_wf m' \<and>
    (if behind_mark m key
     then old = None \<and> \<not> map_uniq m' \<and> map_get m' key = Some (Some v) \<and>
       (\<exists>m''. map_remove m' key = Some (0, m'') \<and> map_get m'' key = Some (Some u))
     else old = Some u \<and> map_uniq m' \<and> map_abs m' = (map_abs m)(key \<mapsto> v))"
proof -
  have st: "map_get m key = Some (Some u)" using map_get_abs [OF assms(1,2)] assms(5) by simp
  show ?thesis
  proof (cases "behind_mark m key")
    case True
    obtain m' m'' where m: "map_reput al m key (Some v) = Some (0, None, m', al)" "map_wf m'"
      "mset (entries m') = add_mset (key, v) (mset (entries m))" "map_get m' key = Some (Some v)"
      "map_remove m' key = Some (0, m'')" "map_wf m''" "map_abs m'' = map_abs m" "map_uniq m''"
      using reput_behind_mark [OF assms(1,2) st True, of al v] by blast
    have "\<not> map_uniq m'" by (rule added_twice [OF m(3) st assms(1)])
    then show ?thesis using True m map_get_abs [OF m(6,8), of key] assms(5) by auto
  qed (use reput_in_place [OF assms(1-4) st] in auto)
qed

theorem map_reput_stored_key_witness:
  "\<exists>m' al'. map_reput [] marked_map 261 (Some 70) = Some (0, None, m', al') \<and>
    map_get m' 261 = Some (Some 70) \<and> (\<exists>m''. map_remove m' 261 = Some (0, m'') \<and> map_get m'' 261 = Some (Some 60))"
  using map_reput_stored_key [OF marked_map_ok(1-3), of "[]" 261 60 70] marked_map_ok(4,5) by auto

text \<open>Rehashing a table with different keys into a table 256 slots larger keeps the
  represented map, leaves no deletion marks and leaves room; it returns 0 with fuel 1 inside.\<close>
lemma map_rehash_preserves:
  assumes "map_wf m" "map_uniq m" "map_small m" "alloc_all al"
  shows "\<exists>m' al'. map_rehash (map_reput_fuel 1) al m = Some (0, m', al') \<and> map_wf m' \<and>
    map_uniq m' \<and> no_tombs m' \<and> map_abs m' = map_abs m \<and> mcount m' \<noteq> msize m' \<and>
    unat (msize m') = unat (msize m) + 256"
proof -
  obtain b al' where al: "alloc al = (b, al')" by fastforce
  with alloc_all_alloc [OF assms(4)] have al1: "alloc al = (True, al')" by auto
  have small: "unat (msize m) + 256 < 2 ^ 31" using assms(3) by (simp add: map_small_def)
  show ?thesis
  proof (cases rule: map_rehash_ok [OF assms(1) small al1, where n = 0])
    case (1 m')
    then have "mset (entries m') = mset (entries m)" using assms(2) by blast
    then have "set (entries m') = set (entries m)" by (rule mset_eq_setD)
    then have "map_abs m' = map_abs m"
      using 1 assms(2) by (simp add: map_abs_def map_uniq_def map_of_inject_set)
    with 1 show ?thesis by simp
  qed
qed

text \<open>\<open>map_for_each\<close> visits every item exactly once, in slot order: collecting the
  visited items yields the item list of the table.\<close>
lemma map_for_each_visits:
  assumes "map_wf m"
  shows "map_for_each (\<lambda>acc. Some m) (\<lambda>v acc. Some (None :: unit option, acc @ [v])) [] =
    Some (None, map snd (entries m))"
proof -
  have "each_item (\<lambda>v acc. Some (None :: unit option, acc @ [v])) vs a = Some (None, a @ vs)"
    for vs and a :: "'a list"
    by (induction vs arbitrary: a) auto
  then show ?thesis
    by (subst map_for_each_const [where P = "\<lambda>_. True" and m = m]) (use assms in auto)
qed

end
