(* ===== verification/Item_Sequence.thy ===== *)
theory Item_Sequence
  imports Qrtr_Prelude
begin

text \<open>
  The interface of an intrusive list as its clients use it: appending an allocated item that is
  not in the list, and removing an item that is. The lemmas say what a run of such operations
  does to the represented sequence.
\<close>

locale item_sequence =
  fixes append :: "'a \<Rightarrow> 's \<Rightarrow> 's option"
    and remove :: "'a \<Rightarrow> 's \<Rightarrow> 's option"
    and repr :: "'s \<Rightarrow> 'a list \<Rightarrow> bool"
    and avail :: "'s \<Rightarrow> 'a set"
  assumes append_repr: "repr s xs \<Longrightarrow> a \<in> avail s \<Longrightarrow> a \<notin> set xs \<Longrightarrow>
      \<exists>s'. append a s = Some s' \<and> repr s' (xs @ [a]) \<and> avail s' = avail s"
    and remove_repr: "repr s xs \<Longrightarrow> a \<in> set xs \<Longrightarrow>
      \<exists>s'. remove a s = Some s' \<and> repr s' (remove1 a xs) \<and> avail s' = avail s"
    and repr_distinct: "repr s xs \<Longrightarrow> distinct xs"
begin

fun append_all :: "'a list \<Rightarrow> 's \<Rightarrow> 's option" where
  "append_all [] s = Some s"
| "append_all (a # as) s = do { s' \<leftarrow> append a s; append_all as s' }"

fun remove_all :: "'a list \<Rightarrow> 's \<Rightarrow> 's option" where
  "remove_all [] s = Some s"
| "remove_all (a # as) s = do { s' \<leftarrow> remove a s; remove_all as s' }"

lemma append_all_repr:
  "repr s xs \<Longrightarrow> set as \<subseteq> avail s \<Longrightarrow> distinct as \<Longrightarrow> set as \<inter> set xs = {} \<Longrightarrow>
    \<exists>s'. append_all as s = Some s' \<and> repr s' (xs @ as) \<and> avail s' = avail s"
proof (induction as arbitrary: s xs)
  case (Cons a as)
  from append_repr [OF Cons.prems(1), of a] Cons.prems obtain s' where
    s': "append a s = Some s'" "repr s' (xs @ [a])" "avail s' = avail s" by auto
  from Cons.IH [OF s'(2)] Cons.prems s' show ?case by auto
qed simp

text \<open>Removing the items of a list that satisfy a predicate leaves the filtered list.\<close>

lemma remove_filter_repr:
  "repr s xs \<Longrightarrow>
    \<exists>s'. remove_all (filter P xs) s = Some s' \<and> repr s' (filter (\<lambda>a. \<not> P a) xs) \<and> avail s' = avail s"
proof -
  have gen: "\<exists>s'. remove_all (filter P xs) s = Some s' \<and> repr s' (ks @ filter (\<lambda>a. \<not> P a) xs) \<and>
      avail s' = avail s" if "repr s (ks @ xs)" for ks s
    using that
  proof (induction xs arbitrary: ks s)
    case (Cons x xs)
    show ?case
    proof (cases "P x")
      case True
      have "x \<notin> set ks" using repr_distinct [OF Cons.prems] by simp
      then have rm: "remove1 x (ks @ x # xs) = ks @ xs" by (simp add: remove1_append)
      from remove_repr [OF Cons.prems, of x] obtain s' where
        s': "remove x s = Some s'" "repr s' (ks @ xs)" "avail s' = avail s" using rm by auto
      from Cons.IH [OF s'(2)] s' True show ?thesis by auto
    next
      case False
      with Cons.IH [of s "ks @ [x]"] Cons.prems show ?thesis by simp
    qed
  qed simp
  show "repr s xs \<Longrightarrow> ?thesis" using gen [of s "[]"] by simp
qed

end

end
