(* ===== verification/Linked_List.thy ===== *)
theory Linked_List
  imports Item_Sequence
begin

text \<open>
  The intrusive doubly linked list of \<open>src/list.h\<close> over an explicit store: a store maps the
  address of a \<open>struct list_item\<close> to its two pointers; \<open>None\<close> as a pointer is the null pointer,
  and reading or writing through it or through an address that is not in the store is undefined
  (the operation is \<open>None\<close>).
\<close>

section \<open>State\<close>

record list_item =
  li_next :: "ptr option"
  li_prev :: "ptr option"

record llist =
  lhead :: "ptr option"
  ltail :: "ptr option"

type_synonym lstate = "(ptr \<Rightarrow> list_item option) \<times> llist"

text \<open>Field access through a pointer that may be null.\<close>

definition get_next :: "(ptr \<Rightarrow> list_item option) \<Rightarrow> ptr option \<Rightarrow> ptr option option" where
  "get_next h p = do { a \<leftarrow> p; n \<leftarrow> h a; Some (li_next n) }"

definition get_prev :: "(ptr \<Rightarrow> list_item option) \<Rightarrow> ptr option \<Rightarrow> ptr option option" where
  "get_prev h p = do { a \<leftarrow> p; n \<leftarrow> h a; Some (li_prev n) }"

definition set_next :: "(ptr \<Rightarrow> list_item option) \<Rightarrow> ptr option \<Rightarrow> ptr option \<Rightarrow> (ptr \<Rightarrow> list_item option) option" where
  "set_next h p v = do { a \<leftarrow> p; n \<leftarrow> h a; Some (h(a \<mapsto> n\<lparr>li_next := v\<rparr>)) }"

definition set_prev :: "(ptr \<Rightarrow> list_item option) \<Rightarrow> ptr option \<Rightarrow> ptr option \<Rightarrow> (ptr \<Rightarrow> list_item option) option" where
  "set_prev h p v = do { a \<leftarrow> p; n \<leftarrow> h a; Some (h(a \<mapsto> n\<lparr>li_prev := v\<rparr>)) }"

section \<open>Operations\<close>

definition list_init :: "llist \<Rightarrow> llist" where
  "list_init l = l\<lparr>lhead := None, ltail := None\<rparr>"

text \<open>The initialiser \<open>LIST_INIT\<close> of a list that is not on the heap.\<close>

definition LIST_INIT :: llist where
  "LIST_INIT = \<lparr>lhead = None, ltail = None\<rparr>"

definition list_append :: "ptr \<Rightarrow> lstate \<Rightarrow> lstate option" where
  "list_append item s = (case s of (h, l) \<Rightarrow> do {
     h \<leftarrow> set_next h (Some item) None;
     h \<leftarrow> set_prev h (Some item) (ltail l);
     (h, l) \<leftarrow> (if ltail l \<noteq> None
        then do { h \<leftarrow> set_next h (ltail l) (Some item); Some (h, l) }
        else Some (h, l\<lparr>lhead := Some item\<rparr>));
     Some (h, l\<lparr>ltail := Some item\<rparr>) })"

definition list_prepend :: "ptr \<Rightarrow> lstate \<Rightarrow> lstate option" where
  "list_prepend item s = (case s of (h, l) \<Rightarrow> do {
     h \<leftarrow> set_prev h (Some item) None;
     h \<leftarrow> set_next h (Some item) (lhead l);
     let l = (if lhead l = None then l\<lparr>ltail := Some item\<rparr> else l);
     Some (h, l\<lparr>lhead := Some item\<rparr>) })"

definition list_insert :: "ptr option \<Rightarrow> ptr \<Rightarrow> lstate \<Rightarrow> lstate option" where
  "list_insert after item s = (case s of (h, l) \<Rightarrow>
     if after = None then list_prepend item (h, l)
     else do {
       h \<leftarrow> set_prev h (Some item) after;
       an \<leftarrow> get_next h after;
       h \<leftarrow> set_next h (Some item) an;
       h \<leftarrow> set_next h after (Some item);
       inx \<leftarrow> get_next h (Some item);
       h \<leftarrow> (if inx \<noteq> None then set_prev h inx (Some item) else Some h);
       Some (h, if ltail l = after then l\<lparr>ltail := Some item\<rparr> else l) })"

definition list_remove :: "ptr \<Rightarrow> lstate \<Rightarrow> lstate option" where
  "list_remove item s = (case s of (h, l) \<Rightarrow> do {
     nx \<leftarrow> get_next h (Some item);
     pv \<leftarrow> get_prev h (Some item);
     h \<leftarrow> (if nx \<noteq> None then set_prev h nx pv else Some h);
     (h, l) \<leftarrow> (if lhead l = Some item
        then do {
          nx \<leftarrow> get_next h (Some item);
          let l = l\<lparr>lhead := nx\<rparr>;
          Some (h, if lhead l = None then l\<lparr>ltail := None\<rparr> else l) }
        else do {
          nx \<leftarrow> get_next h (Some item);
          pv \<leftarrow> get_prev h (Some item);
          h \<leftarrow> set_next h pv nx;
          pv \<leftarrow> get_prev h (Some item);
          Some (h, if ltail l = Some item then l\<lparr>ltail := pv\<rparr> else l) });
     h \<leftarrow> set_next h (Some item) None;
     h \<leftarrow> set_prev h (Some item) None;
     Some (h, l) })"

definition list_pop :: "lstate \<Rightarrow> (ptr option \<times> lstate) option" where
  "list_pop s = (case lhead (snd s) of
     None \<Rightarrow> Some (None, s)
   | Some item \<Rightarrow> map_option (\<lambda>s'. (Some item, s')) (list_remove item s))"

definition list_last :: "llist \<Rightarrow> ptr option" where
  "list_last l = ltail l"

definition list_first :: "llist \<Rightarrow> ptr option" where
  "list_first l = lhead l"

definition list_next :: "(ptr \<Rightarrow> list_item option) \<Rightarrow> ptr \<Rightarrow> ptr option option" where
  "list_next h item = get_next h (Some item)"

text \<open>
  The traversal macros. The body acts on the store, the list header and the caller's state; the
  first argument bounds the number of iterations. \<open>list_for_each\<close> reads the next pointer after
  the body, \<open>list_for_each_safe\<close> before it.
\<close>

fun list_for_each :: "nat \<Rightarrow> (ptr \<Rightarrow> lstate \<times> 's \<Rightarrow> (lstate \<times> 's) option) \<Rightarrow> ptr option \<Rightarrow>
    lstate \<times> 's \<Rightarrow> (lstate \<times> 's) option" where
  "list_for_each n body None st = Some st"
| "list_for_each 0 body (Some a) st = None"
| "list_for_each (Suc n) body (Some a) st = do {
     st' \<leftarrow> body a st;
     nx \<leftarrow> get_next (fst (fst st')) (Some a);
     list_for_each n body nx st' }"

fun list_for_each_safe :: "nat \<Rightarrow> (ptr \<Rightarrow> lstate \<times> 's \<Rightarrow> (lstate \<times> 's) option) \<Rightarrow> ptr option \<Rightarrow>
    lstate \<times> 's \<Rightarrow> (lstate \<times> 's) option" where
  "list_for_each_safe n body None st = Some st"
| "list_for_each_safe 0 body (Some a) st = None"
| "list_for_each_safe (Suc n) body (Some a) st = do {
     bkup \<leftarrow> get_next (fst (fst st)) (Some a);
     st' \<leftarrow> body a st;
     list_for_each_safe n body bkup st' }"

text \<open>The two macros that start behind a given item, and the second name of \<open>list_append\<close>.\<close>

definition list_for_each_after :: "nat \<Rightarrow> (ptr \<Rightarrow> lstate \<times> 's \<Rightarrow> (lstate \<times> 's) option) \<Rightarrow> ptr \<Rightarrow>
    lstate \<times> 's \<Rightarrow> (lstate \<times> 's) option" where
  "list_for_each_after n body node st = do {
     nx \<leftarrow> get_next (fst (fst st)) (Some node);
     list_for_each n body nx st }"

definition list_for_each_safe_after :: "nat \<Rightarrow> (ptr \<Rightarrow> lstate \<times> 's \<Rightarrow> (lstate \<times> 's) option) \<Rightarrow> ptr \<Rightarrow>
    lstate \<times> 's \<Rightarrow> (lstate \<times> 's) option" where
  "list_for_each_safe_after n body node st = do {
     nx \<leftarrow> get_next (fst (fst st)) (Some node);
     list_for_each_safe n body nx st }"

definition list_push :: "ptr \<Rightarrow> lstate \<Rightarrow> lstate option" where
  "list_push = list_append"

section \<open>Abstraction\<close>

text \<open>
  \<open>seg h p xs n\<close>: the items \<open>xs\<close> are linked in this order, the first one back to \<open>p\<close>, the last
  one on to \<open>n\<close>.
\<close>

definition first_of :: "ptr list \<Rightarrow> ptr option \<Rightarrow> ptr option" where
  "first_of xs n = (case xs of [] \<Rightarrow> n | y # ys \<Rightarrow> Some y)"

definition last_of :: "ptr option \<Rightarrow> ptr list \<Rightarrow> ptr option" where
  "last_of p xs = (if xs = [] then p else Some (last xs))"

fun seg :: "(ptr \<Rightarrow> list_item option) \<Rightarrow> ptr option \<Rightarrow> ptr list \<Rightarrow> ptr option \<Rightarrow> bool" where
  "seg h p [] n \<longleftrightarrow> True"
| "seg h p (x # xs) n \<longleftrightarrow> h x = Some \<lparr>li_next = first_of xs n, li_prev = p\<rparr> \<and> seg h (Some x) xs n"

definition dll :: "lstate \<Rightarrow> ptr list \<Rightarrow> bool" where
  "dll s xs \<longleftrightarrow> distinct xs \<and> lhead (snd s) = first_of xs None \<and> ltail (snd s) = last_of None xs \<and>
     seg (fst s) None xs None"

lemma first_of_simps [simp]:
  "first_of [] n = n" "first_of (x # xs) n = Some x"
  "first_of (xs @ ys) n = first_of xs (first_of ys n)"
  by (simp_all add: first_of_def split: list.splits)

lemma last_of_simps [simp]:
  "last_of p [] = p" "last_of p (xs @ [x]) = Some x" "last_of p (x # xs) = last_of (Some x) xs"
  "last_of p (xs @ ys) = last_of (last_of p xs) ys"
  by (simp_all add: last_of_def)

lemma first_of_notin [simp]: "a \<notin> set xs \<Longrightarrow> n \<noteq> Some a \<Longrightarrow> first_of xs n \<noteq> Some a"
  by (cases xs) auto

lemma last_of_notin [simp]: "a \<notin> set xs \<Longrightarrow> p \<noteq> Some a \<Longrightarrow> last_of p xs \<noteq> Some a"
  by (cases xs rule: rev_cases) auto

lemma seg_append [simp]:
  "seg h p (xs @ ys) n \<longleftrightarrow> seg h p xs (first_of ys n) \<and> seg h (last_of p xs) ys n"
  by (induction xs arbitrary: p) auto

lemma seg_frame [simp]: "a \<notin> set xs \<Longrightarrow> seg (h(a := v)) p xs n = seg h p xs n"
  by (induction xs arbitrary: p) auto

lemma seg_alloc: "seg h p xs n \<Longrightarrow> x \<in> set xs \<Longrightarrow> h x \<noteq> None"
  by (induction xs arbitrary: p) auto

lemma dll_empty: "dll (h, list_init l) []"
  by (simp add: dll_def list_init_def)

section \<open>Operations on represented lists\<close>

lemmas list_field_defs = get_next_def get_prev_def set_next_def set_prev_def

lemma list_append_dll:
  assumes "dll s xs" "fst s item \<noteq> None" "item \<notin> set xs"
  shows "\<exists>s'. list_append item s = Some s' \<and> dll s' (xs @ [item]) \<and> dom (fst s') = dom (fst s)"
proof -
  obtain h l where s: "s = (h, l)" by (cases s)
  obtain n where n: "h item = Some n" using assms(2) s by auto
  show ?thesis
  proof (cases xs rule: rev_cases)
    case Nil
    then show ?thesis using assms s n
      by (auto simp: list_append_def dll_def list_field_defs)
  next
    case (snoc ys t)
    then have "h t = Some \<lparr>li_next = None, li_prev = last_of None ys\<rparr>" "t \<noteq> item"
      using assms s by (auto simp: dll_def)
    then show ?thesis using assms s n snoc
      by (auto simp: list_append_def dll_def list_field_defs)
  qed
qed

text \<open>Prepending to an empty list is right; otherwise the old head keeps its null back pointer.\<close>

lemma list_prepend_empty:
  assumes "dll s []" "fst s item \<noteq> None"
  shows "\<exists>s'. list_prepend item s = Some s' \<and> dll s' [item] \<and> dom (fst s') = dom (fst s)"
  using assms by (cases s) (auto simp: list_prepend_def dll_def list_field_defs)

lemma list_prepend_links:
  assumes "dll s (x # xs)" "fst s item \<noteq> None" "item \<notin> set (x # xs)"
  obtains h' l' where "list_prepend item s = Some (h', l')"
    "lhead l' = Some item" "h' item = Some \<lparr>li_next = Some x, li_prev = None\<rparr>"
    "h' x = Some \<lparr>li_next = first_of xs None, li_prev = None\<rparr>"
    "seg h' (Some x) xs None" "ltail l' = last_of (Some x) xs"
proof -
  obtain h l where s: "s = (h, l)" by (cases s)
  obtain n where n: "h item = Some n" using assms(2) s by auto
  show thesis
    by (rule that [of "h(item \<mapsto> \<lparr>li_next = Some x, li_prev = None\<rparr>)" "l\<lparr>lhead := Some item\<rparr>"])
      (use assms s n in \<open>auto simp: list_prepend_def dll_def list_field_defs Let_def\<close>)
qed

lemma list_insert_dll:
  assumes "dll s (ys @ a # zs)" "fst s item \<noteq> None" "item \<notin> set (ys @ a # zs)"
  shows "\<exists>s'. list_insert (Some a) item s = Some s' \<and> dll s' (ys @ a # item # zs) \<and>
    dom (fst s') = dom (fst s)"
proof -
  obtain h l where s: "s = (h, l)" by (cases s)
  obtain n where n: "h item = Some n" using assms(2) s by auto
  have a: "h a = Some \<lparr>li_next = first_of zs None, li_prev = last_of None ys\<rparr>" "a \<noteq> item"
    "item \<noteq> a" "a \<notin> set ys" "a \<notin> set zs"
    using assms s by (auto simp: dll_def)
  show ?thesis
  proof (cases zs)
    case Nil
    then show ?thesis using assms s n a
      by (auto simp: list_insert_def dll_def list_field_defs)
  next
    case (Cons z zs')
    then have z: "h z = Some \<lparr>li_next = first_of zs' None, li_prev = Some a\<rparr>" "z \<noteq> item"
      "z \<noteq> a" "z \<notin> set ys" "z \<notin> set zs'" "last_of (Some z) zs' \<noteq> Some a"
      using assms s by (simp_all add: dll_def)
    then show ?thesis using assms s n a Cons
      by (auto simp: list_insert_def dll_def list_field_defs)
  qed
qed

lemma list_remove_dll:
  assumes "dll s (ys @ a # zs)"
  shows "\<exists>s'. list_remove a s = Some s' \<and> dll s' (ys @ zs) \<and> dom (fst s') = dom (fst s)"
proof -
  obtain h l where s: "s = (h, l)" by (cases s)
  have a: "h a = Some \<lparr>li_next = first_of zs None, li_prev = last_of None ys\<rparr>"
    "a \<notin> set ys" "a \<notin> set zs"
    using assms s by (auto simp: dll_def)
  show ?thesis
  proof (cases ys rule: rev_cases)
    case Nil
    then show ?thesis using assms s a
      by (cases zs) (auto simp: list_remove_def dll_def list_field_defs Let_def)
  next
    case (snoc ys' y)
    then have y: "h y = Some \<lparr>li_next = Some a, li_prev = last_of None ys'\<rparr>" "y \<noteq> a"
      "y \<notin> set ys'" "y \<notin> set zs" "first_of ys' (Some y) \<noteq> Some a"
      using assms s a by (simp_all add: dll_def)
    show ?thesis
    proof (cases zs)
      case Nil
      then show ?thesis using assms s a y snoc
        by (auto simp: list_remove_def dll_def list_field_defs Let_def)
    next
      case (Cons z zs')
      then have z: "h z = Some \<lparr>li_next = first_of zs' None, li_prev = Some a\<rparr>" "z \<noteq> a" "z \<noteq> y"
        "z \<notin> set ys'" "z \<notin> set zs'" "last_of (Some z) zs' \<noteq> Some a"
        using assms s a snoc by (simp_all add: dll_def)
      then show ?thesis using assms s a y snoc Cons
        by (auto simp: list_remove_def dll_def list_field_defs Let_def)
    qed
  qed
qed

interpretation il: item_sequence list_append list_remove dll "\<lambda>s. dom (fst s)"
proof unfold_locales
  fix s xs a
  assume "dll s xs" "a \<in> dom (fst s)" "a \<notin> set xs"
  then show "\<exists>s'. list_append a s = Some s' \<and> dll s' (xs @ [a]) \<and> dom (fst s') = dom (fst s)"
    using list_append_dll [of s xs a] by auto
next
  fix s xs a
  assume d: "dll s xs" "a \<in> set xs"
  then obtain ys zs where xs: "xs = ys @ a # zs" by (meson split_list)
  with d have "a \<notin> set ys" by (auto simp: dll_def)
  with xs have "remove1 a xs = ys @ zs" by (simp add: remove1_append)
  then show "\<exists>s'. list_remove a s = Some s' \<and> dll s' (remove1 a xs) \<and> dom (fst s') = dom (fst s)"
    using list_remove_dll d xs by metis
qed (simp add: dll_def)

lemma list_pop_dll:
  "dll s (x # xs) \<Longrightarrow> \<exists>s'. list_pop s = Some (Some x, s') \<and> dll s' xs \<and> dom (fst s') = dom (fst s)"
  using list_remove_dll [of s "[]" x xs] by (auto simp: list_pop_def dll_def)

section \<open>Traversals\<close>

lemma dll_next: "dll s (ks @ y # ys) \<Longrightarrow> get_next (fst s) (Some y) = Some (first_of ys None)"
  by (simp add: dll_def get_next_def)

lemma dll_free: "dll (h, l) xs \<Longrightarrow> a \<notin> set xs \<Longrightarrow> dll (h(a := None), l) xs"
  by (simp add: dll_def)

text \<open>A body that leaves the list alone: the traversal folds it over the represented sequence.\<close>

lemma list_for_each_fold:
  assumes "dll s (ks @ ys)" "length ys \<le> n"
    and "\<And>a acc. body a (s, acc) = map_option (Pair s) (f a acc)"
  shows "list_for_each n body (first_of ys None) (s, acc) =
    map_option (Pair s) (foldl (\<lambda>r a. Option.bind r (f a)) (Some acc) ys)"
  using assms(1,2)
proof (induction ys arbitrary: ks n acc)
  case (Cons y ys)
  then obtain m where n: "n = Suc m" "length ys \<le> m" by (cases n) auto
  have "foldl (\<lambda>r a. Option.bind r (f a)) None ys = None" by (induction ys) auto
  then show ?case
    using Cons.IH [of "ks @ [y]" m] Cons.prems n dll_next [OF Cons.prems(1)]
    by (cases "f y acc") (simp_all add: assms(3))
qed (cases n; simp)

text \<open>Started behind an item, the same traversal folds over the items that follow it.\<close>

lemma list_for_each_after_fold:
  assumes "dll s (ks @ y # ys)" "length ys \<le> n"
    and "\<And>a acc. body a (s, acc) = map_option (Pair s) (f a acc)"
  shows "list_for_each_after n body y (s, acc) =
    map_option (Pair s) (foldl (\<lambda>r a. Option.bind r (f a)) (Some acc) ys)"
  using list_for_each_fold [of s "ks @ [y]" ys n body f acc] dll_next [OF assms(1)] assms
  by (simp add: list_for_each_after_def)

text \<open>
  The deletion loops of the name server: under \<open>list_for_each_safe\<close>, unlink and free every item
  that satisfies a predicate. The successor is read before the item goes away, so no freed item
  is touched, and what remains is the filtered sequence.
\<close>

definition unlink_free :: "ptr \<Rightarrow> lstate \<Rightarrow> lstate option" where
  "unlink_free a s = map_option (\<lambda>(h, l). (h(a := None), l)) (list_remove a s)"

lemma unlink_free_dll:
  assumes "dll s (ks @ y # ys)"
  shows "\<exists>s'. unlink_free y s = Some s' \<and> dll s' (ks @ ys) \<and> dom (fst s') = dom (fst s) - {y}"
proof -
  from list_remove_dll [OF assms] obtain h l where r: "list_remove y s = Some (h, l)"
    "dll (h, l) (ks @ ys)" "dom h = dom (fst s)" by auto
  have "y \<notin> set (ks @ ys)" using assms by (simp add: dll_def)
  with r dll_free show ?thesis by (auto simp: unlink_free_def)
qed

lemma list_for_each_safe_delete:
  assumes "dll s (ks @ ys)" "length ys \<le> n"
  shows "\<exists>s'. list_for_each_safe n
      (\<lambda>a (s, freed). if P a then map_option (\<lambda>s'. (s', freed @ [a])) (unlink_free a s) else Some (s, freed))
      (first_of ys None) (s, fr) = Some (s', fr @ filter P ys) \<and>
    dll s' (ks @ filter (\<lambda>a. \<not> P a) ys) \<and> dom (fst s') = dom (fst s) - {a \<in> set ys. P a}"
  using assms
proof (induction ys arbitrary: ks n s fr)
  case (Cons y ys)
  then obtain m where n: "n = Suc m" "length ys \<le> m" by (cases n) auto
  note nx = dll_next [OF Cons.prems(1)]
  show ?case
  proof (cases "P y")
    case True
    from unlink_free_dll [OF Cons.prems(1)] obtain s1 where
      s1: "unlink_free y s = Some s1" "dll s1 (ks @ ys)" "dom (fst s1) = dom (fst s) - {y}" by blast
    from Cons.IH [OF s1(2) n(2), of "fr @ [y]"] s1 nx True n show ?thesis by auto
  next
    case False
    from Cons.prems(1) have "dll s ((ks @ [y]) @ ys)" by simp
    from Cons.IH [OF this n(2), of fr] nx False n show ?thesis by auto
  qed
qed (cases n; simp)

text \<open>Started behind an item, the deletion leaves that item and everything before it alone.\<close>

lemma list_for_each_safe_after_delete:
  assumes "dll s (ks @ y # ys)" "length ys \<le> n"
  shows "\<exists>s'. list_for_each_safe_after n
      (\<lambda>a (s, freed). if P a then map_option (\<lambda>s'. (s', freed @ [a])) (unlink_free a s) else Some (s, freed))
      y (s, fr) = Some (s', fr @ filter P ys) \<and>
    dll s' (ks @ y # filter (\<lambda>a. \<not> P a) ys) \<and> dom (fst s') = dom (fst s) - {a \<in> set ys. P a}"
  using list_for_each_safe_delete [of s "ks @ [y]" ys n P fr] dll_next [OF assms(1)] assms
  by (simp add: list_for_each_safe_after_def)

lemma list_init_static: "list_init l = LIST_INIT"
  by (simp add: list_init_def LIST_INIT_def)

end
