(* ===== verification/Linked_List_Props.thy ===== *)
theory Linked_List_Props
  imports Linked_List
begin

text \<open>
  The properties of the intrusive list of \<open>src/list.h\<close>: which operations keep the links of the
  represented sequence right, and the one that does not.
\<close>

text \<open>An empty list over a store with the items 1, 2 and 3.\<close>

definition demo_store :: lstate where
  "demo_store = ((\<lambda>a. if a \<in> {1, 2, 3} then Some \<lparr>li_next = None, li_prev = None\<rparr> else None),
     \<lparr>lhead = None, ltail = None\<rparr>)"

lemma demo_store_dll: "dll demo_store []"
  by (simp add: dll_def demo_store_def)

definition demo_list :: lstate where
  "demo_list = the (il.append_all [1, 2, 3] demo_store)"

lemma demo_list_dll: "dll demo_list [1, 2, 3]"
proof -
  have "set [1, 2, 3] \<subseteq> dom (fst demo_store)" by (simp add: demo_store_def dom_def)
  from il.append_all_repr [OF demo_store_dll this] show ?thesis by (auto simp: demo_list_def)
qed

text \<open>\<open>list_append\<close> on a well-linked list and an allocated item outside it is defined
  and yields the well-linked list with the item at the end.\<close>
lemma list_append_appends:
  assumes "dll s xs" "item \<in> dom (fst s)" "item \<notin> set xs"
  shows "\<exists>s'. list_append item s = Some s' \<and> dll s' (xs @ [item])"
  using il.append_repr [OF assms] by blast

text \<open>\<open>list_remove\<close> of any item of a well-linked list, at either end or in the middle, is
  defined (no null pointer is followed) and yields the well-linked list without the item;
  \<open>list_pop\<close> removes and returns the first item.\<close>
lemma list_remove_unlinks:
  assumes "dll s xs" "item \<in> set xs"
  shows "(\<exists>s'. list_remove item s = Some s' \<and> dll s' (remove1 item xs)) \<and>
    (\<exists>s'. list_pop s = Some (Some (hd xs), s') \<and> dll s' (tl xs))"
proof
  show "\<exists>s'. list_remove item s = Some s' \<and> dll s' (remove1 item xs)"
    using il.remove_repr [OF assms] by blast
  show "\<exists>s'. list_pop s = Some (Some (hd xs), s') \<and> dll s' (tl xs)"
    using list_pop_dll [of s "hd xs" "tl xs"] assms by (cases xs) auto
qed

text \<open>\<open>list_insert\<close> after an item of a well-linked list links the new item right behind
  it, also at the tail.\<close>
lemma list_insert_after:
  assumes "dll s (ys @ a # zs)" "item \<in> dom (fst s)" "item \<notin> set (ys @ a # zs)"
  shows "\<exists>s'. list_insert (Some a) item s = Some s' \<and> dll s' (ys @ a # item # zs)"
  using list_insert_dll [OF assms(1) _ assms(3)] assms(2) by blast

text \<open>The deletion loop of the name server (\<open>list_for_each_safe\<close> unlinking and freeing
  every item that satisfies a predicate) is defined, leaves the well-linked filtered list and frees
  exactly the removed items; the iteration bound is the length of the list.\<close>
lemma list_for_each_safe_deletes:
  assumes "dll s xs"
  shows "\<exists>s'. list_for_each_safe (length xs)
      (\<lambda>a (s, freed). if P a then map_option (\<lambda>s'. (s', freed @ [a])) (unlink_free a s)
        else Some (s, freed))
      (list_first (snd s)) (s, []) = Some (s', filter P xs) \<and>
    dll s' (filter (\<lambda>a. \<not> P a) xs) \<and> dom (fst s') = dom (fst s) - {a \<in> set xs. P a}"
proof -
  have "list_first (snd s) = first_of xs None" using assms by (simp add: dll_def list_first_def)
  then show ?thesis
    using list_for_each_safe_delete [of s "[]" xs "length xs" P "[]"] assms by simp
qed

text \<open>\<open>list_prepend\<close> on a non-empty well-linked list does not yield a well-linked list
  of any sequence, because it never sets the back pointer of the old head; removing the old head
  afterwards follows a null pointer.\<close>
lemma list_prepend_breaks_links:
  assumes "dll s (x # xs)" "item \<in> dom (fst s)" "item \<notin> set (x # xs)"
  shows "\<exists>s'. list_prepend item s = Some s' \<and> (\<forall>ys. \<not> dll s' ys) \<and> list_remove x s' = None"
proof -
  obtain h' l' where p: "list_prepend item s = Some (h', l')"
    "lhead l' = Some item" "h' item = Some \<lparr>li_next = Some x, li_prev = None\<rparr>"
    "h' x = Some \<lparr>li_next = first_of xs None, li_prev = None\<rparr>"
    "seg h' (Some x) xs None" "ltail l' = last_of (Some x) xs"
    by (rule list_prepend_links [OF assms(1) _ assms(3)]) (use assms(2) in auto)
  have ne: "x \<noteq> item" using assms(3) by auto
  have "\<not> dll (h', l') ys" for ys
  proof
    assume d: "dll (h', l') ys"
    with p obtain zs where "ys = item # zs" by (cases ys) (auto simp: dll_def)
    with d p have "first_of zs None = Some x" "seg h' (Some item) zs None"
      by (auto simp: dll_def)
    then obtain zs' where "zs = x # zs'" by (cases zs) auto
    with \<open>seg h' (Some item) zs None\<close> p show False by simp
  qed
  moreover have "list_remove x (h', l') = None"
  proof (cases "first_of xs None")
    case None
    then show ?thesis using p ne by (simp add: list_remove_def list_field_defs)
  next
    case (Some y)
    then obtain xs' where "xs = y # xs'" by (cases xs) auto
    then have "h' y = Some \<lparr>li_next = first_of xs' None, li_prev = Some x\<rparr>" "y \<noteq> x"
      using p assms(1) by (auto simp: dll_def)
    then show ?thesis using p ne Some by (auto simp: list_remove_def list_field_defs)
  qed
  ultimately show ?thesis using p(1) by blast
qed

end
