(* ===== verification/Wire.thy ===== *)
theory Wire
  imports Qrtr_Prelude
begin

text \<open>
  The control packets of QRTR as they are laid out in memory and on the wire:
  \<open>include/libqrtr.h\<close> (packet types, \<open>struct qrtr_ctrl_pkt\<close>, \<open>struct qrtr_packet\<close>) and
  \<open>include/ns.h\<close> (\<open>cpu_to_le32\<close>, \<open>le32_to_cpu\<close>). The byte order of the host is the parameter
  \<open>be\<close>, since some assignments of the name server store values without conversion.
\<close>

unbundle bit_operations_syntax

section \<open>Addresses and packet types\<close>

record sockaddr_qrtr =
  sq_family :: u16
  sq_node :: u32
  sq_port :: u32

definition AF_QIPCRTR :: u16 where "AF_QIPCRTR = 42"
definition QRTR_NODE_BCAST :: u32 where "QRTR_NODE_BCAST = 0xffffffff"
definition QRTR_PORT_CTRL :: u32 where "QRTR_PORT_CTRL = 0xfffffffe"

definition QRTR_TYPE_DATA :: u32 where "QRTR_TYPE_DATA = 1"
definition QRTR_TYPE_HELLO :: u32 where "QRTR_TYPE_HELLO = 2"
definition QRTR_TYPE_BYE :: u32 where "QRTR_TYPE_BYE = 3"
definition QRTR_TYPE_NEW_SERVER :: u32 where "QRTR_TYPE_NEW_SERVER = 4"
definition QRTR_TYPE_DEL_SERVER :: u32 where "QRTR_TYPE_DEL_SERVER = 5"
definition QRTR_TYPE_DEL_CLIENT :: u32 where "QRTR_TYPE_DEL_CLIENT = 6"
definition QRTR_TYPE_RESUME_TX :: u32 where "QRTR_TYPE_RESUME_TX = 7"
definition QRTR_TYPE_EXIT :: u32 where "QRTR_TYPE_EXIT = 8"
definition QRTR_TYPE_PING :: u32 where "QRTR_TYPE_PING = 9"
definition QRTR_TYPE_NEW_LOOKUP :: u32 where "QRTR_TYPE_NEW_LOOKUP = 10"
definition QRTR_TYPE_DEL_LOOKUP :: u32 where "QRTR_TYPE_DEL_LOOKUP = 11"

lemmas qrtr_type_defs = QRTR_TYPE_DATA_def QRTR_TYPE_HELLO_def QRTR_TYPE_BYE_def
  QRTR_TYPE_NEW_SERVER_def QRTR_TYPE_DEL_SERVER_def QRTR_TYPE_DEL_CLIENT_def
  QRTR_TYPE_RESUME_TX_def QRTR_TYPE_EXIT_def QRTR_TYPE_PING_def QRTR_TYPE_NEW_LOOKUP_def
  QRTR_TYPE_DEL_LOOKUP_def

section \<open>Byte order\<close>

definition le_bytes :: "u32 \<Rightarrow> u8 list" where
  "le_bytes x = [ucast x, ucast (drop_bit 8 x), ucast (drop_bit 16 x), ucast (drop_bit 24 x)]"

fun le_word :: "u8 list \<Rightarrow> u32" where
  "le_word [] = 0"
| "le_word (b # bs) = ucast b OR push_bit 8 (le_word bs)"

lemma length_le_bytes [simp]: "length (le_bytes x) = 4"
  by (simp add: le_bytes_def)

lemma le_word_le_bytes [simp]: "le_word (le_bytes x) = x"
proof (rule bit_word_eqI)
  fix n assume "n < LENGTH(32)"
  then consider "n < 8" | "8 \<le> n" "n < 16" | "16 \<le> n" "n < 24" | "24 \<le> n" "n < 32"
    by fastforce
  then show "bit (le_word (le_bytes x)) n \<longleftrightarrow> bit x n"
    by cases (auto simp: le_bytes_def bit_simps)
qed

lemma byte_high_bit [simp]: "8 \<le> n \<Longrightarrow> \<not> bit (b :: u8) n"
  by (auto dest: bit_imp_le_length)

text \<open>The object representation of a 32-bit value, and the value of four bytes of memory.\<close>

definition mem_bytes :: "bool \<Rightarrow> u32 \<Rightarrow> u8 list" where
  "mem_bytes be x = (if be then rev (le_bytes x) else le_bytes x)"

definition mem_word :: "bool \<Rightarrow> u8 list \<Rightarrow> u32" where
  "mem_word be bs = le_word (if be then rev bs else bs)"

definition bswap32 :: "u32 \<Rightarrow> u32" where
  "bswap32 x = le_word (rev (le_bytes x))"

definition cpu_to_le32 :: "bool \<Rightarrow> u32 \<Rightarrow> u32" where
  "cpu_to_le32 be x = (if be then bswap32 x else x)"

definition le32_to_cpu :: "bool \<Rightarrow> u32 \<Rightarrow> u32" where
  "le32_to_cpu be x = (if be then bswap32 x else x)"

section \<open>struct qrtr\_ctrl\_pkt\<close>

text \<open>
  The five words as the host reads them. The union overlays \<open>client.node\<close> and \<open>client.port\<close> on
  \<open>server.service\<close> and \<open>server.instance\<close>.
\<close>

record ctrl_pkt =
  pkt_cmd :: u32
  pkt_w0 :: u32
  pkt_w1 :: u32
  pkt_w2 :: u32
  pkt_w3 :: u32

definition zero_pkt :: ctrl_pkt where
  "zero_pkt = \<lparr>pkt_cmd = 0, pkt_w0 = 0, pkt_w1 = 0, pkt_w2 = 0, pkt_w3 = 0\<rparr>"

definition pkt_bytes :: "bool \<Rightarrow> ctrl_pkt \<Rightarrow> u8 list" where
  "pkt_bytes be p = mem_bytes be (pkt_cmd p) @ mem_bytes be (pkt_w0 p) @ mem_bytes be (pkt_w1 p) @
     mem_bytes be (pkt_w2 p) @ mem_bytes be (pkt_w3 p)"

definition pkt_of_bytes :: "bool \<Rightarrow> u8 list \<Rightarrow> ctrl_pkt" where
  "pkt_of_bytes be bs = \<lparr>pkt_cmd = mem_word be (take 4 bs), pkt_w0 = mem_word be (take 4 (drop 4 bs)),
     pkt_w1 = mem_word be (take 4 (drop 8 bs)), pkt_w2 = mem_word be (take 4 (drop 12 bs)),
     pkt_w3 = mem_word be (take 4 (drop 16 bs))\<rparr>"

text \<open>\<open>sizeof(struct qrtr_ctrl_pkt)\<close>, a packed struct of five words.\<close>

definition sizeof_ctrl_pkt :: nat where
  "sizeof_ctrl_pkt = 20"

section \<open>Facts\<close>

lemma length_mem_bytes [simp]: "length (mem_bytes be x) = 4"
  by (simp add: mem_bytes_def)

lemma mem_word_mem_bytes [simp]: "mem_word be (mem_bytes be x) = x"
  by (simp add: mem_word_def mem_bytes_def)

lemma le_bytes_le_word:
  assumes "length bs = 4"
  shows "le_bytes (le_word bs) = bs"
proof -
  obtain a b c d where bs: "bs = [a, b, c, d]"
    using assms by (auto simp: length_Suc_conv numeral_eq_Suc)
  show ?thesis unfolding bs le_bytes_def
    by (auto intro!: bit_word_eqI simp: bit_simps)
qed

lemma bswap32_bswap32 [simp]: "bswap32 (bswap32 x) = x"
  by (simp add: bswap32_def le_bytes_le_word)

lemma le32_to_cpu_cpu_to_le32 [simp]: "le32_to_cpu be (cpu_to_le32 be x) = x"
  by (simp add: le32_to_cpu_def cpu_to_le32_def)

text \<open>A converted word is little endian on the wire, whatever the host.\<close>

lemma mem_bytes_cpu_to_le32: "mem_bytes be (cpu_to_le32 be x) = le_bytes x"
  by (simp add: mem_bytes_def cpu_to_le32_def bswap32_def le_bytes_le_word)

lemma le32_to_cpu_mem_word: "length bs = 4 \<Longrightarrow> le32_to_cpu be (mem_word be bs) = le_word bs"
  by (simp add: le32_to_cpu_def mem_word_def bswap32_def le_bytes_le_word)

lemma length_pkt_bytes [simp]: "length (pkt_bytes be p) = sizeof_ctrl_pkt"
  by (simp add: pkt_bytes_def sizeof_ctrl_pkt_def)

lemma pkt_of_pkt_bytes [simp]: "pkt_of_bytes be (pkt_bytes be p @ bs) = p"
  by (simp add: pkt_of_bytes_def pkt_bytes_def)

lemma pkt_of_pkt_bytes' [simp]: "pkt_of_bytes be (pkt_bytes be p) = p"
  using pkt_of_pkt_bytes [of be p "[]"] by simp

text \<open>Five little-endian words, and what a host of either byte order makes of them.\<close>

definition wire_bytes :: "u32 \<Rightarrow> u32 \<Rightarrow> u32 \<Rightarrow> u32 \<Rightarrow> u32 \<Rightarrow> u8 list" where
  "wire_bytes c w0 w1 w2 w3 = le_bytes c @ le_bytes w0 @ le_bytes w1 @ le_bytes w2 @ le_bytes w3"

lemma length_wire_bytes [simp]: "length (wire_bytes c w0 w1 w2 w3) = sizeof_ctrl_pkt"
  by (simp add: wire_bytes_def sizeof_ctrl_pkt_def)

lemma pkt_bytes_wire:
  "pkt_bytes be \<lparr>pkt_cmd = cpu_to_le32 be c, pkt_w0 = cpu_to_le32 be w0, pkt_w1 = cpu_to_le32 be w1,
     pkt_w2 = cpu_to_le32 be w2, pkt_w3 = cpu_to_le32 be w3\<rparr> = wire_bytes c w0 w1 w2 w3"
  by (simp add: pkt_bytes_def wire_bytes_def mem_bytes_cpu_to_le32)

lemma wire_bytes_words [simp]:
  "le32_to_cpu be (pkt_cmd (pkt_of_bytes be (wire_bytes c w0 w1 w2 w3 @ r))) = c"
  "le32_to_cpu be (pkt_w0 (pkt_of_bytes be (wire_bytes c w0 w1 w2 w3 @ r))) = w0"
  "le32_to_cpu be (pkt_w1 (pkt_of_bytes be (wire_bytes c w0 w1 w2 w3 @ r))) = w1"
  "le32_to_cpu be (pkt_w2 (pkt_of_bytes be (wire_bytes c w0 w1 w2 w3 @ r))) = w2"
  "le32_to_cpu be (pkt_w3 (pkt_of_bytes be (wire_bytes c w0 w1 w2 w3 @ r))) = w3"
  by (simp_all add: pkt_bytes_wire [of be, symmetric])

lemmas wire_bytes_words' [simp] = wire_bytes_words [where r = "[]", simplified]

lemma cpu_to_le32_0 [simp]: "cpu_to_le32 be 0 = 0"
  by (simp add: cpu_to_le32_def bswap32_def le_bytes_def)

end
