(* ===== verification/Name_Server.thy ===== *)
theory Name_Server
  imports Hashmap Wire
begin

text \<open>
  The name server daemon \<open>src/ns.c\<close>. The state is the \<open>struct context\<close>, the global table of
  nodes, and an explicit store for the heap objects the tables point to: a node or server address
  is allocated if the store has it, and dereferencing or freeing any other address is undefined.
  The environment is part of the state: the script of allocation outcomes, the script of
  \<open>sendto\<close> results (past its end a call sends everything), the list of datagrams handed to
  \<open>sendto\<close> so far, the byte order of the host and the stale stack words that an uninitialised
  packet holds. Logging is left out.
\<close>

section \<open>State\<close>

record lookup =
  lk_service :: u32
  lk_instance :: u32
  lk_sq :: sockaddr_qrtr

record server =
  srv_service :: u32
  srv_instance :: u32
  srv_node :: u32
  srv_port :: u32

record node =
  nd_id :: u32
  nd_services :: "ptr hmap"

record server_filter =
  f_service :: u32
  f_instance :: u32
  f_ifilter :: u32

text \<open>
  \<open>sent\<close> has every datagram that was handed to \<open>sendto\<close>, also one whose call failed. \<open>stack_junk\<close> is
  what the two words of the stack hold that \<open>ctrl_cmd_del_client\<close> sends without setting them; it stays
  the same over a run.
\<close>

record ns_state =
  ctx_sock :: int
  local_node :: u32
  bcast_sq :: sockaddr_qrtr
  lookups :: "lookup list"
  nodes :: "ptr hmap"
  node_mem :: "ptr \<Rightarrow> node option"
  server_mem :: "ptr \<Rightarrow> server option"
  brk :: ptr
  heap_script :: allocs
  send_script :: "int list"
  sent :: "(sockaddr_qrtr \<times> u8 list) list"
  host_be :: bool
  stack_junk :: "u32 \<times> u32"

text \<open>\<open>sendto\<close>: the next scripted result, or the length of the datagram.\<close>

definition sys_sendto :: "sockaddr_qrtr \<Rightarrow> u8 list \<Rightarrow> ns_state \<Rightarrow> int \<times> ns_state" where
  "sys_sendto dest bs s =
     (case send_script s of
        [] \<Rightarrow> (int (length bs), s\<lparr>sent := sent s @ [(dest, bs)]\<rparr>)
      | r # rs \<Rightarrow> (r, s\<lparr>send_script := rs, sent := sent s @ [(dest, bs)]\<rparr>))"

text \<open>\<open>free\<close> of an address that is not allocated is undefined.\<close>

definition free_server :: "ptr \<Rightarrow> ns_state \<Rightarrow> ns_state option" where
  "free_server p s =
     (case server_mem s p of
        None \<Rightarrow> None
      | Some _ \<Rightarrow> Some (s\<lparr>server_mem := (server_mem s)(p := None)\<rparr>))"

definition free_node :: "ptr \<Rightarrow> ns_state \<Rightarrow> ns_state option" where
  "free_node p s =
     (case node_mem s p of
        None \<Rightarrow> None
      | Some _ \<Rightarrow> Some (s\<lparr>node_mem := (node_mem s)(p := None)\<rparr>))"

definition services_of :: "ptr \<Rightarrow> ns_state \<Rightarrow> ptr hmap option" where
  "services_of p s = map_option nd_services (node_mem s p)"

section \<open>Nodes\<close>

definition node_get :: "u32 \<Rightarrow> ns_state \<Rightarrow> (ptr option \<times> ns_state) option" where
  "node_get node_id s = do {
     mi \<leftarrow> map_get (nodes s) (hash_u32 node_id);
     (case mi of
        Some p \<Rightarrow> Some (Some p, s)
      | None \<Rightarrow>
          (case alloc (heap_script s) of
             (False, al) \<Rightarrow> Some (None, s\<lparr>heap_script := al\<rparr>)
           | (True, al) \<Rightarrow>
               (let p = brk s;
                    nd = \<lparr>nd_id = node_id,
                      nd_services = snd (map_create \<lparr>msize = 0, mcount = 0, mdata = []\<rparr>)\<rparr>;
                    s = s\<lparr>heap_script := al, brk := p + 1, node_mem := (node_mem s)(p \<mapsto> nd)\<rparr>
                in do {
                  (rc, m, al) \<leftarrow> map_put (heap_script s) (nodes s) (hash_u32 node_id) (Some p);
                  let s = s\<lparr>nodes := m, heap_script := al\<rparr>;
                  (if rc \<noteq> 0 then do { s \<leftarrow> free_node p s; Some (None, s) }
                   else Some (Some p, s)) })))
   }"

section \<open>Queries\<close>

definition server_match :: "server \<Rightarrow> server_filter \<Rightarrow> int" where
  "server_match srv f =
     (let ifilter = f_ifilter f in
      if f_service f \<noteq> 0 \<and> srv_service srv \<noteq> f_service f then 0
      else (let ifilter = (if ifilter = 0 \<and> f_instance f \<noteq> 0 then - 1 else ifilter) in
            if and (srv_instance srv) ifilter = f_instance f then 1 else 0))"

text \<open>
  The reply list is linked through the servers' \<open>qli\<close> members; it is modelled as the list of
  server addresses.
\<close>

definition server_query_services ::
  "server_filter \<Rightarrow> ns_state \<Rightarrow> ptr \<Rightarrow> ptr list \<times> int \<Rightarrow> (unit option \<times> (ptr list \<times> int)) option" where
  "server_query_services f s = (\<lambda>me (reply, count). do {
     srv \<leftarrow> server_mem s me;
     (if server_match srv f = 0 then Some (None, (reply, count))
      else Some (None, (reply @ [me], count + 1))) })"

definition server_query_nodes ::
  "server_filter \<Rightarrow> ns_state \<Rightarrow> ptr \<Rightarrow> ptr list \<times> int \<Rightarrow> (unit option \<times> (ptr list \<times> int)) option" where
  "server_query_nodes f s = (\<lambda>node_me acc. do {
     nd \<leftarrow> node_mem s node_me;
     map_for_each (\<lambda>_. Some (nd_services nd)) (server_query_services f s) acc })"

definition server_query :: "server_filter \<Rightarrow> ns_state \<Rightarrow> (int \<times> ptr list) option" where
  "server_query f s = do {
     (_, (reply, count)) \<leftarrow> map_for_each (\<lambda>_. Some (nodes s)) (server_query_nodes f s) ([], 0);
     Some (count, reply) }"

section \<open>Announcements\<close>

definition server_pkt :: "bool \<Rightarrow> u32 \<Rightarrow> server \<Rightarrow> ctrl_pkt" where
  "server_pkt be cmd srv =
     \<lparr>pkt_cmd = cmd, pkt_w0 = cpu_to_le32 be (srv_service srv), pkt_w1 = cpu_to_le32 be (srv_instance srv),
      pkt_w2 = cpu_to_le32 be (srv_node srv), pkt_w3 = cpu_to_le32 be (srv_port srv)\<rparr>"

definition service_announce_new :: "sockaddr_qrtr \<Rightarrow> ptr \<Rightarrow> ns_state \<Rightarrow> (int \<times> ns_state) option" where
  "service_announce_new dest sp s = do {
     srv \<leftarrow> server_mem s sp;
     let cmsg = server_pkt (host_be s) (cpu_to_le32 (host_be s) QRTR_TYPE_NEW_SERVER) srv;
     Some (sys_sendto dest (pkt_bytes (host_be s) cmsg) s) }"

definition service_announce_del :: "sockaddr_qrtr \<Rightarrow> ptr \<Rightarrow> ns_state \<Rightarrow> (int \<times> ns_state) option" where
  "service_announce_del dest sp s = do {
     srv \<leftarrow> server_mem s sp;
     let cmsg = server_pkt (host_be s) (cpu_to_le32 (host_be s) QRTR_TYPE_DEL_SERVER) srv;
     Some (sys_sendto dest (pkt_bytes (host_be s) cmsg) s) }"

text \<open>\<open>lookup_notify\<close> stores the command without byte order conversion.\<close>

definition lookup_notify :: "sockaddr_qrtr \<Rightarrow> ptr option \<Rightarrow> bool \<Rightarrow> ns_state \<Rightarrow> (int \<times> ns_state) option" where
  "lookup_notify to srv new s = do {
     let cmd = (if new then QRTR_TYPE_NEW_SERVER else QRTR_TYPE_DEL_SERVER);
     pkt \<leftarrow> (case srv of
        None \<Rightarrow> Some (zero_pkt\<lparr>pkt_cmd := cmd\<rparr>)
      | Some sp \<Rightarrow> map_option (server_pkt (host_be s) cmd) (server_mem s sp));
     Some (sys_sendto to (pkt_bytes (host_be s) pkt) s) }"

definition annouce_servers :: "sockaddr_qrtr \<Rightarrow> ns_state \<Rightarrow> (int \<times> ns_state) option" where
  "annouce_servers sq s = do {
     (np, s) \<leftarrow> node_get (local_node s) s;
     (case np of
        None \<Rightarrow> Some (0, s)
      | Some p \<Rightarrow> do {
          (r, s) \<leftarrow> map_for_each (services_of p)
            (\<lambda>sp s. do {
               (rc, s) \<leftarrow> service_announce_new sq sp s;
               Some (if rc < 0 then Some rc else None, s) }) s;
          Some (case r of Some rc \<Rightarrow> rc | None \<Rightarrow> 0, s) }) }"

section \<open>Adding and deleting servers\<close>

definition server_add :: "u32 \<Rightarrow> u32 \<Rightarrow> u32 \<Rightarrow> u32 \<Rightarrow> ns_state \<Rightarrow> (ptr option \<times> ns_state) option" where
  "server_add service instance node_id port s =
     (if service = 0 \<or> port = 0 then Some (None, s)
      else (case alloc (heap_script s) of
        (False, al) \<Rightarrow> Some (None, s\<lparr>heap_script := al\<rparr>)
      | (True, al) \<Rightarrow>
          (let sp = brk s;
               srv = \<lparr>srv_service = service, srv_instance = instance, srv_node = node_id, srv_port = port\<rparr>;
               s = s\<lparr>heap_script := al, brk := sp + 1, server_mem := (server_mem s)(sp \<mapsto> srv)\<rparr>
           in do {
             (np, s) \<leftarrow> node_get node_id s;
             (case np of
                None \<Rightarrow> do { s \<leftarrow> free_server sp s; Some (None, s) }
              | Some p \<Rightarrow> do {
                  nd \<leftarrow> node_mem s p;
                  (rc, mi, m, al) \<leftarrow> map_reput (heap_script s) (nd_services nd) (hash_u32 port) (Some sp);
                  let s = s\<lparr>node_mem := (node_mem s)(p \<mapsto> nd\<lparr>nd_services := m\<rparr>), heap_script := al\<rparr>;
                  (if rc \<noteq> 0 then do { s \<leftarrow> free_server sp s; Some (None, s) }
                   else (case mi of
                      Some old \<Rightarrow> do { s \<leftarrow> free_server old s; Some (Some sp, s) }
                    | None \<Rightarrow> Some (Some sp, s))) }) })))"

text \<open>
  The observer loop of \<open>server_del\<close> over \<open>ctx->lookups\<close>: an observer is skipped if it names
  another service or another instance (zero matches everything).
\<close>

fun server_del_notify :: "lookup list \<Rightarrow> ptr \<Rightarrow> ns_state \<Rightarrow> ns_state option" where
  "server_del_notify [] sp s = Some s"
| "server_del_notify (lk # lks) sp s = do {
     srv \<leftarrow> server_mem s sp;
     (if lk_service lk \<noteq> 0 \<and> lk_service lk \<noteq> srv_service srv then server_del_notify lks sp s
      else if lk_instance lk \<noteq> 0 \<and> lk_instance lk \<noteq> srv_instance srv then server_del_notify lks sp s
      else do {
        (_, s) \<leftarrow> lookup_notify (lk_sq lk) (Some sp) False s;
        server_del_notify lks sp s }) }"

text \<open>
  \<open>srv->mi.key\<close> is the key the item was stored and found under.
\<close>

definition server_del :: "ptr \<Rightarrow> u32 \<Rightarrow> ns_state \<Rightarrow> (int \<times> ns_state) option" where
  "server_del np port s = do {
     nd \<leftarrow> node_mem s np;
     mi \<leftarrow> map_get (nd_services nd) (hash_u32 port);
     (case mi of
        None \<Rightarrow> Some (- ENOENT, s)
      | Some sp \<Rightarrow> do {
          srv \<leftarrow> server_mem s sp;
          (_, m) \<leftarrow> map_remove (nd_services nd) (hash_u32 port);
          let s = s\<lparr>node_mem := (node_mem s)(np \<mapsto> nd\<lparr>nd_services := m\<rparr>)\<rparr>;
          (_, s) \<leftarrow> (if srv_node srv = local_node s then service_announce_del (bcast_sq s) sp s
             else Some (0, s));
          s \<leftarrow> server_del_notify (lookups s) sp s;
          s \<leftarrow> free_server sp s;
          Some (0, s) }) }"

section \<open>Command handlers\<close>

definition ctrl_cmd_hello :: "sockaddr_qrtr \<Rightarrow> u8 list \<Rightarrow> ns_state \<Rightarrow> (int \<times> ns_state) option" where
  "ctrl_cmd_hello sq buf s =
     (case sys_sendto sq buf s of (rc, s) \<Rightarrow> if rc > 0 then annouce_servers sq s else Some (rc, s))"

text \<open>The loop that sends one packet to every local service.\<close>

definition propagate :: "ctrl_pkt \<Rightarrow> ptr \<Rightarrow> ns_state \<Rightarrow> (unit option \<times> ns_state) option" where
  "propagate pkt = (\<lambda>sp s. do {
     srv \<leftarrow> server_mem s sp;
     let sq = \<lparr>sq_family = AF_QIPCRTR, sq_node = srv_node srv, sq_port = srv_port srv\<rparr>;
     Some (None, snd (sys_sendto sq (pkt_bytes (host_be s) pkt) s)) })"

definition ctrl_cmd_bye :: "sockaddr_qrtr \<Rightarrow> ns_state \<Rightarrow> (int \<times> ns_state) option" where
  "ctrl_cmd_bye from s = do {
     (np, s) \<leftarrow> node_get (sq_node from) s;
     (case np of
        None \<Rightarrow> Some (0, s)
      | Some p \<Rightarrow> do {
          (_, s) \<leftarrow> map_for_each (services_of p)
            (\<lambda>sp s. do {
               srv \<leftarrow> server_mem s sp;
               (_, s) \<leftarrow> server_del p (srv_port srv) s;
               Some (None :: unit option, s) }) s;
          (lp, s) \<leftarrow> node_get (local_node s) s;
          (case lp of
             None \<Rightarrow> Some (0, s)
           | Some p' \<Rightarrow> do {
               let pkt = zero_pkt\<lparr>pkt_cmd := QRTR_TYPE_BYE, pkt_w0 := sq_node from\<rparr>;
               (_, s) \<leftarrow> map_for_each (services_of p') (propagate pkt) s;
               Some (0, s) }) }) }"

text \<open>The deletion loop over \<open>ctx->lookups\<close> in \<open>ctrl_cmd_del_client\<close>.\<close>

fun del_client_lookups :: "u32 \<Rightarrow> u32 \<Rightarrow> lookup list \<Rightarrow> lookup list" where
  "del_client_lookups node_id port [] = []"
| "del_client_lookups node_id port (lk # lks) =
     (if sq_node (lk_sq lk) \<noteq> node_id then lk # del_client_lookups node_id port lks
      else if sq_port (lk_sq lk) \<noteq> port then lk # del_client_lookups node_id port lks
      else del_client_lookups node_id port lks)"

text \<open>
  The packet of \<open>ctrl_cmd_del_client\<close> is not initialised: its last two words are whatever the
  stack holds.
\<close>

definition ctrl_cmd_del_client :: "sockaddr_qrtr \<Rightarrow> u32 \<Rightarrow> u32 \<Rightarrow> ns_state \<Rightarrow> (int \<times> ns_state) option" where
  "ctrl_cmd_del_client from node_id port s =
     (if sq_node from \<noteq> node_id then Some (- EINVAL, s)
      else if sq_node from = local_node s \<and> sq_port from \<noteq> port then Some (- EINVAL, s)
      else do {
        let s = s\<lparr>lookups := del_client_lookups node_id port (lookups s)\<rparr>;
        (np, s) \<leftarrow> node_get node_id s;
        s \<leftarrow> (case np of
           None \<Rightarrow> Some s
         | Some p \<Rightarrow> map_option snd (server_del p port s));
        (lp, s) \<leftarrow> node_get (local_node s) s;
        (case lp of
           None \<Rightarrow> Some (0, s)
         | Some p' \<Rightarrow> do {
             let pkt = \<lparr>pkt_cmd = QRTR_TYPE_DEL_CLIENT, pkt_w0 = node_id, pkt_w1 = port,
               pkt_w2 = fst (stack_junk s), pkt_w3 = snd (stack_junk s)\<rparr>;
             (_, s) \<leftarrow> map_for_each (services_of p') (propagate pkt) s;
             Some (0, s) }) })"

text \<open>The observer loop of \<open>ctrl_cmd_new_server\<close>.\<close>

fun new_server_notify :: "lookup list \<Rightarrow> u32 \<Rightarrow> u32 \<Rightarrow> ptr \<Rightarrow> ns_state \<Rightarrow> ns_state option" where
  "new_server_notify [] service instance sp s = Some s"
| "new_server_notify (lk # lks) service instance sp s =
     (if lk_service lk \<noteq> 0 \<and> lk_service lk \<noteq> service then new_server_notify lks service instance sp s
      else if lk_instance lk \<noteq> 0 \<and> lk_instance lk \<noteq> instance then new_server_notify lks service instance sp s
      else do {
        (_, s) \<leftarrow> lookup_notify (lk_sq lk) (Some sp) True s;
        new_server_notify lks service instance sp s })"

definition ctrl_cmd_new_server ::
  "sockaddr_qrtr \<Rightarrow> u32 \<Rightarrow> u32 \<Rightarrow> u32 \<Rightarrow> u32 \<Rightarrow> ns_state \<Rightarrow> (int \<times> ns_state) option" where
  "ctrl_cmd_new_server from service instance node_id port s =
     (let (node_id, port) = (if sq_node from = local_node s then (sq_node from, sq_port from)
        else (node_id, port)) in
      if sq_node from \<noteq> node_id then Some (- EINVAL, s)
      else do {
        (sp, s) \<leftarrow> server_add service instance node_id port s;
        (case sp of
           None \<Rightarrow> Some (- EINVAL, s)
         | Some sp \<Rightarrow> do {
             srv \<leftarrow> server_mem s sp;
             (rc, s) \<leftarrow> (if srv_node srv = local_node s then service_announce_new (bcast_sq s) sp s
                else Some (0, s));
             s \<leftarrow> new_server_notify (lookups s) service instance sp s;
             Some (rc, s) }) })"

definition ctrl_cmd_del_server ::
  "sockaddr_qrtr \<Rightarrow> u32 \<Rightarrow> u32 \<Rightarrow> u32 \<Rightarrow> u32 \<Rightarrow> ns_state \<Rightarrow> (int \<times> ns_state) option" where
  "ctrl_cmd_del_server from service instance node_id port s =
     (let (node_id, port) = (if sq_node from = local_node s then (sq_node from, sq_port from)
        else (node_id, port)) in
      if sq_node from \<noteq> node_id then Some (- EINVAL, s)
      else if sq_node from = local_node s \<and> sq_port from \<noteq> port then Some (- EINVAL, s)
      else do {
        (np, s) \<leftarrow> node_get node_id s;
        (case np of
           None \<Rightarrow> Some (- ENOENT, s)
         | Some p \<Rightarrow> server_del p port s) })"

text \<open>The reply loop of \<open>ctrl_cmd_new_lookup\<close>.\<close>

fun lookup_reply :: "sockaddr_qrtr \<Rightarrow> ptr list \<Rightarrow> ns_state \<Rightarrow> ns_state option" where
  "lookup_reply from [] s = Some s"
| "lookup_reply from (sp # sps) s = do {
     (_, s) \<leftarrow> lookup_notify from (Some sp) True s;
     lookup_reply from sps s }"

definition ctrl_cmd_new_lookup :: "sockaddr_qrtr \<Rightarrow> u32 \<Rightarrow> u32 \<Rightarrow> ns_state \<Rightarrow> (int \<times> ns_state) option" where
  "ctrl_cmd_new_lookup from service instance s =
     (if sq_node from \<noteq> local_node s then Some (- EINVAL, s)
      else (case alloc (heap_script s) of
        (False, al) \<Rightarrow> Some (- EINVAL, s\<lparr>heap_script := al\<rparr>)
      | (True, al) \<Rightarrow> do {
          let lk = \<lparr>lk_service = service, lk_instance = instance, lk_sq = from\<rparr>;
          let s = s\<lparr>heap_script := al, lookups := lookups s @ [lk]\<rparr>;
          let filter = \<lparr>f_service = service, f_instance = instance, f_ifilter = 0\<rparr>;
          (_, reply_list) \<leftarrow> server_query filter s;
          s \<leftarrow> lookup_reply from reply_list s;
          (_, s) \<leftarrow> lookup_notify from None True s;
          Some (0, s) }))"

text \<open>The deletion loop of \<open>ctrl_cmd_del_lookup\<close>.\<close>

fun del_lookup_lookups :: "sockaddr_qrtr \<Rightarrow> u32 \<Rightarrow> u32 \<Rightarrow> lookup list \<Rightarrow> lookup list" where
  "del_lookup_lookups from service instance [] = []"
| "del_lookup_lookups from service instance (lk # lks) =
     (if sq_node (lk_sq lk) \<noteq> sq_node from then lk # del_lookup_lookups from service instance lks
      else if sq_port (lk_sq lk) \<noteq> sq_port from then lk # del_lookup_lookups from service instance lks
      else if lk_service lk \<noteq> service then lk # del_lookup_lookups from service instance lks
      else if lk_instance lk \<noteq> 0 \<and> lk_instance lk \<noteq> instance
        then lk # del_lookup_lookups from service instance lks
      else del_lookup_lookups from service instance lks)"

definition ctrl_cmd_del_lookup :: "sockaddr_qrtr \<Rightarrow> u32 \<Rightarrow> u32 \<Rightarrow> ns_state \<Rightarrow> (int \<times> ns_state) option" where
  "ctrl_cmd_del_lookup from service instance s =
     Some (0, s\<lparr>lookups := del_lookup_lookups from service instance (lookups s)\<rparr>)"

section \<open>The control port\<close>

text \<open>
  One wake-up of the control socket: the outcome of \<open>recvfrom\<close> and the contents the stack buffer
  had before. The buffer holds the datagram followed by the stale bytes.
\<close>

record rx =
  rx_error :: bool
  rx_from :: sockaddr_qrtr
  rx_data :: "u8 list"
  rx_stale :: "u8 list"

definition rx_buf :: "rx \<Rightarrow> u8 list" where
  "rx_buf r = rx_data r @ drop (length (rx_data r)) (rx_stale r)"

text \<open>What \<open>recvfrom\<close> guarantees: at most the 4096 bytes of the buffer are written.\<close>

definition rx_valid :: "rx \<Rightarrow> bool" where
  "rx_valid r \<longleftrightarrow> length (rx_data r) \<le> 4096 \<and> length (rx_stale r) = 4096"

definition ctrl_port_fn :: "rx \<Rightarrow> ns_state \<Rightarrow> (int \<times> ns_state) option" where
  "ctrl_port_fn r s =
     (let sq = rx_from r;
          len = (if rx_error r then - 1 else int (length (rx_data r))) in
      if len \<le> 0 then Some (0, s\<lparr>ctx_sock := - 1\<rparr>)
      else if len < 4 then Some (0, s)
      else
        (let msg = pkt_of_bytes (host_be s) (rx_buf r);
             cmd = le32_to_cpu (host_be s) (pkt_cmd msg);
             w0 = le32_to_cpu (host_be s) (pkt_w0 msg);
             w1 = le32_to_cpu (host_be s) (pkt_w1 msg);
             w2 = le32_to_cpu (host_be s) (pkt_w2 msg);
             w3 = le32_to_cpu (host_be s) (pkt_w3 msg) in
         if cmd = QRTR_TYPE_HELLO then ctrl_cmd_hello sq (rx_data r) s
         else if cmd = QRTR_TYPE_BYE then ctrl_cmd_bye sq s
         else if cmd = QRTR_TYPE_DEL_CLIENT then ctrl_cmd_del_client sq w0 w1 s
         else if cmd = QRTR_TYPE_NEW_SERVER then ctrl_cmd_new_server sq w0 w1 w2 w3 s
         else if cmd = QRTR_TYPE_DEL_SERVER then ctrl_cmd_del_server sq w0 w1 w2 w3 s
         else if cmd = QRTR_TYPE_EXIT \<or> cmd = QRTR_TYPE_PING \<or> cmd = QRTR_TYPE_RESUME_TX then Some (0, s)
         else if cmd = QRTR_TYPE_NEW_LOOKUP then ctrl_cmd_new_lookup sq w0 w1 s
         else if cmd = QRTR_TYPE_DEL_LOOKUP then ctrl_cmd_del_lookup sq w0 w1 s
         else Some (0, s)))"

section \<open>Start, main loop and exit\<close>

definition say_hello :: "ns_state \<Rightarrow> int \<times> ns_state" where
  "say_hello s =
     (let pkt = zero_pkt\<lparr>pkt_cmd := cpu_to_le32 (host_be s) QRTR_TYPE_HELLO\<rparr> in
      case sys_sendto (bcast_sq s) (pkt_bytes (host_be s) pkt) s of
        (rc, s) \<Rightarrow> if rc < 0 then (rc, s) else (0, s))"

text \<open>
  \<open>main\<close> from \<open>list_init\<close> to \<open>say_hello\<close>, with the outcomes of \<open>socket\<close>, \<open>getsockname\<close> and
  \<open>bind\<close> as arguments; \<open>Inl code\<close> is \<open>exit(code)\<close>. A name server that is already running
  (\<open>EADDRINUSE\<close>) goes dormant; the model has that as \<open>Inl (- 1)\<close>.
\<close>

definition EADDRINUSE :: int where "EADDRINUSE = 98"

definition ns_main_start ::
  "int \<Rightarrow> int \<Rightarrow> sockaddr_qrtr \<Rightarrow> int \<Rightarrow> int \<Rightarrow> ns_state \<Rightarrow> int + ns_state" where
  "ns_main_start sock_rc name_rc name bind_rc err s =
     (let s = s\<lparr>lookups := [], nodes := snd (map_create (nodes s)), ctx_sock := sock_rc\<rparr> in
      if sock_rc < 0 then Inl 1
      else if name_rc < 0 then Inl 1
      else
        (let s = s\<lparr>local_node := sq_node name\<rparr> in
         if bind_rc < 0 then (if err = EADDRINUSE then Inl (- 1) else Inl 1)
         else
           (let s = s\<lparr>bcast_sq := \<lparr>sq_family = AF_QIPCRTR, sq_node = QRTR_NODE_BCAST, sq_port = QRTR_PORT_CTRL\<rparr>\<rparr> in
            case say_hello s of (rc, s) \<Rightarrow> if rc \<noteq> 0 then Inl 1 else Inr s)))"

text \<open>The main loop over a list of wake-ups: it ends when the socket was closed.\<close>

fun ns_main_loop :: "rx list \<Rightarrow> ns_state \<Rightarrow> ns_state option" where
  "ns_main_loop [] s = Some s"
| "ns_main_loop (r # rs) s =
     (if ctx_sock s \<ge> 0 then do { (rc, s) \<leftarrow> ctrl_port_fn r s; ns_main_loop rs s } else Some s)"

definition server_mi_free :: "ptr \<Rightarrow> ns_state \<Rightarrow> ns_state option" where
  "server_mi_free mi s = free_server mi s"

definition node_mi_free :: "ptr \<Rightarrow> ns_state \<Rightarrow> ns_state option" where
  "node_mi_free mi s = do {
     nd \<leftarrow> node_mem s mi;
     (m, s) \<leftarrow> map_clear server_mi_free (nd_services nd) s;
     let s = s\<lparr>node_mem := (node_mem s)(mi \<mapsto> nd\<lparr>nd_services := map_destroy m\<rparr>)\<rparr>;
     free_node mi s }"

definition ns_main_exit :: "ns_state \<Rightarrow> ns_state option" where
  "ns_main_exit s = do {
     (m, s) \<leftarrow> map_clear node_mi_free (nodes s) s;
     Some (s\<lparr>nodes := map_destroy m\<rparr>) }"

end
