(* ===== verification/Name_Server_Inv.thy ===== *)
theory Name_Server_Inv
  imports Name_Server Hashmap_Iter
begin

text \<open>
  The invariant of the name server and its preservation by the pieces the command handlers are
  made of. The node table is an exact map from hashed node ids to distinct allocated nodes; every
  item of a service table is an allocated server of that node under its hashed port, and no
  server is in two slots. Nothing is said about the keys of a service table being different,
  because the code does not keep that.
\<close>

section \<open>The invariant\<close>

definition server_ok :: "(ptr \<Rightarrow> server option) \<Rightarrow> u32 \<Rightarrow> u32 \<times> ptr \<Rightarrow> bool" where
  "server_ok sm nid e \<longleftrightarrow> (case sm (snd e) of None \<Rightarrow> False
     | Some srv \<Rightarrow> fst e = hash_u32 (srv_port srv) \<and> srv_node srv = nid \<and>
         srv_service srv \<noteq> 0 \<and> srv_port srv \<noteq> 0)"

definition services_ok :: "(ptr \<Rightarrow> server option) \<Rightarrow> node \<Rightarrow> bool" where
  "services_ok sm nd \<longleftrightarrow> map_wf (nd_services nd) \<and> distinct (map snd (entries (nd_services nd))) \<and>
     (\<forall>e \<in> set (entries (nd_services nd)). server_ok sm (nd_id nd) e)"

definition node_ok :: "(ptr \<Rightarrow> node option) \<Rightarrow> (ptr \<Rightarrow> server option) \<Rightarrow> u32 \<times> ptr \<Rightarrow> bool" where
  "node_ok nm sm e \<longleftrightarrow> (case nm (snd e) of None \<Rightarrow> False
     | Some nd \<Rightarrow> fst e = hash_u32 (nd_id nd) \<and> services_ok sm nd)"

definition tables_wf :: "ptr hmap \<Rightarrow> (ptr \<Rightarrow> node option) \<Rightarrow> (ptr \<Rightarrow> server option) \<Rightarrow> ptr \<Rightarrow> bool" where
  "tables_wf ns nm sm b \<longleftrightarrow> map_wf ns \<and> map_uniq ns \<and> no_tombs ns \<and> distinct (map snd (entries ns)) \<and>
     (\<forall>e \<in> set (entries ns). node_ok nm sm e) \<and>
     (\<forall>p. nm p \<noteq> None \<longrightarrow> p < b) \<and> (\<forall>q. sm q \<noteq> None \<longrightarrow> q < b)"

definition ns_wf :: "ns_state \<Rightarrow> bool" where
  "ns_wf s \<longleftrightarrow> tables_wf (nodes s) (node_mem s) (server_mem s) (brk s)"

text \<open>Room for \<open>n\<close> more growth steps of every table below the \<open>int\<close> range.\<close>

definition bound_tables :: "nat \<Rightarrow> ptr hmap \<Rightarrow> (ptr \<Rightarrow> node option) \<Rightarrow> bool" where
  "bound_tables n ns nm \<longleftrightarrow> unat (msize ns) + 256 * n < 2 ^ 31 \<and>
     (\<forall>p nd. nm p = Some nd \<longrightarrow> unat (msize (nd_services nd)) + 256 * n < 2 ^ 31)"

definition ns_bound :: "nat \<Rightarrow> ns_state \<Rightarrow> bool" where
  "ns_bound n s \<longleftrightarrow> bound_tables n (nodes s) (node_mem s)"

lemma bound_tables_mono: "bound_tables n ns nm \<Longrightarrow> m \<le> n \<Longrightarrow> bound_tables m ns nm"
  unfolding bound_tables_def
  by (meson add_le_cancel_left le_less_trans mult_le_mono2)

lemma ns_bound_mono: "ns_bound n s \<Longrightarrow> m \<le> n \<Longrightarrow> ns_bound m s"
  unfolding ns_bound_def by (rule bound_tables_mono)

section \<open>Sending\<close>

text \<open>Sending only extends the datagram list and uses up the script.\<close>

definition send_all :: "(sockaddr_qrtr \<times> u8 list) list \<Rightarrow> ns_state \<Rightarrow> ns_state" where
  "send_all ds s = s\<lparr>sent := sent s @ ds, send_script := drop (length ds) (send_script s)\<rparr>"

definition send_rc :: "u8 list \<Rightarrow> ns_state \<Rightarrow> int" where
  "send_rc bs s = (case send_script s of [] \<Rightarrow> int (length bs) | r # rs \<Rightarrow> r)"

lemma sys_sendto_eq: "sys_sendto d bs s = (send_rc bs s, send_all [(d, bs)] s)"
  by (cases "send_script s") (simp_all add: sys_sendto_def send_rc_def send_all_def)

lemma send_all_simps [simp]:
  "ctx_sock (send_all ds s) = ctx_sock s" "local_node (send_all ds s) = local_node s"
  "bcast_sq (send_all ds s) = bcast_sq s" "lookups (send_all ds s) = lookups s"
  "nodes (send_all ds s) = nodes s" "node_mem (send_all ds s) = node_mem s"
  "server_mem (send_all ds s) = server_mem s" "brk (send_all ds s) = brk s"
  "heap_script (send_all ds s) = heap_script s" "host_be (send_all ds s) = host_be s"
  "stack_junk (send_all ds s) = stack_junk s" "sent (send_all ds s) = sent s @ ds"
  by (simp_all add: send_all_def)

lemma send_all_Nil [simp]: "send_all [] s = s"
  by (simp add: send_all_def)

lemma send_all_send_all [simp]: "send_all es (send_all ds s) = send_all (ds @ es) s"
  by (simp add: send_all_def drop_drop add.commute)

lemma ns_wf_send_all [simp]: "ns_wf (send_all ds s) = ns_wf s"
  by (simp add: ns_wf_def)

lemma ns_bound_send_all [simp]: "ns_bound n (send_all ds s) = ns_bound n s"
  by (simp add: ns_bound_def)

section \<open>Packets\<close>

definition announce_bytes :: "bool \<Rightarrow> u32 \<Rightarrow> server \<Rightarrow> u8 list" where
  "announce_bytes be cmd srv = pkt_bytes be (server_pkt be (cpu_to_le32 be cmd) srv)"

definition notify_bytes :: "bool \<Rightarrow> u32 \<Rightarrow> server \<Rightarrow> u8 list" where
  "notify_bytes be cmd srv = pkt_bytes be (server_pkt be cmd srv)"

lemma service_announce_new_eq:
  "server_mem s sp = Some srv \<Longrightarrow> service_announce_new d sp s =
    Some (send_rc (announce_bytes (host_be s) QRTR_TYPE_NEW_SERVER srv) s,
      send_all [(d, announce_bytes (host_be s) QRTR_TYPE_NEW_SERVER srv)] s)"
  by (simp add: service_announce_new_def announce_bytes_def sys_sendto_eq Let_def)

lemma service_announce_del_eq:
  "server_mem s sp = Some srv \<Longrightarrow> service_announce_del d sp s =
    Some (send_rc (announce_bytes (host_be s) QRTR_TYPE_DEL_SERVER srv) s,
      send_all [(d, announce_bytes (host_be s) QRTR_TYPE_DEL_SERVER srv)] s)"
  by (simp add: service_announce_del_def announce_bytes_def sys_sendto_eq Let_def)

lemma lookup_notify_eq:
  "server_mem s sp = Some srv \<Longrightarrow> lookup_notify d (Some sp) new s =
    (let bs = notify_bytes (host_be s) (if new then QRTR_TYPE_NEW_SERVER else QRTR_TYPE_DEL_SERVER) srv
     in Some (send_rc bs s, send_all [(d, bs)] s))"
  by (simp add: lookup_notify_def notify_bytes_def sys_sendto_eq Let_def)

text \<open>Which observers a server concerns.\<close>

definition observes :: "u32 \<Rightarrow> u32 \<Rightarrow> lookup \<Rightarrow> bool" where
  "observes service instance lk \<longleftrightarrow> (lk_service lk = 0 \<or> lk_service lk = service) \<and>
     (lk_instance lk = 0 \<or> lk_instance lk = instance)"

definition notifications :: "bool \<Rightarrow> u32 \<Rightarrow> server \<Rightarrow> lookup list \<Rightarrow> (sockaddr_qrtr \<times> u8 list) list" where
  "notifications be cmd srv lks =
     map (\<lambda>lk. (lk_sq lk, notify_bytes be cmd srv)) (filter (observes (srv_service srv) (srv_instance srv)) lks)"

lemma server_del_notify_eq:
  "server_mem s sp = Some srv \<Longrightarrow> server_del_notify lks sp s =
    Some (send_all (notifications (host_be s) QRTR_TYPE_DEL_SERVER srv lks) s)"
  by (induction lks arbitrary: s)
    (auto simp: notifications_def observes_def lookup_notify_eq Let_def)

lemma new_server_notify_eq:
  "server_mem s sp = Some srv \<Longrightarrow>
    new_server_notify lks (srv_service srv) (srv_instance srv) sp s =
    Some (send_all (notifications (host_be s) QRTR_TYPE_NEW_SERVER srv lks) s)"
  by (induction lks arbitrary: s)
    (auto simp: notifications_def observes_def lookup_notify_eq Let_def)

lemma lookup_reply_eq:
  "\<forall>sp \<in> set sps. server_mem s sp \<noteq> None \<Longrightarrow> lookup_reply from sps s =
    Some (send_all (map (\<lambda>sp. (from, notify_bytes (host_be s) QRTR_TYPE_NEW_SERVER
      (the (server_mem s sp)))) sps) s)"
proof (induction sps arbitrary: s)
  case (Cons sp sps)
  then obtain srv where "server_mem s sp = Some srv" by auto
  with Cons show ?case by (simp add: lookup_notify_eq Let_def)
qed simp

section \<open>Nodes\<close>

lemma ns_wf_nodeD:
  assumes "ns_wf s" "(k, p) \<in> set (entries (nodes s))"
  obtains nd where "node_mem s p = Some nd" "k = hash_u32 (nd_id nd)" "services_ok (server_mem s) nd"
proof -
  have "node_ok (node_mem s) (server_mem s) (k, p)"
    using assms by (auto simp: ns_wf_def tables_wf_def)
  then show thesis using that by (auto simp: node_ok_def split: option.splits)
qed

lemma ns_wf_node_key_inj:
  assumes "ns_wf s" "(k, p) \<in> set (entries (nodes s))" "(k', p') \<in> set (entries (nodes s))"
  shows "k = k' \<longleftrightarrow> p = p'"
proof -
  have "inj_on fst (set (entries (nodes s)))" "inj_on snd (set (entries (nodes s)))"
    using assms(1) by (auto simp: ns_wf_def tables_wf_def map_uniq_def distinct_map)
  from inj_onD [OF this(1) _ assms(2,3)] inj_onD [OF this(2) _ assms(2,3)] show ?thesis by auto
qed

text \<open>The service table of a node id, empty if there is no such node, and its servers in table
  order.\<close>

definition table_of :: "ns_state \<Rightarrow> u32 \<Rightarrow> ptr hmap" where
  "table_of s nid = (case Option.bind (map_abs (nodes s) (hash_u32 nid)) (node_mem s) of
     None \<Rightarrow> \<lparr>msize = 0, mcount = 0, mdata = []\<rparr> | Some nd \<Rightarrow> nd_services nd)"

definition services :: "ns_state \<Rightarrow> u32 \<Rightarrow> server list" where
  "services s nid = map (\<lambda>e. the (server_mem s (snd e))) (entries (table_of s nid))"

lemma table_of_cong:
  "nodes s' = nodes s \<Longrightarrow> node_mem s' = node_mem s \<Longrightarrow> table_of s' = table_of s"
  by (rule ext) (simp only: table_of_def)

lemma services_cong: "table_of s' = table_of s \<Longrightarrow> server_mem s' = server_mem s \<Longrightarrow> services s' = services s"
  by (rule ext) (simp only: services_def)

lemma table_of_update [simp]:
  "table_of (s\<lparr>heap_script := al\<rparr>) = table_of s" "table_of (s\<lparr>brk := b\<rparr>) = table_of s"
  "table_of (s\<lparr>lookups := lks\<rparr>) = table_of s" "table_of (s\<lparr>ctx_sock := c\<rparr>) = table_of s"
  "table_of (s\<lparr>server_mem := sm\<rparr>) = table_of s" "table_of (send_all ds s) = table_of s"
  by (rule table_of_cong; simp)+

lemma services_update [simp]:
  "services (s\<lparr>heap_script := al\<rparr>) = services s" "services (s\<lparr>brk := b\<rparr>) = services s"
  "services (s\<lparr>lookups := lks\<rparr>) = services s" "services (s\<lparr>ctx_sock := c\<rparr>) = services s"
  "services (send_all ds s) = services s"
  by (rule services_cong; simp)+

lemma map_abs_entry: "map_uniq m \<Longrightarrow> map_abs m k = Some v \<longleftrightarrow> (k, v) \<in> set (entries m)"
  by (simp add: map_abs_def map_uniq_def)

text \<open>The effect of \<open>node_get\<close>: at most a new node without services.\<close>

definition node_grown :: "ns_state \<Rightarrow> ns_state \<Rightarrow> bool" where
  "node_grown s s' \<longleftrightarrow> s' = s\<lparr>nodes := nodes s', node_mem := node_mem s', brk := brk s',
       heap_script := heap_script s'\<rparr> \<and> table_of s' = table_of s \<and>
     (\<forall>n. ns_bound (Suc n) s \<longrightarrow> ns_bound n s') \<and> brk s \<le> brk s' \<and>
     (\<forall>p nd. node_mem s p = Some nd \<longrightarrow> node_mem s' p = Some nd) \<and>
     (alloc_all (heap_script s) \<longrightarrow> alloc_all (heap_script s'))"

lemma node_grown_simps:
  assumes "node_grown s s'"
  shows "ctx_sock s' = ctx_sock s" "local_node s' = local_node s" "bcast_sq s' = bcast_sq s"
    "lookups s' = lookups s" "server_mem s' = server_mem s" "host_be s' = host_be s"
    "stack_junk s' = stack_junk s" "sent s' = sent s" "send_script s' = send_script s"
    "table_of s' = table_of s" "services s' = services s"
proof -
  have eq: "s' = s\<lparr>nodes := nodes s', node_mem := node_mem s', brk := brk s', heap_script := heap_script s'\<rparr>"
    using assms unfolding node_grown_def by blast
  show "ctx_sock s' = ctx_sock s" by (subst eq) simp
  show "local_node s' = local_node s" by (subst eq) simp
  show "bcast_sq s' = bcast_sq s" by (subst eq) simp
  show "lookups s' = lookups s" by (subst eq) simp
  show "server_mem s' = server_mem s" by (subst eq) simp
  show "host_be s' = host_be s" by (subst eq) simp
  show "stack_junk s' = stack_junk s" by (subst eq) simp
  show "sent s' = sent s" by (subst eq) simp
  show "send_script s' = send_script s" by (subst eq) simp
  show t: "table_of s' = table_of s" using assms unfolding node_grown_def by blast
  show "services s' = services s" by (rule services_cong [OF t]) (subst eq, simp)
qed

text \<open>The insertion law in the shape the name server uses.\<close>

lemma map_reput_ns:
  assumes wf: "map_wf m" and small: "unat (msize m) + 256 < 2 ^ 31"
  obtains (failed) al' where "map_reput al m k (Some v) = Some (- 1, None, m, al')"
      "\<not> alloc_all al"
  | (inserted) old m' al' M where "map_reput al m k (Some v) = Some (0, old, m', al')" "map_wf m'"
      "unat (msize m') \<le> unat (msize m) + 256" "M \<subseteq># mset (entries m)"
      "map_uniq m \<longrightarrow> M = mset (entries m)"
      "mset (entries m') + old_mset k old = add_mset (k, v) M"
      "map_get m' k = Some (Some v)"
      "map_uniq m \<longrightarrow> no_tombs m \<longrightarrow> no_tombs m' \<and> old = map_abs m k"
      "alloc_all al \<longrightarrow> alloc_all al'"
proof (cases rule: map_reput_spec [OF wf small, of al k v])
  case (1 al')
  then show thesis by (intro failed) (auto dest: alloc_all_alloc)
next
  case (2 old m')
  have "no_tombs m' \<and> old = map_abs m k" if "map_uniq m" "no_tombs m"
    using 2(2) that map_get_abs [OF wf that(1), of k] by (simp add: put_effect_def)
  with 2 show thesis by (intro inserted [of old m' al "mset (entries m)"]) (auto simp: put_effect_def)
next
  case (3 old m0 m' al')
  have "no_tombs m' \<and> old = map_abs m k" if "map_uniq m" "no_tombs m"
    using 3 that map_get_abs [OF wf that(1), of k] map_get_same_contents [OF wf 3(4) that(1), of k]
    by (simp add: put_effect_def)
  with 3 show thesis
    by (intro inserted [of old m' al' "mset (entries m0)"])
      (auto simp: put_effect_def dest: alloc_all_alloc)
qed

definition empty_node :: "u32 \<Rightarrow> node" where
  "empty_node nid = \<lparr>nd_id = nid, nd_services = \<lparr>msize = 0, mcount = 0, mdata = []\<rparr>\<rparr>"

lemma empty_node_ok: "services_ok sm (empty_node nid)" "nd_id (empty_node nid) = nid"
    "entries (nd_services (empty_node nid)) = []"
  by (simp_all add: services_ok_def empty_node_def map_wf_def map_chain_def entries_def)

text \<open>Adding a node without services to the node table keeps the invariant.\<close>

lemma tables_wf_new_node:
  assumes wf: "tables_wf ns nm sm b" and m: "map_wf m" "no_tombs m"
    "mset (entries m) = add_mset (hash_u32 nid, b) (mset (entries ns))"
    and new: "hash_u32 nid \<notin> fst ` set (entries ns)"
  shows "tables_wf m (nm(b \<mapsto> empty_node nid)) sm (b + 1)"
proof -
  have set: "set (entries m) = insert (hash_u32 nid, b) (set (entries ns))"
    using arg_cong [OF m(3), of set_mset] by simp
  have lt: "p < b" if "(k, p) \<in> set (entries ns)" for k p
    using wf that by (force simp: tables_wf_def node_ok_def split: option.splits)
  have "mset (map fst (entries m)) = mset (hash_u32 nid # map fst (entries ns))"
    using arg_cong [OF m(3), of "image_mset fst"] by simp
  then have "distinct (map fst (entries m)) = distinct (hash_u32 nid # map fst (entries ns))"
    by (rule mset_eq_imp_distinct_iff)
  then have u: "map_uniq m" using wf new by (simp add: tables_wf_def map_uniq_def)
  have "mset (map snd (entries m)) = mset (b # map snd (entries ns))"
    using arg_cong [OF m(3), of "image_mset snd"] by simp
  then have "distinct (map snd (entries m)) = distinct (b # map snd (entries ns))"
    by (rule mset_eq_imp_distinct_iff)
  then have d: "distinct (map snd (entries m))" using wf lt by (force simp: tables_wf_def)
  have "node_ok (nm(b \<mapsto> empty_node nid)) sm e" if "e \<in> set (entries m)" for e
  proof (cases "e = (hash_u32 nid, b)")
    case True
    then show ?thesis by (simp add: node_ok_def empty_node_ok)
  next
    case False
    with that set have e: "e \<in> set (entries ns)" by auto
    with lt have "snd e \<noteq> b" by (metis less_irrefl prod.collapse)
    then show ?thesis using wf e by (simp add: tables_wf_def node_ok_def)
  qed
  then show ?thesis using wf m(1,2) u d by (auto simp: tables_wf_def less_Suc_eq)
qed

lemma node_get_found:
  assumes wf: "ns_wf s" and p: "(hash_u32 nid, p) \<in> set (entries (nodes s))"
  shows "node_get nid s = Some (Some p, s)"
proof -
  have m: "map_wf (nodes s)" "map_uniq (nodes s)" using wf by (simp_all add: ns_wf_def tables_wf_def)
  then have "map_abs (nodes s) (hash_u32 nid) = Some p" using p by (simp add: map_abs_entry)
  then show ?thesis by (simp add: node_get_def map_get_abs [OF m])
qed

lemma ns_wf_script [simp]: "ns_wf (s\<lparr>heap_script := al\<rparr>) = ns_wf s"
  by (simp add: ns_wf_def)

lemma tables_wf_brk: "tables_wf ns nm sm b \<Longrightarrow> b \<le> b' \<Longrightarrow> tables_wf ns nm sm b'"
  unfolding tables_wf_def by (meson less_le_trans)

text \<open>A call that fails has at most moved on in the heap.\<close>

lemma node_get_failed:
  assumes wf: "ns_wf s" and "\<not> alloc_all (heap_script s)" "brk s \<le> b"
    and get: "node_get nid s = Some (None, s\<lparr>heap_script := al, brk := b\<rparr>)"
  obtains r s' where "node_get nid s = Some (r, s')" "ns_wf s'" "node_grown s s'"
    "\<And>p. r = Some p \<Longrightarrow> (hash_u32 nid, p) \<in> set (entries (nodes s'))"
    "alloc_all (heap_script s) \<Longrightarrow> r \<noteq> None"
proof (rule that [OF get])
  show "ns_wf (s\<lparr>heap_script := al, brk := b\<rparr>)"
    using wf assms(3) by (auto simp: ns_wf_def intro: tables_wf_brk)
  show "node_grown s (s\<lparr>heap_script := al, brk := b\<rparr>)"
    using assms(2,3) by (auto simp: node_grown_def ns_bound_def intro: bound_tables_mono)
qed (use assms(2) in auto)

text \<open>A new node without services changes no service table.\<close>

lemma table_of_new_node:
  assumes u: "map_uniq (nodes s)" "map_uniq m'"
    and set: "set (entries m') = insert (hash_u32 nid, p) (set (entries (nodes s)))"
    and new: "hash_u32 nid \<notin> fst ` set (entries (nodes s))" "\<And>k q. (k, q) \<in> set (entries (nodes s)) \<Longrightarrow> q \<noteq> p"
    and s': "nodes s' = m'" "node_mem s' = (node_mem s)(p \<mapsto> empty_node nid)"
  shows "table_of s' n = table_of s n"
proof (cases "n = nid")
  case True
  have "map_abs m' (hash_u32 nid) = Some p" using u(2) set by (simp add: map_abs_entry)
  moreover have "map_abs (nodes s) (hash_u32 nid) = None" using new(1) by (simp add: map_abs_def map_of_eq_None_iff)
  ultimately show ?thesis using True s' by (simp add: table_of_def empty_node_def)
next
  case nn: False
  have "map_abs m' (hash_u32 n) = Some q \<longleftrightarrow> map_abs (nodes s) (hash_u32 n) = Some q" for q
    using u set nn by (simp add: map_abs_entry)
  then have "map_abs m' (hash_u32 n) = map_abs (nodes s) (hash_u32 n)" by (metis option.exhaust)
  moreover have "q \<noteq> p" if "map_abs (nodes s) (hash_u32 n) = Some q" for q
    using new(2) that u(1) by (simp add: map_abs_entry)
  ultimately show ?thesis using s' by (cases "map_abs (nodes s) (hash_u32 n)") (simp_all add: table_of_def)
qed

lemma brk_fresh: "ns_wf s \<Longrightarrow> server_mem s (brk s) = None" "ns_wf s \<Longrightarrow> node_mem s (brk s) = None"
  unfolding ns_wf_def tables_wf_def by (metis less_irrefl)+

text \<open>The new node is entered in the node table with an empty table of servers.\<close>

lemma node_inserted:
  assumes wf: "ns_wf s" and absent: "hash_u32 nid \<notin> fst ` set (entries (nodes s))"
    and m': "map_wf m'" "no_tombs m'" "unat (msize m') \<le> unat (msize (nodes s)) + 256"
      "mset (entries m') = add_mset (hash_u32 nid, brk s) (mset (entries (nodes s)))"
    and al: "alloc_all (heap_script s) \<longrightarrow> alloc_all al'"
  defines "t \<equiv> s\<lparr>heap_script := al', brk := brk s + 1, node_mem := (node_mem s)(brk s \<mapsto> empty_node nid), nodes := m'\<rparr>"
  shows "ns_wf t" "node_grown s t" "(hash_u32 nid, brk s) \<in> set (entries (nodes t))"
proof -
  note fresh = brk_fresh(2) [OF wf]
  show wf': "ns_wf t"
    using tables_wf_new_node [OF wf [unfolded ns_wf_def] m'(1,2,4) absent]
    by (simp add: ns_wf_def t_def)
  have set: "set (entries m') = insert (hash_u32 nid, brk s) (set (entries (nodes s)))"
    using arg_cong [OF m'(4), of set_mset] by simp
  then show "(hash_u32 nid, brk s) \<in> set (entries (nodes t))" by (simp add: t_def)
  have u: "map_uniq (nodes s)" "map_uniq m'" using wf wf' by (simp_all add: ns_wf_def tables_wf_def t_def)
  have "p \<noteq> brk s" if "(k, p) \<in> set (entries (nodes s))" for k p
    using ns_wf_nodeD [OF wf that] fresh by force
  then have "table_of t n = table_of s n" for n
    by (intro table_of_new_node [OF u set absent]) (simp_all add: t_def)
  moreover have "ns_bound k t" if "ns_bound (Suc k) s" for k
    using that m'(3) unfolding ns_bound_def bound_tables_def
    by (auto simp: t_def empty_node_def intro: less_trans [of _ 2147483392])
  ultimately show "node_grown s t" using fresh al by (auto simp: node_grown_def t_def)
qed

lemma node_get_spec:
  assumes wf: "ns_wf s" and bnd: "ns_bound 1 s"
  obtains r s' where "node_get nid s = Some (r, s')" "ns_wf s'" "node_grown s s'"
    "\<And>p. r = Some p \<Longrightarrow> (hash_u32 nid, p) \<in> set (entries (nodes s'))"
    "alloc_all (heap_script s) \<Longrightarrow> r \<noteq> None"
proof (cases "hash_u32 nid \<in> fst ` set (entries (nodes s))")
  case True
  then obtain p where p: "(hash_u32 nid, p) \<in> set (entries (nodes s))" by auto
  have "node_grown s s" by (auto simp: node_grown_def intro: ns_bound_mono)
  with node_get_found [OF wf p] wf p show thesis by (intro that [of "Some p" s]) auto
next
  case False
  have m: "map_wf (nodes s)" "map_uniq (nodes s)" "no_tombs (nodes s)"
    using wf by (simp_all add: ns_wf_def tables_wf_def)
  have none: "map_abs (nodes s) (hash_u32 nid) = None"
    using False by (simp add: map_abs_def map_of_eq_None_iff)
  have get: "map_get (nodes s) (hash_u32 nid) = Some None"
    by (simp add: map_get_abs [OF m(1,2)] none)
  obtain b al where al: "alloc (heap_script s) = (b, al)" by fastforce
  let ?k = "hash_u32 nid" and ?p = "brk s"
  note fresh = brk_fresh(2) [OF wf]
  have small: "unat (msize (nodes s)) + 256 < 2 ^ 31"
    using bnd by (simp add: ns_bound_def bound_tables_def)
  show thesis
  proof (cases b)
    case False
    have "\<not> alloc_all (heap_script s)" using alloc_all_alloc [OF _ al] False by auto
    moreover have "node_get nid s = Some (None, s\<lparr>heap_script := al, brk := ?p\<rparr>)"
      using get al False by (simp add: node_get_def)
    ultimately show thesis using that by (rule node_get_failed [OF wf _ order_refl])
  next
    case b: True
    show thesis
    proof (cases rule: map_reput_ns [OF m(1) small, of al ?k ?p])
      case (1 al')
      have "\<not> alloc_all (heap_script s)" using alloc_all_alloc [OF _ al] 1(2) by auto
      moreover have "node_get nid s = Some (None, s\<lparr>heap_script := al', brk := ?p + 1\<rparr>)"
        using get al b 1(1) fresh
        by (simp add: node_get_def Let_def map_put_def free_node_def fun_upd_idem)
      ultimately show thesis using that by (rule node_get_failed [OF wf _ le_add1])
    next
      case (2 old m' al' M)
      have old: "old = None" "no_tombs m'" using 2(8) m none by simp_all
      then have ms: "mset (entries m') = add_mset (?k, ?p) (mset (entries (nodes s)))"
        using 2(5,6) m(2) by simp
      have "alloc_all (heap_script s) \<longrightarrow> alloc_all al'" using alloc_all_alloc [OF _ al] 2(9) by blast
      note ins = node_inserted [OF wf False 2(2) old(2) 2(3) ms this]
      have "node_get nid s = Some (Some ?p,
          s\<lparr>heap_script := al', brk := ?p + 1, node_mem := (node_mem s)(?p \<mapsto> empty_node nid), nodes := m'\<rparr>)"
        using get al b 2(1)
        by (simp add: node_get_def Let_def map_put_def map_create_def empty_node_def)
      from this ins(1,2) show thesis by (rule that) (use ins(3) in auto)
    qed
  qed
qed

end
