(* ===== verification/Name_Server_Ops.thy ===== *)
theory Name_Server_Ops
  imports Name_Server_Inv
begin

text \<open>
  The operations of the name server on nodes and servers: what \<open>server_add\<close>, \<open>server_del\<close>,
  \<open>server_query\<close> and \<open>annouce_servers\<close> do to the directory, which datagrams they send, and that
  they keep the invariant. The handlers' lemmas rest on these.
\<close>

section \<open>The part of the state the handlers leave alone\<close>

definition ctx_eq :: "ns_state \<Rightarrow> ns_state \<Rightarrow> bool" where
  "ctx_eq s s' \<longleftrightarrow> ctx_sock s' = ctx_sock s \<and> local_node s' = local_node s \<and> bcast_sq s' = bcast_sq s \<and>
     lookups s' = lookups s \<and> host_be s' = host_be s \<and> stack_junk s' = stack_junk s"

lemma ctx_eqD:
  assumes "ctx_eq s s'"
  shows "ctx_sock s' = ctx_sock s" "local_node s' = local_node s" "bcast_sq s' = bcast_sq s"
    "lookups s' = lookups s" "host_be s' = host_be s" "stack_junk s' = stack_junk s"
  using assms by (simp_all add: ctx_eq_def)

lemma ctx_eq_refl [simp]: "ctx_eq s s" by (simp add: ctx_eq_def)

lemma ctx_eq_trans: "ctx_eq s s' \<Longrightarrow> ctx_eq s' s'' \<Longrightarrow> ctx_eq s s''"
  by (simp add: ctx_eq_def)

lemma ctx_eq_send_all [simp]: "ctx_eq s (send_all ds s') = ctx_eq s s'"
  by (simp add: ctx_eq_def)

lemma ctx_eq_update [simp]:
  "ctx_eq s (s'\<lparr>nodes := a\<rparr>) = ctx_eq s s'" "ctx_eq s (s'\<lparr>node_mem := b\<rparr>) = ctx_eq s s'"
  "ctx_eq s (s'\<lparr>server_mem := c\<rparr>) = ctx_eq s s'" "ctx_eq s (s'\<lparr>brk := d\<rparr>) = ctx_eq s s'"
  "ctx_eq s (s'\<lparr>heap_script := e\<rparr>) = ctx_eq s s'"
  by (simp_all add: ctx_eq_def)

lemma ctx_eq_node_grown: "node_grown s s' \<Longrightarrow> ctx_eq s s'"
  by (simp add: ctx_eq_def node_grown_simps)

section \<open>Updating the services of one node\<close>

lemma table_of_entry:
  assumes wf: "ns_wf s" and p: "(hash_u32 nid, p) \<in> set (entries (nodes s))" and nd: "node_mem s p = Some nd"
  shows "table_of s nid = nd_services nd" "nd_id nd = nid"
proof -
  have "map_abs (nodes s) (hash_u32 nid) = Some p"
    using wf p by (simp add: ns_wf_def tables_wf_def map_abs_entry)
  with nd show "table_of s nid = nd_services nd" by (simp add: table_of_def)
  show "nd_id nd = nid" using ns_wf_nodeD [OF wf p] nd by force
qed

lemma table_of_cases:
  assumes wf: "ns_wf s"
  obtains (none) "table_of s nid = \<lparr>msize = 0, mcount = 0, mdata = []\<rparr>" "hash_u32 nid \<notin> fst ` set (entries (nodes s))"
  | (some) p nd where "(hash_u32 nid, p) \<in> set (entries (nodes s))" "node_mem s p = Some nd" "nd_id nd = nid"
      "table_of s nid = nd_services nd" "services_ok (server_mem s) nd"
proof (cases "hash_u32 nid \<in> fst ` set (entries (nodes s))")
  case False
  then have "map_abs (nodes s) (hash_u32 nid) = None" by (simp add: map_abs_def map_of_eq_None_iff)
  with False show thesis by (intro none) (simp add: table_of_def)
next
  case True
  then obtain p where p: "(hash_u32 nid, p) \<in> set (entries (nodes s))" by auto
  obtain nd where nd: "node_mem s p = Some nd" "services_ok (server_mem s) nd"
    using ns_wf_nodeD [OF wf p] by metis
  show thesis using table_of_entry [OF wf p nd(1)] p nd by (intro some)
qed

lemma table_of_wf:
  assumes "ns_wf s"
  shows "map_wf (table_of s nid)" "distinct (map snd (entries (table_of s nid)))"
  using assms by (cases rule: table_of_cases [of s nid];
    simp add: services_ok_def map_wf_def map_chain_def entries_def)+

lemma table_entry:
  assumes "ns_wf s" "(k, q) \<in> set (entries (table_of s nid))"
  obtains srv where "server_mem s q = Some srv" "k = hash_u32 (srv_port srv)" "srv_node srv = nid"
    "srv_service srv \<noteq> 0" "srv_port srv \<noteq> 0"
proof (cases rule: table_of_cases [OF assms(1), of nid])
  case 1
  with assms(2) show thesis by (simp add: entries_def)
next
  case (2 p nd)
  then have "server_ok (server_mem s) nid (k, q)" using assms(2) by (simp add: services_ok_def)
  then show thesis using that by (auto simp: server_ok_def split: option.splits)
qed

lemma table_of_node_update:
  assumes wf: "ns_wf s" and p: "(hash_u32 nid, p) \<in> set (entries (nodes s))" and nd: "node_mem s p = Some nd"
    and s': "nodes s' = nodes s" "node_mem s' = (node_mem s)(p \<mapsto> nd\<lparr>nd_services := m\<rparr>)"
  shows "table_of s' = (table_of s)(nid := m)"
proof (rule ext)
  fix n
  have u: "map_uniq (nodes s)" using wf by (simp add: ns_wf_def tables_wf_def)
  show "table_of s' n = ((table_of s)(nid := m)) n"
  proof (cases "n = nid")
    case True
    moreover have "map_abs (nodes s) (hash_u32 nid) = Some p" using u p by (simp add: map_abs_entry)
    ultimately show ?thesis using s' by (simp add: table_of_def)
  next
    case False
    have "q \<noteq> p" if "map_abs (nodes s) (hash_u32 n) = Some q" for q
      using that u ns_wf_node_key_inj [OF wf p, of "hash_u32 n" q] False by (auto simp: map_abs_entry)
    then show ?thesis
      using False s' by (cases "map_abs (nodes s) (hash_u32 n)") (auto simp: table_of_def)
  qed
qed

lemma tables_wf_services_update:
  assumes wf: "ns_wf s" and p: "(hash_u32 nid, p) \<in> set (entries (nodes s))" and nd: "node_mem s p = Some nd"
    and ok: "services_ok sm (nd\<lparr>nd_services := m\<rparr>)"
    and other: "\<And>q srv. server_mem s q = Some srv \<Longrightarrow> srv_node srv \<noteq> nid \<Longrightarrow> sm q = Some srv"
    and dom: "\<And>q. sm q \<noteq> None \<Longrightarrow> q < b" and b: "brk s \<le> b"
  shows "tables_wf (nodes s) ((node_mem s)(p \<mapsto> nd\<lparr>nd_services := m\<rparr>)) sm b"
proof -
  note tw = wf [unfolded ns_wf_def tables_wf_def]
  have id: "nd_id nd = nid" by (rule table_of_entry(2) [OF wf p nd])
  have "node_ok ((node_mem s)(p \<mapsto> nd\<lparr>nd_services := m\<rparr>)) sm (k, q)"
    if e: "(k, q) \<in> set (entries (nodes s))" for k q
  proof (cases "q = p")
    case True
    then have "k = hash_u32 nid" using ns_wf_node_key_inj [OF wf p e] by auto
    then show ?thesis using True ok id by (simp add: node_ok_def)
  next
    case False
    obtain nd' where nd': "node_mem s q = Some nd'" "k = hash_u32 (nd_id nd')" "services_ok (server_mem s) nd'"
      using ns_wf_nodeD [OF wf e] .
    have "nd_id nd' \<noteq> nid" using ns_wf_node_key_inj [OF wf p e] False nd'(2) by auto
    then have "server_ok sm (nd_id nd') e'" if "server_ok (server_mem s) (nd_id nd') e'" for e'
      using that by (auto simp: server_ok_def dest: other split: option.splits)
    then have "services_ok sm nd'" using nd'(3) by (simp add: services_ok_def)
    then show ?thesis using False nd' by (simp add: node_ok_def)
  qed
  moreover have "q < b" if "((node_mem s)(p \<mapsto> nd\<lparr>nd_services := m\<rparr>)) q \<noteq> None" for q
  proof -
    have "node_mem s q \<noteq> None" using that nd by (cases "q = p") auto
    then show ?thesis using tw b by (meson less_le_trans)
  qed
  ultimately show ?thesis using tw dom unfolding tables_wf_def by auto
qed

section \<open>Deleting a server\<close>

definition del_packets :: "ns_state \<Rightarrow> server \<Rightarrow> (sockaddr_qrtr \<times> u8 list) list" where
  "del_packets s srv =
     (if srv_node srv = local_node s
      then [(bcast_sq s, announce_bytes (host_be s) QRTR_TYPE_DEL_SERVER srv)] else []) @
     notifications (host_be s) QRTR_TYPE_DEL_SERVER srv (lookups s)"

lemma del_packets_cong: "ctx_eq s s' \<Longrightarrow> del_packets s' = del_packets s"
  by (rule ext) (simp add: ctx_eq_def del_packets_def)

lemma map_remove_slot: "map_remove m k = Some (0, m') \<Longrightarrow> \<exists>i. mdata m' = (mdata m)[i := Deleted]"
  by (auto simp: map_remove_def split: option.splits)

lemma server_del_spec:
  assumes wf: "ns_wf s" and p: "(hash_u32 nid, np) \<in> set (entries (nodes s))"
  obtains (absent) "server_del np port s = Some (- ENOENT, s)"
      "hash_u32 port \<notin> fst ` set (entries (table_of s nid))"
  | (present) nd sp srv m' where "node_mem s np = Some nd" "nd_id nd = nid" "table_of s nid = nd_services nd"
      "map_remove (table_of s nid) (hash_u32 port) = Some (0, m')"
      "map_get (table_of s nid) (hash_u32 port) = Some (Some sp)"
      "map_wf m'" "msize m' = msize (table_of s nid)"
      "add_mset (hash_u32 port, sp) (mset (entries m')) = mset (entries (table_of s nid))"
      "server_mem s sp = Some srv" "srv_port srv = port" "srv_node srv = nid"
      "server_del np port s = Some (0, send_all (del_packets s srv)
        (s\<lparr>node_mem := (node_mem s)(np \<mapsto> nd\<lparr>nd_services := m'\<rparr>),
           server_mem := (server_mem s)(sp := None)\<rparr>))"
proof -
  obtain nd where nd: "node_mem s np = Some nd" "services_ok (server_mem s) nd"
    using ns_wf_nodeD [OF wf p] by metis
  note t = table_of_entry [OF wf p nd(1)]
  have mwf: "map_wf (nd_services nd)" using nd(2) by (simp add: services_ok_def)
  show thesis
  proof (cases rule: map_remove_cases [OF mwf, of "hash_u32 port"])
    case 1
    then show thesis using nd t by (intro absent) (simp_all add: server_del_def)
  next
    case (2 sp m')
    have e: "(hash_u32 port, sp) \<in> set (entries (nd_services nd))"
      using arg_cong [OF 2(5), of set_mset] by auto
    then have "server_ok (server_mem s) nid (hash_u32 port, sp)"
      using nd(2) t(2) by (simp add: services_ok_def)
    then obtain srv where srv: "server_mem s sp = Some srv" "srv_port srv = port" "srv_node srv = nid"
      by (auto simp: server_ok_def split: option.splits)
    let ?s = "s\<lparr>node_mem := (node_mem s)(np \<mapsto> nd\<lparr>nd_services := m'\<rparr>)\<rparr>"
    have "server_del np port s = Some (0, send_all (del_packets s srv)
        (s\<lparr>node_mem := (node_mem s)(np \<mapsto> nd\<lparr>nd_services := m'\<rparr>),
           server_mem := (server_mem s)(sp := None)\<rparr>))"
      using 2(1,2) nd(1) srv(1)
      by (simp add: server_del_def Let_def service_announce_del_eq server_del_notify_eq free_server_def
          del_packets_def send_all_def)
    with 2 nd(1) srv t show thesis by (intro present) simp_all
  qed
qed

text \<open>The store after a deletion.\<close>

lemma server_del_store:
  assumes wf: "ns_wf s" and p: "(hash_u32 nid, np) \<in> set (entries (nodes s))" and nd: "node_mem s np = Some nd"
    and m': "map_wf m'" "add_mset (hash_u32 port, sp) (mset (entries m')) = mset (entries (table_of s nid))"
    and sp: "server_mem s sp = Some srv" "srv_node srv = nid"
    and s': "s' = send_all ds (s\<lparr>node_mem := (node_mem s)(np \<mapsto> nd\<lparr>nd_services := m'\<rparr>),
      server_mem := (server_mem s)(sp := None)\<rparr>)"
  shows "ns_wf s'" "table_of s' = (table_of s)(nid := m')" "ctx_eq s s'"
    "add_mset srv (mset (services s' nid)) = mset (services s nid)"
    "\<And>n. n \<noteq> nid \<Longrightarrow> services s' n = services s n"
proof -
  note t = table_of_entry [OF wf p nd]
  have ok: "services_ok (server_mem s) nd" using ns_wf_nodeD [OF wf p] nd by force
  have "mset (sp # map snd (entries m')) = mset (map snd (entries (nd_services nd)))"
    using arg_cong [OF m'(2), of "image_mset snd"] t by simp
  then have "distinct (sp # map snd (entries m')) = distinct (map snd (entries (nd_services nd)))"
    by (rule mset_eq_imp_distinct_iff)
  then have d: "sp \<notin> snd ` set (entries m')" "distinct (map snd (entries m'))"
    using ok by (simp_all add: services_ok_def)
  have sub: "set (entries m') \<subseteq> set (entries (nd_services nd))"
    using arg_cong [OF m'(2), of set_mset] t by auto
  have "services_ok ((server_mem s)(sp := None)) (nd\<lparr>nd_services := m'\<rparr>)"
    using ok d sub m'(1) by (force simp: services_ok_def server_ok_def)
  then have "tables_wf (nodes s) ((node_mem s)(np \<mapsto> nd\<lparr>nd_services := m'\<rparr>))
      ((server_mem s)(sp := None)) (brk s)"
    by (rule tables_wf_services_update [OF wf p nd])
      (use wf sp in \<open>auto simp: ns_wf_def tables_wf_def split: if_splits\<close>)
  then show "ns_wf s'" by (simp add: s' ns_wf_def)
  show tab: "table_of s' = (table_of s)(nid := m')"
    by (rule table_of_node_update [OF wf p nd]) (simp_all add: s')
  show "ctx_eq s s'" by (simp add: s')
  have eq: "map (\<lambda>e. the (server_mem s' (snd e))) (entries m') = map (\<lambda>e. the (server_mem s (snd e))) (entries m')"
    using d(1) by (auto simp: s')
  then have "services s' nid = map (\<lambda>e. the (server_mem s (snd e))) (entries m')"
    by (simp add: services_def tab)
  then show "add_mset srv (mset (services s' nid)) = mset (services s nid)"
    using arg_cong [OF m'(2), of "image_mset (\<lambda>e. the (server_mem s (snd e)))"] sp
    by (simp add: services_def)
  fix n assume n: "n \<noteq> nid"
  have "the (server_mem s' q) = the (server_mem s q)" if e: "(k, q) \<in> set (entries (table_of s n))" for k q
    by (rule table_entry [OF wf e]) (use sp n in \<open>auto simp: s'\<close>)
  with n show "services s' n = services s n" by (auto simp: services_def tab)
qed

section \<open>Adding a server\<close>

lemma distinct_sub_mset: "mset xs \<subseteq># mset ys \<Longrightarrow> distinct ys \<Longrightarrow> distinct xs"
  by (metis distinct_append mset_append mset_eq_imp_distinct_iff subset_mset.le_iff_add ex_mset)

lemma ns_wf_new_server:
  assumes wf: "ns_wf s"
  shows "ns_wf (s\<lparr>heap_script := al, brk := brk s + 1, server_mem := (server_mem s)(brk s \<mapsto> srv)\<rparr>)"
proof -
  have f: "server_mem s (brk s) = None" by (rule brk_fresh [OF wf])
  have ok: "server_ok ((server_mem s)(brk s \<mapsto> srv)) n e" if "server_ok (server_mem s) n e" for n e
    using that f by (auto simp: server_ok_def split: option.splits)
  then have "services_ok ((server_mem s)(brk s \<mapsto> srv)) nd" if "services_ok (server_mem s) nd" for nd
    using that by (simp add: services_ok_def)
  then have "node_ok (node_mem s) ((server_mem s)(brk s \<mapsto> srv)) e" if "node_ok (node_mem s) (server_mem s) e" for e
    using that by (auto simp: node_ok_def split: option.splits)
  then show ?thesis using wf by (auto simp: ns_wf_def tables_wf_def less_Suc_eq)
qed

text \<open>Storing a new server in the table of its node: no server is in the table twice, and the
  replaced one was.\<close>

lemma put_server_entries:
  assumes wf: "ns_wf s" and sp: "sp \<notin> snd ` set (entries (table_of s nid))"
    and m': "M \<subseteq># mset (entries (table_of s nid))" "mset (entries m') + old_mset k old = add_mset (k, sp) M"
    and get: "(k, sp) \<in> set (entries m')"
  shows "distinct (map snd (entries m'))" "set (entries m') \<subseteq> insert (k, sp) (set (entries (table_of s nid)))"
    "\<And>q. old = Some q \<Longrightarrow> q \<notin> snd ` set (entries m') \<and> (k, q) \<in> set (entries (table_of s nid)) \<and> q \<noteq> sp"
proof -
  let ?t = "entries (table_of s nid)" and ?old = "case old of None \<Rightarrow> [] | Some q \<Rightarrow> [(k, q)]"
  have o: "mset ?old = old_mset k old" by (cases old) simp_all
  have sub: "mset (entries m' @ ?old) \<subseteq># mset ((k, sp) # ?t)"
    using m' o by simp
  from image_mset_subseteq_mono [OF this, of snd]
  have "mset (map snd (entries m' @ ?old)) \<subseteq># mset (sp # map snd ?t)"
    by (simp only: mset_map) simp
  moreover have "distinct (sp # map snd ?t)" using sp table_of_wf(2) [OF wf] by simp
  ultimately have d: "distinct (map snd (entries m' @ ?old))" by (rule distinct_sub_mset)
  then show "distinct (map snd (entries m'))" by simp
  have set: "set (entries m' @ ?old) \<subseteq> insert (k, sp) (set ?t)"
    using set_mset_mono [OF sub] by simp
  then show "set (entries m') \<subseteq> insert (k, sp) (set ?t)" by simp
  fix q assume q: "old = Some q"
  then have nq: "q \<notin> snd ` set (entries m')" using d by simp
  then have "q \<noteq> sp" using get by force
  then show "q \<notin> snd ` set (entries m') \<and> (k, q) \<in> set ?t \<and> q \<noteq> sp" using nq set q by simp
qed

lemma server_add_store:
  assumes wf: "ns_wf s" and p: "(hash_u32 nid, p) \<in> set (entries (nodes s))" and nd: "node_mem s p = Some nd"
    and srv: "server_mem s sp = Some srv" "srv_node srv = nid" "srv_service srv \<noteq> 0" "srv_port srv \<noteq> 0"
    and new: "sp \<notin> snd ` set (entries (table_of s nid))"
    and k: "k = hash_u32 (srv_port srv)"
    and m': "map_wf m'" "M \<subseteq># mset (entries (table_of s nid))"
      "mset (entries m') + old_mset k old = add_mset (k, sp) M" "map_get m' k = Some (Some sp)"
    and s': "s' = s\<lparr>node_mem := (node_mem s)(p \<mapsto> nd\<lparr>nd_services := m'\<rparr>), heap_script := al,
      server_mem := (case old of None \<Rightarrow> server_mem s | Some q \<Rightarrow> (server_mem s)(q := None))\<rparr>"
  shows "ns_wf s'" "table_of s' = (table_of s)(nid := m')" "server_mem s' sp = Some srv"
    "\<And>n. n \<noteq> nid \<Longrightarrow> services s' n = services s n"
    "\<And>q. old = Some q \<Longrightarrow> server_mem s q \<noteq> None"
proof -
  have "(k, sp) \<in> set (entries m')" by (rule map_get_cases [OF m'(1), of k]) (use m'(4) in auto)
  note es = put_server_entries [OF wf new m'(2,3) this]
  have old: "\<exists>o'. server_mem s q = Some o' \<and> srv_node o' = nid" if "old = Some q" for q
    by (rule table_entry [OF wf, of k q nid]) (use es(3) that in auto)
  then show "server_mem s q \<noteq> None" if "old = Some q" for q using that by force
  show s'sp: "server_mem s' sp = Some srv" using es(3) srv by (auto simp: s' split: option.split)
  have "server_ok (server_mem s') nid e" if "e \<in> set (entries m')" for e
  proof (cases "e = (k, sp)")
    case True
    then show ?thesis using s'sp srv k by (simp add: server_ok_def)
  next
    case False
    then have e: "(fst e, snd e) \<in> set (entries (table_of s nid))" using es(2) that by auto
    have "old \<noteq> Some (snd e)" using es(3) that by force
    then have "server_mem s' (snd e) = server_mem s (snd e)" by (auto simp: s' split: option.split)
    then show ?thesis by (cases rule: table_entry [OF wf e]) (simp add: server_ok_def)
  qed
  then have "services_ok (server_mem s') (nd\<lparr>nd_services := m'\<rparr>)"
    using es(1) m'(1) table_of_entry(2) [OF wf p nd] by (simp add: services_ok_def)
  moreover have "server_mem s' q = Some srv'" if "server_mem s q = Some srv'" "srv_node srv' \<noteq> nid" for q srv'
    using that old [of q] by (cases old) (auto simp: s')
  moreover have "q < brk s" if "server_mem s' q \<noteq> None" for q
  proof -
    have "server_mem s q \<noteq> None" using that by (cases old) (auto simp: s' split: if_splits)
    then show ?thesis using wf unfolding ns_wf_def tables_wf_def by blast
  qed
  ultimately have "tables_wf (nodes s) ((node_mem s)(p \<mapsto> nd\<lparr>nd_services := m'\<rparr>)) (server_mem s') (brk s)"
    by (rule tables_wf_services_update [OF wf p nd]) (assumption | rule order_refl)+
  then show "ns_wf s'" by (simp add: s' ns_wf_def)
  show tab: "table_of s' = (table_of s)(nid := m')"
    by (rule table_of_node_update [OF wf p nd]) (simp_all add: s')
  fix n assume n: "n \<noteq> nid"
  have "server_mem s' q = server_mem s q" if e: "(k, q) \<in> set (entries (table_of s n))" for k q
    by (rule table_entry [OF wf e]) (use old n in \<open>auto simp: s' split: option.split\<close>)
  with n show "services s' n = services s n" by (auto simp: services_def tab)
qed

lemma bound_tables_update:
  assumes "bound_tables (Suc n) ns nm" "nm p = Some nd" "unat (msize m) \<le> unat (msize (nd_services nd)) + 256"
  shows "bound_tables n ns (nm(p \<mapsto> nd\<lparr>nd_services := m\<rparr>))"
proof -
  have "unat (msize (nd_services nd)) + 256 * Suc n < 2 ^ 31"
    using assms(1,2) unfolding bound_tables_def by blast
  then have "unat (msize m) + 256 * n < 2 ^ 31" using assms(3) by simp
  moreover have "bound_tables n ns nm" by (rule bound_tables_mono [OF assms(1)]) simp
  ultimately show ?thesis unfolding bound_tables_def by auto
qed

lemma ns_wf_free_unused:
  assumes wf: "ns_wf s" and unused: "\<And>n. sp \<notin> snd ` set (entries (table_of s n))"
  shows "ns_wf (s\<lparr>server_mem := (server_mem s)(sp := None)\<rparr>)"
proof -
  have "node_ok (node_mem s) ((server_mem s)(sp := None)) (k, p)" if e: "(k, p) \<in> set (entries (nodes s))" for k p
  proof -
    obtain nd where nd: "node_mem s p = Some nd" "k = hash_u32 (nd_id nd)" "services_ok (server_mem s) nd"
      using ns_wf_nodeD [OF wf e] .
    have "table_of s (nd_id nd) = nd_services nd" using table_of_entry(1) [OF wf _ nd(1)] e nd(2) by simp
    then have "\<forall>e \<in> set (entries (nd_services nd)). snd e \<noteq> sp" using unused [of "nd_id nd"] by force
    then show ?thesis using nd by (simp add: node_ok_def services_ok_def server_ok_def)
  qed
  then show ?thesis using wf by (auto simp: ns_wf_def tables_wf_def)
qed

definition added_server :: "u32 \<Rightarrow> u32 \<Rightarrow> u32 \<Rightarrow> u32 \<Rightarrow> server" where
  "added_server service instance nid port =
     \<lparr>srv_service = service, srv_instance = instance, srv_node = nid, srv_port = port\<rparr>"

lemma map_reput_uniq:
  assumes "map_wf m" "unat (msize m) + 256 < 2 ^ 31" "map_reput al m k (Some v) = Some (0, old, m', al')"
    and "map_uniq m" "map_abs m k = None \<or> no_tombs m"
  shows "map_uniq m' \<and> map_abs m' = (map_abs m)(k \<mapsto> v)"
proof -
  have "k \<notin> fst ` set (entries m) \<or> no_tombs m" using assms(5) by (simp add: map_abs_def map_of_eq_None_iff)
  from hm.put_map_of [OF assms(1) assms(4) [unfolded map_uniq_def] assms(3) _ this] assms(2)
  show ?thesis by (simp add: map_small_def map_uniq_def map_abs_def)
qed

text \<open>The state after \<open>calloc\<close> and \<open>node_get\<close>: the new server is allocated and in no table yet.\<close>

definition with_server :: "server \<Rightarrow> ns_state \<Rightarrow> ns_state \<Rightarrow> bool" where
  "with_server srv s s2 \<longleftrightarrow> ns_wf s2 \<and> server_mem s (brk s) = None \<and> server_mem s2 = (server_mem s)(brk s \<mapsto> srv) \<and>
     ctx_eq s s2 \<and> table_of s2 = table_of s \<and> sent s2 = sent s \<and> send_script s2 = send_script s \<and>
     (\<forall>n. brk s \<notin> snd ` set (entries (table_of s n))) \<and> (\<forall>n. ns_bound (Suc n) s \<longrightarrow> ns_bound n s2) \<and>
     (alloc_all (heap_script s) \<longrightarrow> alloc_all (heap_script s2))"

lemma with_serverD:
  assumes "with_server srv s s2"
  shows "ns_wf s2" "server_mem s (brk s) = None" "server_mem s2 = (server_mem s)(brk s \<mapsto> srv)" "ctx_eq s s2"
    "table_of s2 = table_of s" "sent s2 = sent s" "send_script s2 = send_script s"
    "brk s \<notin> snd ` set (entries (table_of s i))" "ns_bound (Suc n) s \<Longrightarrow> ns_bound n s2"
    "alloc_all (heap_script s) \<Longrightarrow> alloc_all (heap_script s2)" "(server_mem s2)(brk s := None) = server_mem s"
  using assms unfolding with_server_def by (auto simp: fun_upd_idem)

lemma with_server_node:
  assumes wf: "ns_wf s" and al: "alloc (heap_script s) = (True, al)"
    and g: "node_grown (s\<lparr>heap_script := al, brk := brk s + 1, server_mem := (server_mem s)(brk s \<mapsto> srv)\<rparr>) s2" "ns_wf s2"
  shows "with_server srv s s2"
proof -
  have fresh: "server_mem s (brk s) = None" by (rule brk_fresh [OF wf])
  have "brk s \<notin> snd ` set (entries (table_of s n))" for n using fresh table_entry [OF wf] by force
  moreover have "ns_bound n s2" if "ns_bound (Suc n) s" for n
    using g(1) that unfolding node_grown_def by (simp add: ns_bound_def)
  moreover have "alloc_all (heap_script s2)" if "alloc_all (heap_script s)"
    using g(1) alloc_all_alloc [OF that al] by (simp add: node_grown_def)
  ultimately show ?thesis using node_grown_simps [OF g(1)] g(2) fresh by (simp add: with_server_def ctx_eq_def)
qed

lemma server_add_start:
  assumes wf: "ns_wf s" and bnd: "ns_bound 2 s" and nz: "service \<noteq> 0" "port \<noteq> 0"
    and al: "alloc (heap_script s) = (True, al)"
  obtains (no_node) s2 where "with_server (added_server service instance nid port) s s2"
      "server_add service instance nid port s = Some (None, s2\<lparr>server_mem := server_mem s\<rparr>)"
      "\<not> alloc_all (heap_script s)"
  | (node) s2 p nd where "with_server (added_server service instance nid port) s s2"
      "(hash_u32 nid, p) \<in> set (entries (nodes s2))" "node_mem s2 p = Some nd"
      "server_add service instance nid port s = do {
         (rc, mi, m, al) \<leftarrow> map_reput (heap_script s2) (nd_services nd) (hash_u32 port) (Some (brk s));
         let s2 = s2\<lparr>node_mem := (node_mem s2)(p \<mapsto> nd\<lparr>nd_services := m\<rparr>), heap_script := al\<rparr>;
         (if rc \<noteq> 0 then do { s2 \<leftarrow> free_server (brk s) s2; Some (None, s2) }
          else (case mi of
             Some old \<Rightarrow> do { s2 \<leftarrow> free_server old s2; Some (Some (brk s), s2) }
           | None \<Rightarrow> Some (Some (brk s), s2))) }"
proof -
  let ?srv = "added_server service instance nid port"
  let ?s1 = "s\<lparr>heap_script := al, brk := brk s + 1, server_mem := (server_mem s)(brk s \<mapsto> ?srv)\<rparr>"
  have wf1: "ns_wf ?s1" by (rule ns_wf_new_server [OF wf])
  have bnd1: "ns_bound 1 ?s1" using ns_bound_mono [OF bnd, of 1] by (simp add: ns_bound_def)
  obtain r s2 where g: "node_get nid ?s1 = Some (r, s2)" "ns_wf s2" "node_grown ?s1 s2"
    "\<And>p. r = Some p \<Longrightarrow> (hash_u32 nid, p) \<in> set (entries (nodes s2))" "alloc_all al \<Longrightarrow> r \<noteq> None"
    using node_get_spec [OF wf1, of nid] bnd1 by (auto simp: numeral_2_eq_2)
  have w: "with_server ?srv s s2" by (rule with_server_node [OF wf al g(3,2)])
  show thesis
  proof (cases r)
    case None
    then have "server_add service instance nid port s = Some (None, s2\<lparr>server_mem := server_mem s\<rparr>)"
      using nz al g(1) with_serverD(3,11) [OF w] by (simp add: server_add_def Let_def added_server_def free_server_def)
    then show thesis using w None g(5) alloc_all_alloc [OF _ al] by (intro no_node) blast+
  next
    case (Some p)
    then have p: "(hash_u32 nid, p) \<in> set (entries (nodes s2))" by (rule g(4))
    then obtain nd where nd: "node_mem s2 p = Some nd" using ns_wf_nodeD [OF g(2) p] by metis
    with nz al g(1) Some show thesis
      by (intro node [OF w p nd]) (simp add: server_add_def Let_def added_server_def)
  qed
qed

text \<open>Without memory for the node or the table the new server is freed again.\<close>

lemma with_server_undone:
  fixes al :: allocs
  assumes w: "with_server srv s s2"
  defines "t \<equiv> s2\<lparr>server_mem := server_mem s, heap_script := al\<rparr>"
  shows "ns_wf t" "ctx_eq s t" "sent t = sent s" "send_script t = send_script s" "table_of t = table_of s"
    "services t = services s" "server_mem t = server_mem s" "ns_bound (Suc (Suc n)) s \<Longrightarrow> ns_bound n t"
proof -
  note D = with_serverD [OF w]
  have "brk s \<notin> snd ` set (entries (table_of s2 n))" for n using D(5,8) by simp
  from ns_wf_free_unused [OF D(1) this] show "ns_wf t" using D(11) by (simp add: t_def ns_wf_def)
  show tab: "table_of t = table_of s" using D(5) by (simp add: t_def)
  show "services t = services s" by (rule services_cong) (use tab in \<open>simp_all add: t_def\<close>)
  show "ns_bound n t" if "ns_bound (Suc (Suc n)) s"
    using ns_bound_mono [OF D(9) [OF that], of n] by (simp add: t_def ns_bound_def)
qed (use with_serverD [OF w] in \<open>simp_all add: t_def\<close>)

text \<open>Stored in the table of its node, it replaces the server of the port, if there was one.\<close>

definition stored :: "ptr \<Rightarrow> node \<Rightarrow> ptr hmap \<Rightarrow> allocs \<Rightarrow> ptr option \<Rightarrow> ns_state \<Rightarrow> ns_state" where
  "stored p nd m al old s2 = s2\<lparr>node_mem := (node_mem s2)(p \<mapsto> nd\<lparr>nd_services := m\<rparr>), heap_script := al,
     server_mem := (case old of None \<Rightarrow> server_mem s2 | Some q \<Rightarrow> (server_mem s2)(q := None))\<rparr>"

lemma with_server_stored:
  assumes w: "with_server srv s s2" and p: "(hash_u32 nid, p) \<in> set (entries (nodes s2))" and nd: "node_mem s2 p = Some nd"
    and srv: "srv_node srv = nid" "srv_service srv \<noteq> 0" "srv_port srv \<noteq> 0" and k: "k = hash_u32 (srv_port srv)"
    and m': "map_wf m'" "M \<subseteq># mset (entries (table_of s nid))"
      "mset (entries m') + old_mset k old = add_mset (k, brk s) M" "map_get m' k = Some (Some (brk s))"
  shows "ns_wf (stored p nd m' al old s2)" "table_of (stored p nd m' al old s2) = (table_of s)(nid := m')"
    "server_mem (stored p nd m' al old s2) (brk s) = Some srv"
    "\<And>n. n \<noteq> nid \<Longrightarrow> services (stored p nd m' al old s2) n = services s n"
    "\<And>q. old = Some q \<Longrightarrow> server_mem s2 q \<noteq> None"
proof -
  note D = with_serverD [OF w]
  have new: "server_mem s2 (brk s) = Some srv" "brk s \<notin> snd ` set (entries (table_of s2 nid))"
    "M \<subseteq># mset (entries (table_of s2 nid))"
    using D(3,5,8) m'(2) by simp_all
  note st = server_add_store [OF D(1) p nd new(1) srv new(2) k m'(1) new(3) m'(3,4) stored_def]
  from st show "ns_wf (stored p nd m' al old s2)" "server_mem (stored p nd m' al old s2) (brk s) = Some srv"
    "\<And>q. old = Some q \<Longrightarrow> server_mem s2 q \<noteq> None" by blast+
  from st(2) D(5) show "table_of (stored p nd m' al old s2) = (table_of s)(nid := m')" by simp
  fix n assume n: "n \<noteq> nid"
  have "the (server_mem s2 q) = the (server_mem s q)" if "(i, q) \<in> set (entries (table_of s n))" for i q
    using D(8) [of n] that D(3) by force
  then have "services s2 n = services s n" using D(5) by (auto simp: services_def)
  with st(4) [OF n] show "services (stored p nd m' al old s2) n = services s n" by simp
qed

lemma with_server_table:
  assumes w: "with_server srv s s2" and p: "(hash_u32 nid, p) \<in> set (entries (nodes s2))" and nd: "node_mem s2 p = Some nd"
    and wf: "ns_wf s" and bnd: "ns_bound 2 s"
  shows "nd_services nd = table_of s nid" "map_wf (table_of s nid)" "unat (msize (table_of s nid)) + 256 < 2 ^ 31"
proof -
  show t: "nd_services nd = table_of s nid"
    using table_of_entry(1) [OF with_serverD(1) [OF w] p nd] with_serverD(5) [OF w] by simp
  show "map_wf (table_of s nid)" by (rule table_of_wf(1) [OF wf])
  have "bound_tables 1 (nodes s2) (node_mem s2)"
    using with_serverD(9) [OF w, of 1] bnd by (simp add: ns_bound_def numeral_2_eq_2)
  then show "unat (msize (table_of s nid)) + 256 < 2 ^ 31" using nd t unfolding bound_tables_def by fastforce
qed

lemma server_add_spec:
  assumes wf: "ns_wf s" and bnd: "ns_bound 2 s"
  obtains (refused) "server_add service instance nid port s = Some (None, s)" "service = 0 \<or> port = 0"
  | (no_memory) s' where "server_add service instance nid port s = Some (None, s')" "service \<noteq> 0" "port \<noteq> 0"
      "ns_wf s'" "ctx_eq s s'" "sent s' = sent s" "send_script s' = send_script s"
      "table_of s' = table_of s" "services s' = services s" "server_mem s' = server_mem s"
      "\<And>n. ns_bound (Suc (Suc n)) s \<Longrightarrow> ns_bound n s'" "\<not> alloc_all (heap_script s)"
  | (added) sp s' m' M old where "server_add service instance nid port s = Some (Some sp, s')"
      "service \<noteq> 0" "port \<noteq> 0"
      "ns_wf s'" "ctx_eq s s'" "sent s' = sent s" "send_script s' = send_script s"
      "server_mem s' sp = Some (added_server service instance nid port)" "server_mem s sp = None"
      "table_of s' = (table_of s)(nid := m')" "\<And>n. n \<noteq> nid \<Longrightarrow> services s' n = services s n"
      "map_wf m'" "M \<subseteq># mset (entries (table_of s nid))"
      "map_uniq (table_of s nid) \<longrightarrow> M = mset (entries (table_of s nid))"
      "mset (entries m') + old_mset (hash_u32 port) old = add_mset (hash_u32 port, sp) M"
      "map_get m' (hash_u32 port) = Some (Some sp)"
      "map_uniq (table_of s nid) \<longrightarrow> no_tombs (table_of s nid) \<longrightarrow>
         no_tombs m' \<and> old = map_abs (table_of s nid) (hash_u32 port)"
      "map_uniq (table_of s nid) \<longrightarrow>
         map_abs (table_of s nid) (hash_u32 port) = None \<or> no_tombs (table_of s nid) \<longrightarrow>
         map_uniq m' \<and> map_abs m' = (map_abs (table_of s nid))(hash_u32 port \<mapsto> sp)"
      "\<And>n. ns_bound (Suc (Suc n)) s \<Longrightarrow> ns_bound n s'"
      "server_mem s' = (case old of None \<Rightarrow> (server_mem s)(sp \<mapsto> added_server service instance nid port)
         | Some q \<Rightarrow> ((server_mem s)(sp \<mapsto> added_server service instance nid port))(q := None))"
proof (cases "service = 0 \<or> port = 0")
  case True
  then show thesis by (intro refused) (auto simp: server_add_def)
next
  case False
  then have nz: "service \<noteq> 0" "port \<noteq> 0" by auto
  let ?k = "hash_u32 port" and ?srv = "added_server service instance nid port"
  obtain b al where al: "alloc (heap_script s) = (b, al)" by fastforce
  have fail: thesis if "with_server ?srv s s2" "server_add service instance nid port s =
      Some (None, s2\<lparr>server_mem := server_mem s, heap_script := al'\<rparr>)" "\<not> alloc_all (heap_script s)" for s2 al'
    by (rule no_memory [OF that(2) nz _ _ _ _ _ _ _ _ that(3)]) (use with_server_undone [OF that(1)] in auto)
  show thesis
  proof (cases b)
    case False
    have "\<not> alloc_all (heap_script s)" using alloc_all_alloc [OF _ al] False by auto
    then show thesis
      using nz al False wf by (intro no_memory [of "s\<lparr>heap_script := al\<rparr>"])
        (auto simp: server_add_def ns_bound_def intro: bound_tables_mono)
  next
    case b: True
    show thesis
    proof (cases rule: server_add_start [OF wf bnd nz al [unfolded b [THEN eqTrueI]], of "instance" nid])
      case (1 s2)
      then show thesis by (intro fail [of s2 "heap_script s2"]) simp_all
    next
      case (2 s2 p nd)
      note w = 2(1) and p = 2(2) and nd = 2(3) and add = 2(4)
      note D = with_serverD [OF w] and T = with_server_table [OF w p nd wf bnd]
      show thesis
      proof (cases rule: map_reput_ns [OF T(2,3), of "heap_script s2" ?k "brk s"])
        case (1 al')
        have "nd\<lparr>nd_services := table_of s nid\<rparr> = nd" using T(1) by (cases nd) simp
        then have "(node_mem s2)(p \<mapsto> nd\<lparr>nd_services := table_of s nid\<rparr>) = node_mem s2"
          using nd by (simp add: fun_upd_idem)
        then have "server_add service instance nid port s =
          Some (None, s2\<lparr>server_mem := server_mem s, heap_script := al'\<rparr>)"
          using 1(1) D(3,11) T(1) by (simp add: add free_server_def)
        then show thesis using fail [OF w] 1(2) D(10) by blast
      next
        case (2 old m' al' M)
        let ?s' = "stored p nd m' al' old s2"
        note st = with_server_stored(1-4) [where al = al', OF w p nd _ _ _ _ 2(2,4,6,7)]
          and old = with_server_stored(5) [OF w p nd _ _ _ _ 2(2,4,6,7)]
        show thesis
        proof (rule added [where old = old and M = M and m' = m' and s' = ?s', OF _ nz])
          show "server_add service instance nid port s = Some (Some (brk s), ?s')"
            using 2(1) T(1) old nz by (cases old) (auto simp: add stored_def added_server_def free_server_def)
          show "map_uniq (table_of s nid) \<longrightarrow> map_abs (table_of s nid) ?k = None \<or> no_tombs (table_of s nid) \<longrightarrow>
             map_uniq m' \<and> map_abs m' = (map_abs (table_of s nid))(?k \<mapsto> brk s)"
            using map_reput_uniq [OF T(2,3) 2(1)] by simp
          show "server_mem ?s' = (case old of None \<Rightarrow> (server_mem s)(brk s \<mapsto> ?srv)
             | Some q \<Rightarrow> ((server_mem s)(brk s \<mapsto> ?srv))(q := None))"
            using D(3) by (cases old) (simp_all add: stored_def)
          show "ns_bound n ?s'" if "ns_bound (Suc (Suc n)) s" for n
            using bound_tables_update [OF D(9) [OF that, unfolded ns_bound_def] nd, of m'] 2(3) T(1)
            by (simp add: ns_bound_def stored_def)
        qed (use st 2(2,4-8) D nz in \<open>simp_all add: added_server_def stored_def\<close>)
      qed
    qed
  qed
qed

section \<open>The directory\<close>

text \<open>What the name server knows: which service and instance is registered on a port of a node.\<close>

definition dir :: "ns_state \<Rightarrow> u32 \<Rightarrow> u32 \<Rightarrow> (u32 \<times> u32) option" where
  "dir s nid port = map_option (\<lambda>sp. (srv_service (the (server_mem s sp)), srv_instance (the (server_mem s sp))))
     (map_abs (table_of s nid) (hash_u32 port))"

lemma map_abs_in: "map_abs m k = Some v \<Longrightarrow> (k, v) \<in> set (entries m)"
  by (simp add: map_abs_def map_of_SomeD)

lemma dir_cong:
  assumes "map_abs (table_of s' nid) (hash_u32 port) = map_abs (table_of s nid) (hash_u32 port)"
    and "\<And>q. map_abs (table_of s nid) (hash_u32 port) = Some q \<Longrightarrow> server_mem s' q = server_mem s q"
  shows "dir s' nid port = dir s nid port"
  using assms by (cases "map_abs (table_of s nid) (hash_u32 port)") (simp_all add: dir_def)

lemma dir_other_node:
  assumes wf: "ns_wf s" and "table_of s' n = table_of s n"
    and "\<And>q srv. server_mem s q = Some srv \<Longrightarrow> srv_node srv = n \<Longrightarrow> server_mem s' q = Some srv"
  shows "dir s' n = dir s n"
proof (rule ext, rule dir_cong)
  fix port q
  assume "map_abs (table_of s n) (hash_u32 port) = Some q"
  then have "(hash_u32 port, q) \<in> set (entries (table_of s n))" by (rule map_abs_in)
  then obtain srv where "server_mem s q = Some srv" "srv_node srv = n" by (rule table_entry [OF wf])
  then show "server_mem s' q = server_mem s q" using assms(3) by simp
qed (use assms(2) in simp)

lemma dir_ports:
  assumes wf: "ns_wf s" and "map_uniq (table_of s nid)"
  shows "dir s nid port = None \<longleftrightarrow> port \<notin> srv_port ` set (services s nid)"
proof -
  have "hash_u32 port \<in> fst ` set (entries (table_of s nid)) \<longleftrightarrow> port \<in> srv_port ` set (services s nid)"
  proof
    assume "hash_u32 port \<in> fst ` set (entries (table_of s nid))"
    then obtain q where q: "(hash_u32 port, q) \<in> set (entries (table_of s nid))" by auto
    obtain srv where srv: "server_mem s q = Some srv" "hash_u32 port = hash_u32 (srv_port srv)"
      by (rule table_entry [OF wf q])
    then show "port \<in> srv_port ` set (services s nid)" using q by (force simp: services_def)
  next
    assume "port \<in> srv_port ` set (services s nid)"
    then obtain k q where e: "(k, q) \<in> set (entries (table_of s nid))" "port = srv_port (the (server_mem s q))"
      by (auto simp: services_def)
    have "k = hash_u32 port" by (rule table_entry [OF wf e(1)]) (use e(2) in simp)
    then show "hash_u32 port \<in> fst ` set (entries (table_of s nid))" using e(1) by force
  qed
  then show ?thesis by (simp add: dir_def map_abs_def map_of_eq_None_iff)
qed

lemma dir_removed:
  assumes wf: "ns_wf s" and u: "map_uniq (table_of s nid)"
    and rm: "map_remove (table_of s nid) (hash_u32 port) = Some (0, m')"
    and ms: "add_mset (hash_u32 port, sp) (mset (entries m')) = mset (entries (table_of s nid))"
    and s': "table_of s' = (table_of s)(nid := m')" "server_mem s' = (server_mem s)(sp := None)"
  shows "map_uniq m'" "dir s' nid = (dir s nid)(port := None)"
proof -
  note r = hm.remove_map_of [OF table_of_wf(1) [OF wf] u [unfolded map_uniq_def] rm]
  show "map_uniq m'" using r(2) by (simp add: map_uniq_def)
  have abs: "map_abs m' = (map_abs (table_of s nid))(hash_u32 port := None)" using r(3) by (simp add: map_abs_def)
  have "mset (sp # map snd (entries m')) = mset (map snd (entries (table_of s nid)))"
    using arg_cong [OF ms, of "image_mset snd"] by simp
  then have "distinct (sp # map snd (entries m')) = distinct (map snd (entries (table_of s nid)))"
    by (rule mset_eq_imp_distinct_iff)
  then have d: "sp \<notin> snd ` set (entries m')" using table_of_wf(2) [OF wf] by simp
  have "dir s' nid p = ((dir s nid)(port := None)) p" for p
  proof (cases "p = port")
    case True
    then show ?thesis by (simp add: dir_def s' abs)
  next
    case False
    have q: "q \<noteq> sp" if "map_abs m' (hash_u32 p) = Some q" for q
      using map_abs_in [OF that] d by force
    then show ?thesis using False by (subst dir_cong [of s' nid p s]) (auto simp: s' abs)
  qed
  then show "dir s' nid = (dir s nid)(port := None)" by blast
qed

lemma dir_added:
  assumes wf: "ns_wf s" and u: "map_uniq (table_of s nid)"
    and m': "map_uniq m'" "map_abs m' = (map_abs (table_of s nid))(hash_u32 port \<mapsto> sp)"
      "mset (entries m') + old_mset (hash_u32 port) old = add_mset (hash_u32 port, sp) (mset (entries (table_of s nid)))"
    and sp: "server_mem s sp = None"
    and s': "table_of s' = (table_of s)(nid := m')"
      "server_mem s' = (case old of None \<Rightarrow> (server_mem s)(sp \<mapsto> srv)
         | Some q \<Rightarrow> ((server_mem s)(sp \<mapsto> srv))(q := None))"
  shows "dir s' nid = (dir s nid)(port \<mapsto> (srv_service srv, srv_instance srv))"
proof -
  let ?k = "hash_u32 port"
  have nsp: "sp \<notin> snd ` set (entries (table_of s nid))"
  proof
    assume "sp \<in> snd ` set (entries (table_of s nid))"
    then obtain k where "(k, sp) \<in> set (entries (table_of s nid))" by auto
    then show False by (rule table_entry [OF wf]) (use sp in simp)
  qed
  have "(?k, sp) \<in> set (entries m')" using m'(2) map_abs_in by force
  note es = put_server_entries [OF wf nsp subset_mset.order_refl m'(3) this]
  have "dir s' nid p = ((dir s nid)(port \<mapsto> (srv_service srv, srv_instance srv))) p" for p
  proof (cases "p = port")
    case True
    have "server_mem s' sp = Some srv" using es(3) by (cases old) (auto simp: s')
    then show ?thesis using True by (simp add: dir_def s'(1) m'(2))
  next
    case False
    have "server_mem s' q = server_mem s q" if q: "map_abs (table_of s nid) (hash_u32 p) = Some q" for q
    proof -
      have "(hash_u32 p, q) \<in> set (entries m')" by (rule map_abs_in) (use m'(2) q False in simp)
      then have "old \<noteq> Some q" using es(3) by force
      moreover have "q \<noteq> sp" using nsp map_abs_in [OF q] by force
      ultimately show ?thesis by (cases old) (auto simp: s')
    qed
    then show ?thesis using False by (subst dir_cong [of s' nid p s]) (auto simp: s' m'(2))
  qed
  then show ?thesis by blast
qed

end
