(* ===== verification/Name_Server_Loops.thy ===== *)
theory Name_Server_Loops
  imports Name_Server_Ops
begin

text \<open>
  The loops of the command handlers: the query over all tables, the loops that send to every
  service of a node, and the loop of \<open>ctrl_cmd_bye\<close> that deletes the services of a node while it
  iterates over them.
\<close>

section \<open>Loops that only read a table\<close>

lemma each_item_fold:
  "(\<And>v a. v \<in> set vs \<Longrightarrow> body v a = Some (None, g v a)) \<Longrightarrow> each_item body vs a = Some (None, fold g vs a)"
  by (induction vs arbitrary: a) simp_all

lemma fold_filter_append:
  "fold (\<lambda>x (xs, n). if P x then (xs @ [x], n + 1) else (xs, n)) ys (xs, n) =
    (xs @ filter P ys, n + int (length (filter P ys)))"
  by (induction ys arbitrary: xs n) simp_all

definition all_servers :: "ns_state \<Rightarrow> ptr list" where
  "all_servers s = concat (map (\<lambda>e. map snd (entries (nd_services (the (node_mem s (snd e))))))
     (entries (nodes s)))"

definition matching :: "server_filter \<Rightarrow> ns_state \<Rightarrow> ptr \<Rightarrow> bool" where
  "matching f s sp \<longleftrightarrow> server_match (the (server_mem s sp)) f \<noteq> 0"

lemma server_query_services_loop:
  assumes wf: "map_wf m" and ok: "\<And>e. e \<in> set (entries m) \<Longrightarrow> server_mem s (snd e) \<noteq> None"
  shows "map_for_each (\<lambda>_. Some m) (server_query_services f s) (r, n) =
    Some (None, r @ filter (matching f s) (map snd (entries m)),
      n + int (length (filter (matching f s) (map snd (entries m)))))"
proof -
  let ?g = "\<lambda>sp (r, n). if matching f s sp then (r @ [sp], n + 1) else (r, n)"
  have "server_query_services f s sp a = Some (None, ?g sp a)" if sp: "sp \<in> set (map snd (entries m))" for sp a
  proof -
    obtain srv where "server_mem s sp = Some srv" using ok sp by auto
    then show ?thesis by (cases a) (simp add: server_query_services_def matching_def)
  qed
  then have "each_item (server_query_services f s) (map snd (entries m)) (r, n) =
      Some (None, fold ?g (map snd (entries m)) (r, n))"
    by (rule each_item_fold)
  then show ?thesis
    by (subst map_for_each_const [where P = "\<lambda>_. True" and m = m])
      (use wf in \<open>simp_all add: fold_filter_append del: set_map\<close>)
qed

lemma server_query_eq:
  assumes wf: "ns_wf s"
  shows "server_query f s = Some (int (length (filter (matching f s) (all_servers s))),
    filter (matching f s) (all_servers s))"
proof -
  let ?svc = "\<lambda>p. filter (matching f s) (map snd (entries (nd_services (the (node_mem s p)))))"
  let ?g = "\<lambda>p (r, n). (r @ ?svc p, n + int (length (?svc p)))"
  have m: "map_wf (nodes s)" using wf by (simp add: ns_wf_def tables_wf_def)
  have "server_query_nodes f s p a = Some (None, ?g p a)" if p: "p \<in> set (map snd (entries (nodes s)))" for p a
  proof -
    obtain k where e: "(k, p) \<in> set (entries (nodes s))" using p by auto
    obtain nd where nd: "node_mem s p = Some nd" "services_ok (server_mem s) nd"
      using ns_wf_nodeD [OF wf e] by metis
    have w: "map_wf (nd_services nd)" using nd(2) by (simp add: services_ok_def)
    have "server_mem s (snd e) \<noteq> None" if "e \<in> set (entries (nd_services nd))" for e
      using nd(2) that by (auto simp: services_ok_def server_ok_def split: option.splits)
    from server_query_services_loop [OF w this] nd(1) show ?thesis
      by (cases a) (simp add: server_query_nodes_def)
  qed
  then have "each_item (server_query_nodes f s) (map snd (entries (nodes s))) ([], 0) =
      Some (None, fold ?g (map snd (entries (nodes s))) ([], 0))"
    by (rule each_item_fold)
  moreover have "fold ?g ps (r, n) = (r @ concat (map ?svc ps), n + int (length (concat (map ?svc ps))))" for ps r n
    by (induction ps arbitrary: r n) simp_all
  moreover have "concat (map ?svc (map snd (entries (nodes s)))) = filter (matching f s) (all_servers s)"
    by (simp add: all_servers_def filter_concat comp_def)
  ultimately show ?thesis
    unfolding server_query_def
    by (subst map_for_each_const [where P = "\<lambda>_. True" and m = "nodes s"]) (use m in simp_all)
qed

lemma all_servers_alloc:
  assumes wf: "ns_wf s" and "sp \<in> set (all_servers s)"
  shows "server_mem s sp \<noteq> None"
proof -
  obtain k p k' where e: "(k, p) \<in> set (entries (nodes s))"
      "(k', sp) \<in> set (entries (nd_services (the (node_mem s p))))"
    using assms(2) by (auto simp: all_servers_def)
  obtain nd where nd: "node_mem s p = Some nd" "services_ok (server_mem s) nd"
    using ns_wf_nodeD [OF wf e(1)] by metis
  then have "server_ok (server_mem s) (nd_id nd) (k', sp)" using e(2) by (simp add: services_ok_def)
  then show ?thesis by (auto simp: server_ok_def split: option.splits)
qed

lemma table_entry_alloc:
  assumes wf: "ns_wf s" and "sp \<in> snd ` set (entries (table_of s n))"
  shows "server_mem s sp \<noteq> None"
proof -
  obtain k where "(k, sp) \<in> set (entries (table_of s n))" using assms(2) by auto
  then show ?thesis by (rule table_entry [OF wf]) simp
qed

section \<open>Loops that send\<close>

text \<open>What every local service is sent.\<close>

definition to_services :: "ns_state \<Rightarrow> ctrl_pkt \<Rightarrow> (sockaddr_qrtr \<times> u8 list) list" where
  "to_services s pkt = map (\<lambda>srv. (\<lparr>sq_family = AF_QIPCRTR, sq_node = srv_node srv, sq_port = srv_port srv\<rparr>,
     pkt_bytes (host_be s) pkt)) (services s (local_node s))"

lemma to_services_cong:
  "ctx_eq s s' \<Longrightarrow> services s' (local_node s) = services s (local_node s) \<Longrightarrow> to_services s' = to_services s"
  by (rule ext) (simp add: to_services_def ctx_eq_def)

lemma propagate_all:
  assumes wf: "ns_wf s" and p: "(hash_u32 (local_node s), p) \<in> set (entries (nodes s))"
  shows "map_for_each (services_of p) (propagate pkt) s = Some (None, send_all (to_services s pkt) s)"
proof -
  obtain nd where nd: "node_mem s p = Some nd" using ns_wf_nodeD [OF wf p] by metis
  note t = table_of_entry [OF wf p nd]
  have m: "map_wf (table_of s (local_node s))" by (rule table_of_wf [OF wf])
  let ?d = "\<lambda>srv. (\<lparr>sq_family = AF_QIPCRTR, sq_node = srv_node srv, sq_port = srv_port srv\<rparr>,
    pkt_bytes (host_be s) pkt)"
  have run: "each_item (propagate pkt) sps (send_all ds s) =
      Some (None, send_all (ds @ map (?d \<circ> (\<lambda>sp. the (server_mem s sp))) sps) s)"
    if "\<forall>sp \<in> set sps. server_mem s sp \<noteq> None" for sps ds
    using that by (induction sps arbitrary: ds) (auto simp: propagate_def sys_sendto_eq Let_def)
  have ok: "\<forall>sp \<in> set (map snd (entries (table_of s (local_node s)))). server_mem s sp \<noteq> None"
    using table_entry_alloc [OF wf] by simp
  have "map_for_each (services_of p) (propagate pkt) s =
      each_item (propagate pkt) (map snd (entries (table_of s (local_node s)))) s"
  proof (rule map_for_each_const [where P = "\<lambda>s'. node_mem s' = node_mem s", OF _ m _ refl])
    show "services_of p s' = Some (table_of s (local_node s))" if "node_mem s' = node_mem s" for s'
      using that nd t by (simp add: services_of_def)
    show "node_mem s'' = node_mem s" if "node_mem s' = node_mem s" "propagate pkt v s' = Some (r, s'')" for v s' r s''
      using that by (auto simp: propagate_def sys_sendto_eq Let_def split: option.splits bind_splits)
  qed
  then show ?thesis
    using run [OF ok, of "[]"] by (simp add: to_services_def services_def comp_def)
qed

definition announcements :: "ns_state \<Rightarrow> sockaddr_qrtr \<Rightarrow> (sockaddr_qrtr \<times> u8 list) list" where
  "announcements s sq = map (\<lambda>srv. (sq, announce_bytes (host_be s) QRTR_TYPE_NEW_SERVER srv))
     (services s (local_node s))"

lemma send_rc_less: "0 \<le> send_rc bs s" if "\<forall>r \<in> set (send_script s). 0 \<le> r"
  using that by (auto simp: send_rc_def split: list.splits)

lemma each_item_announce:
  assumes "\<forall>sp \<in> set sps. server_mem s sp \<noteq> None"
  shows "\<exists>r n. each_item (\<lambda>sp s. do {
      (rc, s) \<leftarrow> service_announce_new sq sp s;
      Some (if rc < 0 then Some rc else None, s) }) sps s =
    Some (r, send_all (take n (map (\<lambda>sp. (sq, announce_bytes (host_be s) QRTR_TYPE_NEW_SERVER
      (the (server_mem s sp)))) sps)) s) \<and> n \<le> length sps \<and>
    (case r of None \<Rightarrow> n = length sps | Some rc \<Rightarrow> rc < 0 \<and> \<not> (\<forall>r \<in> set (send_script s). 0 \<le> r))"
  using assms
proof (induction sps arbitrary: s)
  case (Cons sp sps)
  then obtain srv where srv: "server_mem s sp = Some srv" by auto
  let ?d = "(sq, announce_bytes (host_be s) QRTR_TYPE_NEW_SERVER srv)"
  show ?case
  proof (cases "send_rc (snd ?d) s < 0")
    case True
    then show ?thesis using send_rc_less [of s "snd ?d"] srv
      by (intro exI [of _ "Some (send_rc (snd ?d) s)"] exI [of _ 1])
        (auto simp: service_announce_new_eq)
  next
    case False
    from Cons.IH [of "send_all [?d] s"] Cons.prems obtain r n where
      IH: "each_item (\<lambda>sp s. do {
          (rc, s) \<leftarrow> service_announce_new sq sp s;
          Some (if rc < 0 then Some rc else None, s) }) sps (send_all [?d] s) =
        Some (r, send_all (take n (map (\<lambda>sp. (sq, announce_bytes (host_be s) QRTR_TYPE_NEW_SERVER
          (the (server_mem s sp)))) sps)) (send_all [?d] s))" "n \<le> length sps"
      "case r of None \<Rightarrow> n = length sps
        | Some rc \<Rightarrow> rc < 0 \<and> \<not> (\<forall>r \<in> set (send_script (send_all [?d] s)). 0 \<le> r)" by auto
    have "\<not> (\<forall>r \<in> set (send_script (send_all [?d] s)). 0 \<le> r) \<Longrightarrow> \<not> (\<forall>r \<in> set (send_script s). 0 \<le> r)"
      by (auto simp: send_all_def dest: in_set_dropD)
    then show ?thesis using False srv IH
      by (intro exI [of _ r] exI [of _ "Suc n"])
        (auto simp: service_announce_new_eq split: option.splits)
  qed
qed simp

lemma annouce_servers_spec:
  assumes wf: "ns_wf s" and bnd: "ns_bound 1 s"
  obtains s' n rc where "annouce_servers sq s = Some (rc, send_all (take n (announcements s sq)) s')"
    "ns_wf s'" "node_grown s s'" "rc \<le> 0"
    "alloc_all (heap_script s) \<Longrightarrow> rc = 0 \<Longrightarrow> n = length (announcements s sq)"
    "(\<forall>r \<in> set (send_script s). 0 \<le> r) \<Longrightarrow> rc = 0"
proof -
  obtain r s' where g: "node_get (local_node s) s = Some (r, s')" "ns_wf s'" "node_grown s s'"
    "\<And>p. r = Some p \<Longrightarrow> (hash_u32 (local_node s), p) \<in> set (entries (nodes s'))"
    "alloc_all (heap_script s) \<Longrightarrow> r \<noteq> None"
    using node_get_spec [OF wf bnd, of "local_node s"] by blast
  note ext = node_grown_simps [OF g(3)]
  show thesis
  proof (cases r)
    case None
    with g show thesis by (intro that [of 0 0 s']) (auto simp: annouce_servers_def)
  next
    case (Some p)
    have p: "(hash_u32 (local_node s), p) \<in> set (entries (nodes s'))" using g(4) Some by simp
    obtain nd where nd: "node_mem s' p = Some nd" using ns_wf_nodeD [OF g(2) p] by metis
    note t = table_of_entry [OF g(2) p nd]
    let ?sps = "map snd (entries (table_of s' (local_node s)))"
    let ?body = "\<lambda>sp s. do {
      (rc, s) \<leftarrow> service_announce_new sq sp s;
      Some (if rc < 0 then Some rc else None, s) }"
    have "map_for_each (services_of p) ?body s' = each_item ?body ?sps s'"
    proof (rule map_for_each_const [where P = "\<lambda>t. node_mem t = node_mem s'", OF _ table_of_wf(1) [OF g(2)] _ refl])
      show "services_of p t = Some (table_of s' (local_node s))" if "node_mem t = node_mem s'" for t
        using that nd t by (simp add: services_of_def)
      show "node_mem t' = node_mem s'" if "node_mem t = node_mem s'" "?body v t = Some (r, t')" for v t r t'
        using that by (auto simp: service_announce_new_def sys_sendto_eq Let_def split: option.splits bind_splits)
    qed
    moreover have "\<forall>sp \<in> set ?sps. server_mem s' sp \<noteq> None"
      using table_entry_alloc [OF g(2)] by simp
    from each_item_announce [OF this, of sq] obtain rc n where
      run: "each_item ?body ?sps s' = Some (rc, send_all (take n (map (\<lambda>sp. (sq,
        announce_bytes (host_be s') QRTR_TYPE_NEW_SERVER (the (server_mem s' sp)))) ?sps)) s')" "n \<le> length ?sps"
      "case rc of None \<Rightarrow> n = length ?sps | Some rc \<Rightarrow> rc < 0 \<and> \<not> (\<forall>r \<in> set (send_script s'). 0 \<le> r)" by blast
    moreover have "map (\<lambda>sp. (sq, announce_bytes (host_be s') QRTR_TYPE_NEW_SERVER (the (server_mem s' sp)))) ?sps =
        announcements s sq"
      by (simp add: announcements_def services_def ext comp_def)
    moreover have "length ?sps = length (announcements s sq)"
      by (simp add: announcements_def services_def ext)
    ultimately show thesis using g Some ext(9)
      by (intro that [of "case rc of None \<Rightarrow> 0 | Some rc \<Rightarrow> rc" n s'])
        (auto simp: annouce_servers_def split: option.splits)
  qed
qed

section \<open>The deletion loop of \<open>ctrl_cmd_bye\<close>\<close>

text \<open>A state reached by deleting services of one node.\<close>

definition purge :: "u32 \<Rightarrow> ns_state \<Rightarrow> ns_state \<Rightarrow> bool" where
  "purge nid s t \<longleftrightarrow> ns_wf t \<and> ctx_eq s t \<and> nodes t = nodes s \<and> heap_script t = heap_script s \<and>
     msize (table_of t nid) = msize (table_of s nid) \<and>
     (\<forall>n. n \<noteq> nid \<longrightarrow> services t n = services s n \<and> table_of t n = table_of s n \<and> dir t n = dir s n) \<and>
     (\<forall>k. ns_bound k s \<longrightarrow> ns_bound k t) \<and> (\<exists>ds. sent t = sent s @ ds)"

lemma purge_trans: "purge nid s t \<Longrightarrow> purge nid t u \<Longrightarrow> purge nid s u"
  by (auto simp: purge_def ctx_eq_def)

lemma purge_deleted:
  assumes wf: "ns_wf s" and p: "(hash_u32 nid, np) \<in> set (entries (nodes s))" and nd: "node_mem s np = Some nd"
    and m': "map_wf m'" "msize m' = msize (table_of s nid)"
      "add_mset (hash_u32 port, sp) (mset (entries m')) = mset (entries (table_of s nid))"
    and sp: "server_mem s sp = Some srv" "srv_node srv = nid"
    and s': "s' = send_all ds (s\<lparr>node_mem := (node_mem s)(np \<mapsto> nd\<lparr>nd_services := m'\<rparr>),
      server_mem := (server_mem s)(sp := None)\<rparr>)"
  shows "purge nid s s'"
proof -
  note st = server_del_store [OF wf p nd m'(1,3) sp s']
  have bound: "ns_bound n s'" if "ns_bound n s" for n
  proof -
    have "unat (msize (nd_services nd)) + 256 * n < 2 ^ 31"
      using that nd unfolding ns_bound_def bound_tables_def by blast
    then show ?thesis using that m'(2) table_of_entry(1) [OF wf p nd]
      by (auto simp: s' ns_bound_def bound_tables_def)
  qed
  have "dir s' n = dir s n" if "n \<noteq> nid" for n
    by (rule dir_other_node [OF wf]) (use st(2) sp that in \<open>auto simp: s'\<close>)
  then show ?thesis using st bound m'(2) by (simp add: purge_def s')
qed

text \<open>\<open>server_del\<close> as a whole.\<close>

lemma server_del_effect:
  assumes wf: "ns_wf s" and p: "(hash_u32 nid, np) \<in> set (entries (nodes s))"
  obtains rc s' where "server_del np port s = Some (rc, s')" "purge nid s s'"
    "rc = - ENOENT \<and> s' = s \<and> port \<notin> srv_port ` set (services s nid) \<or>
     rc = 0 \<and> (\<exists>srv \<in> set (services s nid). srv_port srv = port \<and>
       add_mset srv (mset (services s' nid)) = mset (services s nid) \<and> sent s' = sent s @ del_packets s srv)"
    "map_uniq (table_of s nid) \<Longrightarrow> map_uniq (table_of s' nid) \<and> dir s' nid = (dir s nid)(port := None)"
proof (cases rule: server_del_spec [OF wf p, of port])
  case 1
  have none: "map_abs (table_of s nid) (hash_u32 port) = None"
    using 1(2) by (simp add: map_abs_def map_of_eq_None_iff)
  then have d: "dir s nid port = None" by (simp add: dir_def)
  have "port \<notin> srv_port ` set (services s nid)"
  proof
    assume "port \<in> srv_port ` set (services s nid)"
    then obtain k q where e: "(k, q) \<in> set (entries (table_of s nid))" "port = srv_port (the (server_mem s q))"
      by (auto simp: services_def)
    have "k = hash_u32 port" by (rule table_entry [OF wf e(1)]) (use e(2) in simp)
    then show False using e(1) 1(2) by force
  qed
  then show thesis using 1(1) wf d by (intro that [of "- ENOENT" s]) (auto simp: purge_def fun_upd_idem)
next
  case (2 nd sp srv m')
  let ?s = "send_all (del_packets s srv) (s\<lparr>node_mem := (node_mem s)(np \<mapsto> nd\<lparr>nd_services := m'\<rparr>),
      server_mem := (server_mem s)(sp := None)\<rparr>)"
  note st = server_del_store [where ds = "del_packets s srv", OF wf p 2(1,6,8,9,11) refl]
  have "purge nid s ?s"
    by (rule purge_deleted [where ds = "del_packets s srv", OF wf p 2(1,6,7,8,9,11) refl])
  moreover have "srv \<in> set (services s nid)"
    using arg_cong [OF st(4), of set_mset] by auto
  moreover have "map_uniq (table_of ?s nid) \<and> dir ?s nid = (dir s nid)(port := None)"
    if u: "map_uniq (table_of s nid)"
    using dir_removed [OF wf u 2(4,8) st(2)] st(2) by simp
  ultimately show thesis using 2(10,12) st(4) by (intro that [of 0 ?s]) auto
qed

lemma server_del_item:
  assumes wf: "ns_wf t" and p: "(hash_u32 nid, p) \<in> set (entries (nodes t))"
    and j: "j < length (mdata (table_of t nid))" "mdata (table_of t nid) ! j = Item k v"
  obtains srv t' where "server_mem t v = Some srv" "server_del p (srv_port srv) t = Some (0, t')" "purge nid t t'"
    "map_uniq (table_of t nid) \<Longrightarrow> mdata (table_of t' nid) = (mdata (table_of t nid))[j := Deleted]"
    "map_uniq (table_of t nid) \<Longrightarrow> sent t' = sent t @ del_packets t srv"
    "map_uniq (table_of t nid) \<Longrightarrow> server_mem t' = (server_mem t)(v := None)"
proof -
  let ?T = "table_of t nid"
  have e: "(k, v) \<in> set (entries ?T)" using j nth_mem by (fastforce simp: entries_def)
  obtain srv where srv: "server_mem t v = Some srv" "k = hash_u32 (srv_port srv)"
    by (rule table_entry [OF wf e])
  show thesis
  proof (cases rule: server_del_spec [OF wf p, of "srv_port srv"])
    case 1
    then show thesis using e srv(2) by force
  next
    case (2 nd sp srv' m')
    let ?t = "send_all (del_packets t srv') (t\<lparr>node_mem := (node_mem t)(p \<mapsto> nd\<lparr>nd_services := m'\<rparr>),
      server_mem := (server_mem t)(sp := None)\<rparr>)"
    note st = server_del_store [where ds = "del_packets t srv'", OF wf p 2(1,6,8,9,11) refl]
    have purge: "purge nid t ?t"
      by (rule purge_deleted [where ds = "del_packets t srv'", OF wf p 2(1,6,7,8,9,11) refl])
    have uniq: "sp = v \<and> mdata m' = (mdata ?T)[j := Deleted]" if u: "map_uniq ?T"
    proof -
      have ms: "mset (entries ?T) = mset ((k, sp) # entries m')" using 2(8) srv(2) by simp
      have "mset (map fst (entries ?T)) = mset (k # map fst (entries m'))"
        using arg_cong [OF ms, of "image_mset fst"] by simp
      then have "distinct (map fst (entries ?T)) = distinct (k # map fst (entries m'))"
        by (rule mset_eq_imp_distinct_iff)
      then have d: "k \<notin> fst ` set (entries m')" using u by (simp add: map_uniq_def)
      have "(k, v) \<in> insert (k, sp) (set (entries m'))" using e mset_eq_setD [OF ms] by simp
      then have sp: "sp = v" using d by force
      obtain x where x: "mdata m' = (mdata ?T)[x := Deleted]" using map_remove_slot [OF 2(4)] by blast
      have "x = j"
      proof (rule ccontr)
        assume "x \<noteq> j"
        then have "mdata m' ! j = Item k v" "j < length (mdata m')" using x j by simp_all
        then have "(k, v) \<in> set (entries m')" using nth_mem by (fastforce simp: entries_def)
        then show False using d by force
      qed
      with x sp show ?thesis by simp
    qed
    show thesis
    proof (rule that [OF srv(1) 2(12) purge])
      show "mdata (table_of ?t nid) = (mdata ?T)[j := Deleted]" if "map_uniq ?T"
        using uniq [OF that] st(2) by simp
      show "sent ?t = sent t @ del_packets t srv" if "map_uniq ?T"
        using uniq [OF that] srv(1) 2(9) by simp
      show "server_mem ?t = (server_mem t)(v := None)" if "map_uniq ?T"
        using uniq [OF that] by simp
    qed
  qed
qed

lemma purge_services_of:
  assumes "purge nid s t" and p: "(hash_u32 nid, p) \<in> set (entries (nodes s))"
  shows "services_of p t = Some (table_of t nid)" "length (mdata (table_of t nid)) = unat (msize (table_of s nid))"
    "unat (msize (table_of t nid)) = unat (msize (table_of s nid))" "(hash_u32 nid, p) \<in> set (entries (nodes t))"
proof -
  have wf: "ns_wf t" and pt: "(hash_u32 nid, p) \<in> set (entries (nodes t))"
    and sz: "msize (table_of t nid) = msize (table_of s nid)"
    using assms by (simp_all add: purge_def)
  obtain nd where nd: "node_mem t p = Some nd" using ns_wf_nodeD [OF wf pt] by metis
  show "services_of p t = Some (table_of t nid)"
    using nd table_of_entry [OF wf pt nd] by (simp add: services_of_def)
  show "length (mdata (table_of t nid)) = unat (msize (table_of s nid))"
    using table_of_wf(1) [OF wf, of nid] sz by (simp add: map_wf_def)
  show "unat (msize (table_of t nid)) = unat (msize (table_of s nid))" using sz by simp
  show "(hash_u32 nid, p) \<in> set (entries (nodes t))" by (rule pt)
qed

text \<open>How far the loop has come when no key is stored twice: the slots before \<open>i\<close> are empty, the
  others as they were, and the packets of the servers met so far have been sent.\<close>

definition purged :: "ns_state \<Rightarrow> u32 \<Rightarrow> nat \<Rightarrow> ns_state \<Rightarrow> bool" where
  "purged s nid i t \<longleftrightarrow>
     slot_entries (take i (mdata (table_of t nid))) = [] \<and>
     drop i (mdata (table_of t nid)) = drop i (mdata (table_of s nid)) \<and>
     (\<forall>e \<in> set (slot_entries (drop i (mdata (table_of s nid)))). server_mem t (snd e) = server_mem s (snd e)) \<and>
     sent t = sent s @ concat (map (\<lambda>e. del_packets s (the (server_mem s (snd e))))
       (slot_entries (take i (mdata (table_of s nid)))))"

lemma slot_entries_none:
  "(\<And>x. x < length ss \<Longrightarrow> (\<forall>k v. ss ! x \<noteq> Item k v)) \<Longrightarrow> slot_entries ss = []"
proof (induction ss)
  case (Cons s ss)
  have "slot_entries ss = []" by (rule Cons.IH) (use Cons.prems in fastforce)
  moreover have "\<forall>k v. s \<noteq> Item k v" using Cons.prems [of 0] by simp
  ultimately show ?case by (cases s) simp_all
qed simp

lemma slot_entries_take_gap:
  assumes "i \<le> j" "j \<le> length ss" "\<forall>x. i \<le> x \<and> x < j \<longrightarrow> (\<forall>k v. ss ! x \<noteq> Item k v)"
  shows "slot_entries (take j ss) = slot_entries (take i ss)"
    "slot_entries (drop i ss) = slot_entries (drop j ss)"
proof -
  have "slot_entries (take (j - i) (drop i ss)) = []"
    by (rule slot_entries_none) (use assms in auto)
  moreover have "take j ss = take i ss @ take (j - i) (drop i ss)"
    using assms(1) by (metis le_add_diff_inverse take_add)
  moreover have "drop i ss = take (j - i) (drop i ss) @ drop j ss"
    using assms(1) by (metis append_take_drop_id drop_drop le_add_diff_inverse2)
  ultimately show "slot_entries (take j ss) = slot_entries (take i ss)"
    "slot_entries (drop i ss) = slot_entries (drop j ss)"
    by (metis append_Nil2 slot_entries_append, metis append_Nil slot_entries_append)
qed

lemma purged_step:
  assumes P: "purged s nid i t" and ctx: "ctx_eq s t"
    and T: "Ts = mdata (table_of s nid)" "Tt = mdata (table_of t nid)" "length Tt = length Ts"
    and d: "distinct (map snd (slot_entries Ts))"
    and ij: "i \<le> j" "j < length Tt" "\<forall>x. i \<le> x \<and> x < j \<longrightarrow> (\<forall>k v. Tt ! x \<noteq> Item k v)"
    and item: "Tt ! j = Item k v" "server_mem t v = Some srv"
    and t': "mdata (table_of t' nid) = Tt[j := Deleted]" "server_mem t' = (server_mem t)(v := None)"
      "sent t' = sent t @ del_packets t srv"
  shows "purged s nid (Suc j) t'"
proof -
  have P1: "slot_entries (take i Tt) = []" "drop i Tt = drop i Ts"
    and P2: "\<And>e. e \<in> set (slot_entries (drop i Ts)) \<Longrightarrow> server_mem t (snd e) = server_mem s (snd e)"
    and P3: "sent t = sent s @ concat (map (\<lambda>e. del_packets s (the (server_mem s (snd e)))) (slot_entries (take i Ts)))"
    using P unfolding purged_def T(1,2) [symmetric] by blast+
  have nth: "Ts ! x = Tt ! x" if "i \<le> x" "x < length Tt" for x
  proof -
    have "drop i Ts ! (x - i) = drop i Tt ! (x - i)" by (simp only: P1(2))
    then show ?thesis using that T(3) by simp
  qed
  have gap: "\<forall>x. i \<le> x \<and> x < j \<longrightarrow> (\<forall>k v. Ts ! x \<noteq> Item k v)" using ij nth by simp
  have jt: "j \<le> length Ts" "j \<le> length Tt" using ij T(3) by simp_all
  note gs = slot_entries_take_gap [OF ij(1) jt(1) gap] and gt = slot_entries_take_gap [OF ij(1) jt(2) ij(3)]
  have Tsj: "Ts ! j = Item k v" using nth [OF ij(1,2)] item by simp
  have dj: "drop j Ts = Item k v # drop (Suc j) Ts" using Tsj ij T(3) by (metis Cons_nth_drop_Suc)
  have tj: "take (Suc j) Ts = take j Ts @ [Item k v]" using Tsj ij T(3) by (simp add: take_Suc_conv_app_nth)
  have drop: "drop (Suc j) Tt = drop (Suc j) Ts"
  proof -
    have "drop (Suc j - i) (drop i Tt) = drop (Suc j - i) (drop i Ts)" by (simp only: P1(2))
    then show ?thesis using ij(1) by simp
  qed
  have vin: "(k, v) \<in> set (slot_entries (drop i Ts))" using gs(2) dj by simp
  have notv: "snd e \<noteq> v" if "e \<in> set (slot_entries (drop (Suc j) Ts))" for e
  proof -
    have "slot_entries Ts = slot_entries (take j Ts) @ (k, v) # slot_entries (drop (Suc j) Ts)"
      by (metis append_take_drop_id dj slot_entries.simps(2) slot_entries_append)
    then have "v \<notin> snd ` set (slot_entries (drop (Suc j) Ts))" using d by simp
    then show ?thesis using that by blast
  qed
  have "slot_entries (take (Suc j) (Tt[j := Deleted])) = []"
    using ij(2) gt(1) P1(1) by (simp add: take_Suc_conv_app_nth)
  moreover have "drop (Suc j) (Tt[j := Deleted]) = drop (Suc j) Ts" using drop by simp
  moreover have "server_mem t' (snd e) = server_mem s (snd e)" if "e \<in> set (slot_entries (drop (Suc j) Ts))" for e
    using P2 [of e] notv [OF that] that gs(2) dj t'(2) by simp
  moreover have sv: "server_mem s v = Some srv" using P2 [OF vin] item(2) by simp
  have "sent t' = sent s @ concat (map (\<lambda>e. del_packets s (the (server_mem s (snd e))))
      (slot_entries (take (Suc j) Ts)))"
    using P3 t'(3) tj gs(1) sv del_packets_cong [OF ctx] by simp
  ultimately show ?thesis unfolding purged_def T(1) [symmetric] t'(1) by blast
qed

text \<open>While the loop runs the table has no key twice, and at its end the node has no server left.\<close>

lemma purged_uniq:
  assumes P: "purged s nid i t" and u: "map_uniq (table_of s nid)"
  shows "map_uniq (table_of t nid)"
proof -
  let ?Ts = "mdata (table_of s nid)"
  have "entries (table_of t nid) = slot_entries (drop i ?Ts)"
    using P unfolding purged_def entries_def by (metis append_Nil append_take_drop_id slot_entries_append)
  moreover have "entries (table_of s nid) = slot_entries (take i ?Ts) @ slot_entries (drop i ?Ts)"
    unfolding entries_def by (metis append_take_drop_id slot_entries_append)
  ultimately show ?thesis using u by (simp add: map_uniq_def)
qed

lemma purged_done:
  assumes P: "purged s nid i t"
    and rest: "\<And>x. i \<le> x \<Longrightarrow> x < length (mdata (table_of t nid)) \<Longrightarrow> \<forall>k v. mdata (table_of t nid) ! x \<noteq> Item k v"
  shows "services t nid = [] \<and> sent t = sent s @ concat (map (del_packets s) (services s nid))"
proof -
  have "slot_entries (drop i (mdata (table_of t nid))) = []"
    by (rule slot_entries_none) (use rest in auto)
  then have e: "entries (table_of t nid) = []" "slot_entries (drop i (mdata (table_of s nid))) = []"
    using P unfolding purged_def entries_def
    by (metis append_Nil append_take_drop_id slot_entries_append, metis)
  then have "slot_entries (take i (mdata (table_of s nid))) = entries (table_of s nid)"
    unfolding entries_def by (metis append_Nil2 append_take_drop_id slot_entries_append)
  then show ?thesis using P e(1) by (simp add: services_def purged_def comp_def)
qed

lemma bye_loop:
  assumes wf: "ns_wf s" and p: "(hash_u32 nid, p) \<in> set (entries (nodes s))"
  obtains t where "map_for_each (services_of p) (\<lambda>sp s. do {
      srv \<leftarrow> server_mem s sp;
      (_, s) \<leftarrow> server_del p (srv_port srv) s;
      Some (None :: unit option, s) }) s = Some (None, t)" "purge nid s t"
    "map_uniq (table_of s nid) \<Longrightarrow> services t nid = [] \<and>
      sent t = sent s @ concat (map (del_packets s) (services s nid))"
proof -
  let ?body = "\<lambda>sp s. do {
      srv \<leftarrow> server_mem s sp;
      (_, s) \<leftarrow> server_del p (srv_port srv) s;
      Some (None :: unit option, s) }"
  let ?I = "\<lambda>i t. purge nid s t \<and> (map_uniq (table_of s nid) \<longrightarrow> purged s nid i t)"
  let ?Ts = "mdata (table_of s nid)"
  have d: "distinct (map snd (slot_entries ?Ts))" using table_of_wf(2) [OF wf] by (simp add: entries_def)
  have len: "length ?Ts = unat (msize (table_of s nid))"
    using table_of_wf(1) [OF wf, of nid] by (simp add: map_wf_def)
  have init: "?I 0 s" using wf by (simp add: purge_def purged_def)
  have "\<exists>t. map_for_each (services_of p) ?body s = Some (None, t) \<and>
    (purge nid s t \<and> (map_uniq (table_of s nid) \<longrightarrow> services t nid = [] \<and>
      sent t = sent s @ concat (map (del_packets s) (services s nid))))"
  proof (rule map_for_each_rule [where I = ?I and N = "unat (msize (table_of s nid))", OF _ _ _ init])
    show "\<exists>m. services_of p t = Some m \<and> length (mdata m) = unat (msize (table_of s nid)) \<and>
        unat (msize m) = unat (msize (table_of s nid))" if "?I i t" for i t
      using purge_services_of [OF _ p] that by blast
  next
    fix i j t m k v
    assume I: "?I i t" and m: "services_of p t = Some m" and ij: "i \<le> j" "j < unat (msize (table_of s nid))"
      and item: "mdata m ! j = Item k v" and gap: "\<forall>x. i \<le> x \<and> x < j \<longrightarrow> (\<forall>k v. mdata m ! x \<noteq> Item k v)"
    note ps = purge_services_of [OF conjunct1 [OF I] p]
    have mt: "m = table_of t nid" using ps(1) m by simp
    have wt: "ns_wf t" and ctx: "ctx_eq s t" using I by (simp_all add: purge_def)
    from ps(2) ij item mt have j: "j < length (mdata (table_of t nid))" "mdata (table_of t nid) ! j = Item k v"
      by simp_all
    obtain srv t' where del: "server_mem t v = Some srv" "server_del p (srv_port srv) t = Some (0, t')" "purge nid t t'"
      "map_uniq (table_of t nid) \<Longrightarrow> mdata (table_of t' nid) = (mdata (table_of t nid))[j := Deleted]"
      "map_uniq (table_of t nid) \<Longrightarrow> sent t' = sent t @ del_packets t srv"
      "map_uniq (table_of t nid) \<Longrightarrow> server_mem t' = (server_mem t)(v := None)"
      using server_del_item [OF wt ps(4) j] by blast
    have "purged s nid (Suc j) t'" if u: "map_uniq (table_of s nid)"
    proof -
      have P: "purged s nid i t" using I u by blast
      note ut = purged_uniq [OF P u]
      show ?thesis
        by (rule purged_step [OF P ctx refl refl _ d ij(1) j(1) _ j(2) del(1) del(4) [OF ut] del(6) [OF ut] del(5) [OF ut]])
          (use ps(2) len gap mt in simp_all)
    qed
    then show "\<exists>t'. ?body v t = Some (None, t') \<and> ?I (Suc j) t'"
      using del(1-3) I purge_trans by auto
  next
    fix i t m
    assume I: "?I i t" and m: "services_of p t = Some m"
      and rest: "\<forall>x. i \<le> x \<and> x < unat (msize (table_of s nid)) \<longrightarrow> (\<forall>k v. mdata m ! x \<noteq> Item k v)"
    note ps = purge_services_of [OF conjunct1 [OF I] p]
    have mt: "m = table_of t nid" using ps(1) m by simp
    have "services t nid = [] \<and> sent t = sent s @ concat (map (del_packets s) (services s nid))"
      if "map_uniq (table_of s nid)"
      by (rule purged_done [of s nid i]) (use that I rest mt ps(2) in auto)
    then show "purge nid s t \<and> (map_uniq (table_of s nid) \<longrightarrow> services t nid = [] \<and>
      sent t = sent s @ concat (map (del_packets s) (services s nid)))" using I by blast
  qed
  then show thesis using that by blast
qed

end
