(* ===== verification/Name_Server_Handlers.thy ===== *)
theory Name_Server_Handlers
  imports Name_Server_Loops
begin

text \<open>
  The command handlers: each is defined on every state that satisfies the invariant and keeps it,
  and its datagrams and its effect on the directory and the observers are given as functions of the
  state it started in.
\<close>

section \<open>What every handler keeps\<close>

text \<open>\<open>grows k s s'\<close>: the invariant holds in \<open>s'\<close>, the constants are those of \<open>s\<close>, tables have grown at
  most \<open>k\<close> times, and datagrams were only appended.\<close>

definition grows :: "nat \<Rightarrow> ns_state \<Rightarrow> ns_state \<Rightarrow> bool" where
  "grows k s s' \<longleftrightarrow> ns_wf s' \<and> local_node s' = local_node s \<and> bcast_sq s' = bcast_sq s \<and>
     host_be s' = host_be s \<and> stack_junk s' = stack_junk s \<and>
     (\<forall>n. ns_bound (k + n) s \<longrightarrow> ns_bound n s') \<and> (\<exists>ds. sent s' = sent s @ ds)"

lemma grows_trans: "grows i s t \<Longrightarrow> grows j t u \<Longrightarrow> k = i + j \<Longrightarrow> grows k s u"
  unfolding grows_def by (auto simp: add.assoc)

lemma grows_refl [simp]: "ns_wf s \<Longrightarrow> grows k s s"
  by (auto simp: grows_def intro: ns_bound_mono)

lemma grows_mono:
  assumes g: "grows i s t" and "i \<le> k"
  shows "grows k s t"
proof -
  have "ns_bound n t" if b: "ns_bound (k + n) s" for n
    using ns_bound_mono [OF b, of "i + n"] g \<open>i \<le> k\<close> by (simp add: grows_def)
  with g show ?thesis by (simp add: grows_def)
qed

lemma grows_send_all: "grows k s s' \<Longrightarrow> grows k s (send_all ds s')"
  by (auto simp: grows_def)

lemma grows_update [simp]:
  "grows k s (s'\<lparr>lookups := lks\<rparr>) = grows k s s'" "grows k s (s'\<lparr>ctx_sock := c\<rparr>) = grows k s s'"
  "grows k s (s'\<lparr>heap_script := al\<rparr>) = grows k s s'"
  by (simp_all add: grows_def ns_wf_def ns_bound_def)

lemma grows_node_grown: "node_grown s s' \<Longrightarrow> ns_wf s' \<Longrightarrow> grows 1 s s'"
  unfolding grows_def by (auto simp: node_grown_simps) (auto simp: node_grown_def)

lemma grows_purge: "purge nid s s' \<Longrightarrow> grows 0 s s'"
  by (simp add: grows_def purge_def ctx_eq_def)

lemma grows_bound: "grows k s s' \<Longrightarrow> ns_bound (k + n) s \<Longrightarrow> ns_bound n s'"
  by (simp add: grows_def)

lemma grows_wf: "grows k s s' \<Longrightarrow> ns_wf s'"
  by (simp add: grows_def)

lemma dir_node_grown: "node_grown s s' \<Longrightarrow> dir s' = dir s"
  by (intro ext) (simp add: dir_def node_grown_simps)

lemma dir_send_all [simp]: "dir (send_all ds s) = dir s"
  by (intro ext) (simp add: dir_def)

lemma dir_lookups [simp]: "dir (s\<lparr>lookups := lks\<rparr>) = dir s" "dir (s\<lparr>ctx_sock := c\<rparr>) = dir s"
    "dir (s\<lparr>heap_script := al\<rparr>) = dir s"
  by (intro ext, simp add: dir_def)+

section \<open>HELLO\<close>

lemma ctrl_cmd_hello_spec:
  assumes wf: "ns_wf s" and bnd: "ns_bound 1 s"
  obtains rc s' n where "ctrl_cmd_hello sq buf s = Some (rc, s')" "grows 1 s s'" "dir s' = dir s"
    "services s' = services s" "lookups s' = lookups s" "sent s' = sent s @ (sq, buf) # take n (announcements s sq)"
    "send_rc buf s \<le> 0 \<Longrightarrow> n = 0 \<and> rc = send_rc buf s"
    "buf \<noteq> [] \<Longrightarrow> send_script s = [] \<Longrightarrow> alloc_all (heap_script s) \<Longrightarrow> rc = 0 \<and> n = length (announcements s sq)"
proof (cases "0 < send_rc buf s")
  case False
  then show thesis using wf
    by (intro that [of "send_rc buf s" "send_all [(sq, buf)] s" 0])
      (auto simp: ctrl_cmd_hello_def sys_sendto_eq send_rc_def intro: grows_send_all)
next
  case True
  let ?s = "send_all [(sq, buf)] s"
  have a: "announcements ?s sq = announcements s sq" by (simp add: announcements_def)
  obtain s' n rc where r: "annouce_servers sq ?s = Some (rc, send_all (take n (announcements ?s sq)) s')"
    "ns_wf s'" "node_grown ?s s'" "rc \<le> 0"
    "alloc_all (heap_script ?s) \<Longrightarrow> rc = 0 \<Longrightarrow> n = length (announcements ?s sq)"
    "(\<forall>r \<in> set (send_script ?s). 0 \<le> r) \<Longrightarrow> rc = 0"
    by (rule annouce_servers_spec [of ?s sq]) (use wf bnd in simp, use bnd in simp, blast)
  have g0: "grows 0 s ?s" using wf by (simp add: grows_send_all)
  have g: "grows 1 s s'" by (rule grows_trans [OF g0 grows_node_grown [OF r(3,2)]]) simp
  show thesis
  proof (rule that [of rc "send_all (take n (announcements s sq)) s'" n])
    show "ctrl_cmd_hello sq buf s = Some (rc, send_all (take n (announcements s sq)) s')"
      using True r(1) a by (simp add: ctrl_cmd_hello_def sys_sendto_eq)
    show "rc = 0 \<and> n = length (announcements s sq)" if "send_script s = []" "alloc_all (heap_script s)"
      using r(5,6) that a by (simp add: send_all_def)
  qed (use True g dir_node_grown [OF r(3)] node_grown_simps [OF r(3)] in \<open>simp_all add: grows_send_all\<close>)
qed

section \<open>Steps that handlers share\<close>

lemma ns_wf_lookups [simp]: "ns_wf (s\<lparr>lookups := lks\<rparr>) = ns_wf s"
  by (simp add: ns_wf_def)

lemma ns_bound_lookups [simp]: "ns_bound n (s\<lparr>lookups := lks\<rparr>) = ns_bound n s"
  by (simp add: ns_bound_def)

lemma node_get_step:
  assumes wf: "ns_wf s" and bnd: "ns_bound (Suc k) s"
  obtains r s' where "node_get nid s = Some (r, s')" "grows 1 s s'" "ns_bound k s'" "ctx_eq s s'" "sent s' = sent s"
    "dir s' = dir s" "services s' = services s" "table_of s' = table_of s"
    "\<And>p. r = Some p \<Longrightarrow> (hash_u32 nid, p) \<in> set (entries (nodes s'))"
    "alloc_all (heap_script s) \<Longrightarrow> r \<noteq> None \<and> alloc_all (heap_script s')"
proof -
  have "ns_bound 1 s" by (rule ns_bound_mono [OF bnd]) simp
  then obtain r s' where g: "node_get nid s = Some (r, s')" "ns_wf s'" "node_grown s s'"
    "\<And>p. r = Some p \<Longrightarrow> (hash_u32 nid, p) \<in> set (entries (nodes s'))"
    "alloc_all (heap_script s) \<Longrightarrow> r \<noteq> None"
    by (rule node_get_spec [OF wf, of nid]) blast
  show thesis
  proof (rule that [OF g(1) grows_node_grown [OF g(3,2)] _ ctx_eq_node_grown [OF g(3)]])
    show "ns_bound k s'" using g(3) bnd by (simp add: node_grown_def)
    show "r \<noteq> None \<and> alloc_all (heap_script s')" if "alloc_all (heap_script s)"
      using g(3,5) that by (simp add: node_grown_def)
  qed (use g(4) dir_node_grown [OF g(3)] node_grown_simps [OF g(3)] in simp_all)
qed

text \<open>The last step of BYE and DEL\_CLIENT: one packet to every local service, unless there is no
  memory for the local node.\<close>

lemma tell_local_services:
  assumes wf: "ns_wf s" and bnd: "ns_bound (Suc k) s" and F: "\<And>t. ctx_eq s t \<Longrightarrow> F t = F s"
  obtains t where "do {
      (lp, s) \<leftarrow> node_get (local_node s) s;
      (case lp of
         None \<Rightarrow> Some (0 :: int, s)
       | Some p \<Rightarrow> do { (_, s) \<leftarrow> map_for_each (services_of p) (propagate (F s)) s; Some (0, s) }) } = Some (0, t)"
    "grows 1 s t" "ctx_eq s t" "dir t = dir s" "services t = services s" "table_of t = table_of s"
    "alloc_all (heap_script s) \<Longrightarrow> sent t = sent s @ to_services s (F s)"
proof -
  obtain r u where u: "node_get (local_node s) s = Some (r, u)" "grows 1 s u" "ns_bound k u" "ctx_eq s u"
    "sent u = sent s" "dir u = dir s" "services u = services s" "table_of u = table_of s"
    "\<And>p. r = Some p \<Longrightarrow> (hash_u32 (local_node s), p) \<in> set (entries (nodes u))"
    "alloc_all (heap_script s) \<Longrightarrow> r \<noteq> None \<and> alloc_all (heap_script u)"
    by (rule node_get_step [OF wf bnd, of "local_node s"]) blast
  show thesis
  proof (cases r)
    case None
    with u show thesis by (intro that [of u]) simp_all
  next
    case (Some p)
    have "(hash_u32 (local_node u), p) \<in> set (entries (nodes u))" using u(4,9) Some by (simp add: ctx_eq_def)
    note all = propagate_all [OF grows_wf [OF u(2)] this, of "F u"]
    have "to_services u = to_services s" by (rule to_services_cong [OF u(4)]) (simp add: u(7))
    with all Some u F [OF u(4)] show thesis
      by (intro that [of "send_all (to_services s (F s)) u"]) (simp_all add: grows_send_all)
  qed
qed

section \<open>BYE\<close>

definition bye_pkt :: "u32 \<Rightarrow> ctrl_pkt" where
  "bye_pkt nid = zero_pkt\<lparr>pkt_cmd := QRTR_TYPE_BYE, pkt_w0 := nid\<rparr>"

lemma ctrl_cmd_bye_spec:
  assumes wf: "ns_wf s" and bnd: "ns_bound 2 s"
  obtains s' where "ctrl_cmd_bye from s = Some (0, s')" "grows 2 s s'" "lookups s' = lookups s"
    "\<And>n. n \<noteq> sq_node from \<Longrightarrow> dir s' n = dir s n \<and> services s' n = services s n"
    "alloc_all (heap_script s) \<Longrightarrow> map_uniq (table_of s (sq_node from)) \<Longrightarrow> services s' (sq_node from) = [] \<and>
       sent s' = sent s @ concat (map (del_packets s) (services s (sq_node from))) @
         (if sq_node from = local_node s then [] else to_services s (bye_pkt (sq_node from)))"
proof -
  let ?nid = "sq_node from"
  obtain r s1 where n1: "node_get ?nid s = Some (r, s1)" "grows 1 s s1" "ns_bound 1 s1" "ctx_eq s s1"
    "sent s1 = sent s" "dir s1 = dir s" "services s1 = services s" "table_of s1 = table_of s"
    "\<And>p. r = Some p \<Longrightarrow> (hash_u32 ?nid, p) \<in> set (entries (nodes s1))"
    "alloc_all (heap_script s) \<Longrightarrow> r \<noteq> None \<and> alloc_all (heap_script s1)"
    by (rule node_get_step [OF wf, of 1 ?nid]) (use bnd in \<open>simp add: numeral_2_eq_2, blast\<close>)
  show thesis
  proof (cases r)
    case None
    with n1 grows_mono [OF n1(2), of 2] show thesis by (intro that [of s1]) (auto simp: ctrl_cmd_bye_def ctx_eq_def)
  next
    case (Some p)
    obtain t where t: "map_for_each (services_of p) (\<lambda>sp s. do {
        srv \<leftarrow> server_mem s sp;
        (_, s) \<leftarrow> server_del p (srv_port srv) s;
        Some (None :: unit option, s) }) s1 = Some (None, t)" "purge ?nid s1 t"
      "map_uniq (table_of s1 ?nid) \<Longrightarrow> services t ?nid = [] \<and>
        sent t = sent s1 @ concat (map (del_packets s1) (services s1 ?nid))"
      by (rule bye_loop [OF grows_wf [OF n1(2)] n1(9) [OF Some]]) blast
    have gt: "grows 1 s t" by (rule grows_trans [OF n1(2) grows_purge [OF t(2)]]) simp
    have other: "dir t n = dir s n \<and> services t n = services s n" if "n \<noteq> ?nid" for n
      using t(2) that n1(6,7) by (simp add: purge_def)
    have ct: "ctx_eq s t" using t(2) n1(4) ctx_eq_trans by (auto simp: purge_def)
    have bt: "ns_bound 1 t" using t(2) n1(3) by (simp add: purge_def)
    obtain s' where s': "do {
        (lp, s) \<leftarrow> node_get (local_node t) t;
        (case lp of
           None \<Rightarrow> Some (0 :: int, s)
         | Some p \<Rightarrow> do { (_, s) \<leftarrow> map_for_each (services_of p) (propagate (bye_pkt ?nid)) s; Some (0, s) }) } = Some (0, s')"
      "grows 1 t s'" "ctx_eq t s'" "dir s' = dir t" "services s' = services t" "table_of s' = table_of t"
      "alloc_all (heap_script t) \<Longrightarrow> sent s' = sent t @ to_services t (bye_pkt ?nid)"
      by (rule tell_local_services [OF grows_wf [OF gt], of 0 "\<lambda>_. bye_pkt ?nid"]) (use bt in auto)
    have run: "ctrl_cmd_bye from s = Some (0, s')"
      using n1(1) Some t(1) s'(1) unfolding ctrl_cmd_bye_def bye_pkt_def Let_def by simp
    have g: "grows 2 s s'" by (rule grows_trans [OF gt s'(2)]) simp
    have ts: "to_services t (bye_pkt ?nid) = (if ?nid = local_node s then [] else to_services s (bye_pkt ?nid))"
      if "services t ?nid = []"
      using that other [of "local_node s"] ct by (auto simp: to_services_def ctx_eq_def)
    have sent: "services s' ?nid = [] \<and> sent s' = sent s @ concat (map (del_packets s) (services s ?nid)) @
        (if ?nid = local_node s then [] else to_services s (bye_pkt ?nid))"
      if a: "alloc_all (heap_script s)" and u: "map_uniq (table_of s ?nid)"
    proof -
      have "services t ?nid = []" "sent t = sent s @ concat (map (del_packets s) (services s ?nid))"
        using t(3) u n1(5,7,8) del_packets_cong [OF n1(4)] by simp_all
      moreover have "alloc_all (heap_script t)" using n1(10) [OF a] t(2) by (simp add: purge_def)
      ultimately show ?thesis using s'(5,7) ts by simp
    qed
    show thesis
      by (rule that [OF run g _ _ sent]) (use other ct s'(3-5) in \<open>auto simp: ctx_eq_def\<close>)
  qed
qed

section \<open>DEL\_CLIENT\<close>

lemma del_client_lookups_filter:
  "del_client_lookups nid port lks =
    filter (\<lambda>lk. \<not> (sq_node (lk_sq lk) = nid \<and> sq_port (lk_sq lk) = port)) lks"
  by (induction lks) auto

definition del_client_pkt :: "ns_state \<Rightarrow> u32 \<Rightarrow> u32 \<Rightarrow> ctrl_pkt" where
  "del_client_pkt s nid port = \<lparr>pkt_cmd = QRTR_TYPE_DEL_CLIENT, pkt_w0 = nid, pkt_w1 = port,
     pkt_w2 = fst (stack_junk s), pkt_w3 = snd (stack_junk s)\<rparr>"

text \<open>The datagrams with which a port is withdrawn, none if nothing was registered there.\<close>

definition port_withdrawn :: "ns_state \<Rightarrow> u32 \<Rightarrow> u32 \<Rightarrow> (sockaddr_qrtr \<times> u8 list) list \<Rightarrow> bool" where
  "port_withdrawn s nid port ds \<longleftrightarrow>
     ds = [] \<and> port \<notin> srv_port ` set (services s nid) \<or>
     (\<exists>srv \<in> set (services s nid). srv_port srv = port \<and> ds = del_packets s srv)"

lemma port_withdrawn_cong:
  "ctx_eq s s' \<Longrightarrow> services s' nid = services s nid \<Longrightarrow> port_withdrawn s' nid port = port_withdrawn s nid port"
  by (rule ext) (simp add: port_withdrawn_def del_packets_cong [of s s'])

lemma server_del_withdraws:
  assumes wf: "ns_wf s" and p: "(hash_u32 nid, np) \<in> set (entries (nodes s))"
  obtains rc s' ds where "server_del np port s = Some (rc, s')" "purge nid s s'" "sent s' = sent s @ ds"
    "port_withdrawn s nid port ds"
    "map_uniq (table_of s nid) \<Longrightarrow> map_uniq (table_of s' nid) \<and> dir s' nid = (dir s nid)(port := None)"
proof (cases rule: server_del_effect [OF wf p, of port])
  case (1 rc s')
  note del = 1
  from del(3) consider "s' = s" "port \<notin> srv_port ` set (services s nid)"
    | srv where "srv \<in> set (services s nid)" "srv_port srv = port" "sent s' = sent s @ del_packets s srv"
    by blast
  then show thesis
  proof cases
    case 1
    show thesis by (rule that [OF del(1,2) _ _ del(4), of "[]"]) (use 1 in \<open>simp_all add: port_withdrawn_def\<close>)
  next
    case 2
    have "port_withdrawn s nid port (del_packets s srv)" using 2(1,2) by (auto simp: port_withdrawn_def)
    then show thesis by (rule that [OF del(1,2) 2(3) _ del(4)])
  qed
qed

lemma withdraw_if_known:
  assumes wf: "ns_wf s" and r: "\<And>p. r = Some p \<Longrightarrow> (hash_u32 nid, p) \<in> set (entries (nodes s))"
  obtains t ds where "(case r of None \<Rightarrow> Some s | Some p \<Rightarrow> map_option snd (server_del p port s)) = Some t"
    "purge nid s t" "r \<noteq> None \<Longrightarrow> map_uniq (table_of s nid) \<Longrightarrow>
      map_uniq (table_of t nid) \<and> dir t nid = (dir s nid)(port := None)"
    "sent t = sent s @ ds" "r \<noteq> None \<Longrightarrow> port_withdrawn s nid port ds"
proof (cases r)
  case None
  show thesis by (rule that [of s "[]"]) (use None wf in \<open>simp_all add: purge_def\<close>)
next
  case (Some p)
  show thesis
  proof (rule server_del_withdraws [OF wf r [OF Some], of port])
    fix rc t ds
    assume "server_del p port s = Some (rc, t)" "purge nid s t" "sent t = sent s @ ds" "port_withdrawn s nid port ds"
      "map_uniq (table_of s nid) \<Longrightarrow> map_uniq (table_of t nid) \<and> dir t nid = (dir s nid)(port := None)"
    then show thesis using Some by (intro that [of t ds]) simp_all
  qed
qed

lemma ctrl_cmd_del_client_spec:
  assumes wf: "ns_wf s" and bnd: "ns_bound 2 s"
  obtains (spoofed) "ctrl_cmd_del_client from nid port s = Some (- EINVAL, s)"
      "sq_node from \<noteq> nid \<or> sq_node from = local_node s \<and> sq_port from \<noteq> port"
  | (accepted) s' where "ctrl_cmd_del_client from nid port s = Some (0, s')"
      "sq_node from = nid" "sq_node from = local_node s \<Longrightarrow> sq_port from = port" "grows 2 s s'"
      "lookups s' = del_client_lookups nid port (lookups s)"
      "\<And>n. n \<noteq> nid \<Longrightarrow> dir s' n = dir s n \<and> services s' n = services s n"
      "alloc_all (heap_script s) \<Longrightarrow> map_uniq (table_of s nid) \<Longrightarrow>
         map_uniq (table_of s' nid) \<and> dir s' nid = (dir s nid)(port := None)"
      "alloc_all (heap_script s) \<Longrightarrow> \<exists>ds. sent s' = sent s @ ds @ to_services s' (del_client_pkt s nid port) \<and>
         port_withdrawn (s\<lparr>lookups := del_client_lookups nid port (lookups s)\<rparr>) nid port ds"
proof (cases "sq_node from \<noteq> nid \<or> sq_node from = local_node s \<and> sq_port from \<noteq> port")
  case True
  then show thesis by (intro spoofed) (auto simp: ctrl_cmd_del_client_def)
next
  case False
  let ?s = "s\<lparr>lookups := del_client_lookups nid port (lookups s)\<rparr>"
  have g0: "grows 0 s ?s" using wf by simp
  obtain r s1 where n1: "node_get nid ?s = Some (r, s1)" "grows 1 ?s s1" "ns_bound 1 s1" "ctx_eq ?s s1"
    "sent s1 = sent ?s" "dir s1 = dir ?s" "services s1 = services ?s" "table_of s1 = table_of ?s"
    "\<And>p. r = Some p \<Longrightarrow> (hash_u32 nid, p) \<in> set (entries (nodes s1))"
    "alloc_all (heap_script ?s) \<Longrightarrow> r \<noteq> None \<and> alloc_all (heap_script s1)"
    by (rule node_get_step [of ?s 1 nid]) (use wf bnd in \<open>simp, simp add: numeral_2_eq_2, blast\<close>)
  have g1: "grows 1 s s1" by (rule grows_trans [OF g0 n1(2)]) simp
  obtain s2 ds where s2: "(case r of None \<Rightarrow> Some s1 | Some p \<Rightarrow> map_option snd (server_del p port s1)) = Some s2"
    "purge nid s1 s2" "r \<noteq> None \<Longrightarrow> map_uniq (table_of s1 nid) \<Longrightarrow>
      map_uniq (table_of s2 nid) \<and> dir s2 nid = (dir s1 nid)(port := None)"
    "sent s2 = sent s1 @ ds" "r \<noteq> None \<Longrightarrow> port_withdrawn s1 nid port ds"
    by (rule withdraw_if_known [OF grows_wf [OF g1] n1(9)]) blast+
  have g2: "grows 1 s s2" by (rule grows_trans [OF g1 grows_purge [OF s2(2)]]) simp
  have ct2: "ctx_eq ?s s2" using s2(2) n1(4) ctx_eq_trans by (auto simp: purge_def)
  have b2: "ns_bound (Suc 0) s2" using s2(2) n1(3) by (simp add: purge_def)
  have F: "del_client_pkt t nid port = del_client_pkt s2 nid port" if "ctx_eq s2 t" for t
    using that by (simp add: del_client_pkt_def ctx_eq_def)
  obtain s' where n3: "do {
      (lp, s) \<leftarrow> node_get (local_node s2) s2;
      (case lp of
         None \<Rightarrow> Some (0 :: int, s)
       | Some p \<Rightarrow> do {
           (_, s) \<leftarrow> map_for_each (services_of p) (propagate (del_client_pkt s nid port)) s;
           Some (0, s) }) } = Some (0, s')"
    "grows 1 s2 s'" "ctx_eq s2 s'" "dir s' = dir s2" "services s' = services s2" "table_of s' = table_of s2"
    "alloc_all (heap_script s2) \<Longrightarrow> sent s' = sent s2 @ to_services s2 (del_client_pkt s2 nid port)"
    by (rule tell_local_services [where F = "\<lambda>t. del_client_pkt t nid port", OF grows_wf [OF g2] b2 F]) blast+
  have g3: "grows 2 s s'" by (rule grows_trans [OF g2 n3(2)]) simp
  have ct3: "ctx_eq ?s s'" using ct2 n3(3) by (rule ctx_eq_trans)
  have run: "ctrl_cmd_del_client from nid port s = Some (0, s')"
    using False n1(1) s2(1) n3(1) unfolding ctrl_cmd_del_client_def del_client_pkt_def Let_def by auto
  have al: "r \<noteq> None \<and> alloc_all (heap_script s2)" if "alloc_all (heap_script s)"
    using n1(10) s2(2) that by (simp add: purge_def)
  have "\<exists>ds. sent s' = sent s @ ds @ to_services s' (del_client_pkt s nid port) \<and> port_withdrawn ?s nid port ds"
    if a: "alloc_all (heap_script s)"
  proof -
    have "to_services s' = to_services s2" by (rule to_services_cong [OF n3(3)]) (simp add: n3(5))
    moreover have "del_client_pkt s2 nid port = del_client_pkt s nid port"
      using ct2 by (simp add: del_client_pkt_def ctx_eq_def)
    moreover have "sent s2 = sent s @ ds" "port_withdrawn s1 nid port ds" using s2(4,5) al [OF a] n1(5) by simp_all
    moreover have "port_withdrawn s1 nid port = port_withdrawn ?s nid port"
      by (rule port_withdrawn_cong [OF n1(4)]) (simp add: n1(7))
    ultimately show ?thesis using al [OF a] n3(7) by auto
  qed
  then show thesis
    using run False g3 n3(4-6) s2(2,3) n1(6-8) ct3 al
    by (intro accepted [of s']) (auto simp: purge_def ctx_eq_def)
qed

section \<open>NEW\_SERVER and DEL\_SERVER\<close>

definition new_packets :: "ns_state \<Rightarrow> server \<Rightarrow> (sockaddr_qrtr \<times> u8 list) list" where
  "new_packets s srv =
     (if srv_node srv = local_node s
      then [(bcast_sq s, announce_bytes (host_be s) QRTR_TYPE_NEW_SERVER srv)] else []) @
     notifications (host_be s) QRTR_TYPE_NEW_SERVER srv (lookups s)"

text \<open>The port a registration is about: local senders only speak for their own.\<close>

definition reg_port :: "ns_state \<Rightarrow> sockaddr_qrtr \<Rightarrow> u32 \<Rightarrow> u32" where
  "reg_port s sq port = (if sq_node sq = local_node s then sq_port sq else port)"

text \<open>The second half of \<open>ctrl_cmd_new_server\<close>: announcement and notifications of the server just added.\<close>

lemma announce_added:
  assumes ctx: "ctx_eq s s'" and srv: "server_mem s' sp = Some srv"
  obtains rc where "do {
      srv' \<leftarrow> server_mem s' sp;
      (rc, s) \<leftarrow> (if srv_node srv' = local_node s' then service_announce_new (bcast_sq s') sp s' else Some (0, s'));
      s \<leftarrow> new_server_notify (lookups s) (srv_service srv) (srv_instance srv) sp s;
      Some (rc, s) } = Some (rc, send_all (new_packets s srv) s')"
    "send_script s' = [] \<Longrightarrow> 0 \<le> rc"
proof -
  note c = ctx_eqD [OF ctx]
  let ?b = "announce_bytes (host_be s) QRTR_TYPE_NEW_SERVER srv"
  show thesis
  proof (cases "srv_node srv = local_node s")
    case True
    then show thesis
      using srv c new_server_notify_eq [of "send_all [(bcast_sq s, ?b)] s'" sp srv "lookups s"]
      by (intro that [of "send_rc ?b s'"]) (simp_all add: new_packets_def service_announce_new_eq send_rc_def)
  next
    case False
    then show thesis
      using srv c new_server_notify_eq [of s' sp srv "lookups s"]
      by (intro that [of 0]) (simp_all add: new_packets_def)
  qed
qed

text \<open>Adding a server to the table of one node, and freeing the one it replaces, is not seen on any
  other node.\<close>

lemma added_other_node:
  assumes wf: "ns_wf s" and new: "server_mem s sp = None" and tab: "table_of s' = (table_of s)(nid := m')"
    and m': "M \<subseteq># mset (entries (table_of s nid))" "mset (entries m') + old_mset k old = add_mset (k, sp) M"
      "(k, sp) \<in> set (entries m')"
    and mem: "server_mem s' = (case old of None \<Rightarrow> (server_mem s)(sp \<mapsto> srv) | Some q \<Rightarrow> ((server_mem s)(sp \<mapsto> srv))(q := None))"
    and n: "n \<noteq> nid"
  shows "dir s' n = dir s n"
proof (rule dir_other_node [OF wf])
  have nsp: "sp \<notin> snd ` set (entries (table_of s nid))"
    using table_entry_alloc [OF wf, of sp nid] new by blast
  fix q srv' assume q: "server_mem s q = Some srv'" "srv_node srv' = n"
  have "old \<noteq> Some q"
  proof
    assume "old = Some q"
    then have "(k, q) \<in> set (entries (table_of s nid))"
      using put_server_entries(3) [OF wf nsp m'] by blast
    then show False by (rule table_entry [OF wf]) (use q n in simp)
  qed
  moreover have "q \<noteq> sp" using q new by auto
  ultimately show "server_mem s' q = Some srv'" using q by (cases old) (auto simp: mem)
qed (use tab n in simp)

lemma ctrl_cmd_new_server_spec:
  assumes wf: "ns_wf s" and bnd: "ns_bound 2 s"
  obtains (spoofed) "ctrl_cmd_new_server from service instance nid port s = Some (- EINVAL, s)"
      "sq_node from \<noteq> local_node s" "sq_node from \<noteq> nid"
  | (refused) s' where "ctrl_cmd_new_server from service instance nid port s = Some (- EINVAL, s')"
      "grows 2 s s'" "dir s' = dir s" "services s' = services s" "table_of s' = table_of s" "sent s' = sent s"
      "lookups s' = lookups s" "service = 0 \<or> reg_port s from port = 0 \<or> \<not> alloc_all (heap_script s)"
      "sq_node from = local_node s \<or> sq_node from = nid"
  | (registered) s' rc where "ctrl_cmd_new_server from service instance nid port s = Some (rc, s')"
      "sq_node from = local_node s \<or> sq_node from = nid" "service \<noteq> 0" "reg_port s from port \<noteq> 0"
      "grows 2 s s'" "lookups s' = lookups s"
      "\<And>n. n \<noteq> sq_node from \<Longrightarrow> dir s' n = dir s n \<and> services s' n = services s n"
      "sent s' = sent s @ new_packets s (added_server service instance (sq_node from) (reg_port s from port))"
      "added_server service instance (sq_node from) (reg_port s from port) \<in> set (services s' (sq_node from))"
      "map_uniq (table_of s (sq_node from)) \<Longrightarrow>
        dir s (sq_node from) (reg_port s from port) = None \<or> no_tombs (table_of s (sq_node from)) \<Longrightarrow>
        map_uniq (table_of s' (sq_node from)) \<and>
        dir s' (sq_node from) = (dir s (sq_node from))(reg_port s from port \<mapsto> (service, instance))"
      "map_uniq (table_of s (sq_node from)) \<Longrightarrow> no_tombs (table_of s (sq_node from)) \<Longrightarrow>
        no_tombs (table_of s' (sq_node from))"
      "send_script s = [] \<Longrightarrow> 0 \<le> rc"
proof (cases "sq_node from \<noteq> local_node s \<and> sq_node from \<noteq> nid")
  case True
  then show thesis by (intro spoofed) (auto simp: ctrl_cmd_new_server_def)
next
  case False
  let ?nid = "sq_node from" and ?port = "reg_port s from port"
  let ?srv = "added_server service instance ?nid ?port"
  have run: "ctrl_cmd_new_server from service instance nid port s = do {
        (sp, s) \<leftarrow> server_add service instance ?nid ?port s;
        (case sp of
           None \<Rightarrow> Some (- EINVAL, s)
         | Some sp \<Rightarrow> do {
             srv \<leftarrow> server_mem s sp;
             (rc, s) \<leftarrow> (if srv_node srv = local_node s then service_announce_new (bcast_sq s) sp s
                else Some (0, s));
             s \<leftarrow> new_server_notify (lookups s) service instance sp s;
             Some (rc, s) }) }"
    using False by (auto simp: ctrl_cmd_new_server_def reg_port_def)
  show thesis
  proof (cases rule: server_add_spec [OF wf bnd, of service "instance" ?nid ?port])
    case 1
    then show thesis using run wf False by (intro refused [of s]) auto
  next
    case (2 s')
    then have "grows 2 s s'" by (simp add: grows_def ctx_eq_def)
    moreover have "dir s' = dir s" by (intro ext dir_cong) (simp_all add: 2)
    ultimately show thesis using run False 2 by (intro refused [of s']) (auto simp: ctx_eq_def)
  next
    case (3 sp s' m' M old)
    let ?ds = "new_packets s ?srv"
    obtain rc where "do {
        srv' \<leftarrow> server_mem s' sp;
        (rc, s) \<leftarrow> (if srv_node srv' = local_node s' then service_announce_new (bcast_sq s') sp s' else Some (0, s'));
        s \<leftarrow> new_server_notify (lookups s) (srv_service ?srv) (srv_instance ?srv) sp s;
        Some (rc, s) } = Some (rc, send_all ?ds s')" "send_script s' = [] \<Longrightarrow> 0 \<le> rc"
      by (rule announce_added [OF 3(5,8)]) blast
    then have go: "ctrl_cmd_new_server from service instance nid port s = Some (rc, send_all ?ds s')"
      "send_script s = [] \<Longrightarrow> 0 \<le> rc"
      using run 3(1,7) by (simp_all add: added_server_def)
    have g: "grows 2 s (send_all ?ds s')" using 3(4,5,6,19) by (simp add: grows_def ctx_eq_def)
    have tab: "table_of s' = (table_of s)(?nid := m')" by (rule 3(10))
    have spin: "(hash_u32 ?port, sp) \<in> set (entries m')"
      by (rule map_get_cases [OF 3(12), of "hash_u32 ?port"]) (use 3(16) in auto)
    then have sp: "sp \<in> snd ` set (entries m')" by force
    have other: "dir s' n = dir s n" if "n \<noteq> ?nid" for n
      by (rule added_other_node [OF wf 3(9) tab 3(13,15) spin 3(20) that])
    show thesis
    proof (rule registered [OF go(1) _ 3(2,3) g])
      show "?srv \<in> set (services (send_all ?ds s') ?nid)"
        using sp 3(8) tab by (force simp: services_def)
      show "map_uniq (table_of (send_all ?ds s') ?nid) \<and>
        dir (send_all ?ds s') ?nid = (dir s ?nid)(?port \<mapsto> (service, instance))"
        if u: "map_uniq (table_of s ?nid)" "dir s ?nid ?port = None \<or> no_tombs (table_of s ?nid)"
      proof -
        have "map_abs (table_of s ?nid) (hash_u32 ?port) = None \<or> no_tombs (table_of s ?nid)"
          using u(2) by (simp add: dir_def)
        then have m': "map_uniq m'" "map_abs m' = (map_abs (table_of s ?nid))(hash_u32 ?port \<mapsto> sp)"
          using 3(18) u(1) by blast+
        have ms: "mset (entries m') + old_mset (hash_u32 ?port) old =
            add_mset (hash_u32 ?port, sp) (mset (entries (table_of s ?nid)))"
          using 3(14,15) u(1) by simp
        from dir_added [OF wf u(1) m' ms 3(9) tab 3(20)] m'(1) tab show ?thesis by (simp add: added_server_def)
      qed
    qed (use False go(2) ctx_eqD [OF 3(5)] 3 tab other in auto)
  qed
qed

lemma ctrl_cmd_del_server_spec:
  assumes wf: "ns_wf s" and bnd: "ns_bound 1 s"
  obtains (spoofed) "ctrl_cmd_del_server from service instance nid port s = Some (- EINVAL, s)"
      "sq_node from \<noteq> local_node s" "sq_node from \<noteq> nid"
  | (no_memory) s' where "ctrl_cmd_del_server from service instance nid port s = Some (- ENOENT, s')"
      "grows 1 s s'" "dir s' = dir s" "services s' = services s" "sent s' = sent s" "lookups s' = lookups s"
      "\<not> alloc_all (heap_script s)" "sq_node from = local_node s \<or> sq_node from = nid"
  | (handled) s' rc where "ctrl_cmd_del_server from service instance nid port s = Some (rc, s')"
      "sq_node from = local_node s \<or> sq_node from = nid" "grows 1 s s'" "lookups s' = lookups s"
      "\<And>n. n \<noteq> sq_node from \<Longrightarrow> dir s' n = dir s n \<and> services s' n = services s n"
      "rc = - ENOENT \<and> sent s' = sent s \<and> services s' = services s \<and>
         reg_port s from port \<notin> srv_port ` set (services s (sq_node from)) \<or>
       rc = 0 \<and> (\<exists>srv \<in> set (services s (sq_node from)). srv_port srv = reg_port s from port \<and>
         add_mset srv (mset (services s' (sq_node from))) = mset (services s (sq_node from)) \<and>
         sent s' = sent s @ del_packets s srv)"
      "map_uniq (table_of s (sq_node from)) \<Longrightarrow> map_uniq (table_of s' (sq_node from)) \<and>
         dir s' (sq_node from) = (dir s (sq_node from))(reg_port s from port := None)"
proof (cases "sq_node from \<noteq> local_node s \<and> sq_node from \<noteq> nid")
  case True
  then show thesis by (intro spoofed) (auto simp: ctrl_cmd_del_server_def)
next
  case False
  let ?nid = "sq_node from" and ?port = "reg_port s from port"
  have run: "ctrl_cmd_del_server from service instance nid port s = do {
        (np, s) \<leftarrow> node_get ?nid s;
        (case np of
           None \<Rightarrow> Some (- ENOENT, s)
         | Some p \<Rightarrow> server_del p ?port s) }"
    unfolding ctrl_cmd_del_server_def reg_port_def using False by auto
  obtain r s1 where n1: "node_get ?nid s = Some (r, s1)" "grows 1 s s1" "ns_bound 0 s1" "ctx_eq s s1"
    "sent s1 = sent s" "dir s1 = dir s" "services s1 = services s" "table_of s1 = table_of s"
    "\<And>p. r = Some p \<Longrightarrow> (hash_u32 ?nid, p) \<in> set (entries (nodes s1))"
    "alloc_all (heap_script s) \<Longrightarrow> r \<noteq> None \<and> alloc_all (heap_script s1)"
    by (rule node_get_step [OF wf, of 0 ?nid]) (use bnd in \<open>simp, blast\<close>)
  show thesis
  proof (cases r)
    case None
    then show thesis using run n1 False by (intro no_memory [of s1]) (auto simp: ctx_eq_def)
  next
    case (Some p)
    show thesis
    proof (cases rule: server_del_effect [OF grows_wf [OF n1(2)] n1(9) [OF Some], of ?port])
      case (1 rc s')
      have "ctx_eq s s'" using n1(4) 1(2) ctx_eq_trans by (auto simp: purge_def)
      moreover have "grows 1 s s'" by (rule grows_trans [OF n1(2) grows_purge [OF 1(2)]]) simp
      moreover have "del_packets s1 = del_packets s" by (rule del_packets_cong [OF n1(4)])
      ultimately show thesis using run n1 Some 1 False
        by (intro handled [of rc s']) (auto simp: ctx_eq_def purge_def)
    qed
  qed
qed

section \<open>Observers\<close>

text \<open>A query without an explicit mask selects exactly the servers an observer with the same service
  and instance is notified of.\<close>

lemma server_match_observes:
  "server_match srv \<lparr>f_service = service, f_instance = instance, f_ifilter = 0\<rparr> \<noteq> 0 \<longleftrightarrow>
    observes (srv_service srv) (srv_instance srv) \<lparr>lk_service = service, lk_instance = instance, lk_sq = sq\<rparr>"
  by (auto simp: server_match_def observes_def Let_def)

definition lookup_packets :: "ns_state \<Rightarrow> lookup \<Rightarrow> (sockaddr_qrtr \<times> u8 list) list" where
  "lookup_packets s lk = map (\<lambda>srv. (lk_sq lk, notify_bytes (host_be s) QRTR_TYPE_NEW_SERVER srv))
     (filter (\<lambda>srv. observes (srv_service srv) (srv_instance srv) lk)
       (map (\<lambda>sp. the (server_mem s sp)) (all_servers s))) @
     [(lk_sq lk, pkt_bytes (host_be s) (zero_pkt\<lparr>pkt_cmd := QRTR_TYPE_NEW_SERVER\<rparr>))]"

lemma ctrl_cmd_new_lookup_spec:
  assumes wf: "ns_wf s"
  obtains (remote) "ctrl_cmd_new_lookup from service instance s = Some (- EINVAL, s)" "sq_node from \<noteq> local_node s"
  | (no_memory) s' where "ctrl_cmd_new_lookup from service instance s = Some (- EINVAL, s')"
      "sq_node from = local_node s" "grows 0 s s'" "dir s' = dir s" "services s' = services s"
      "lookups s' = lookups s" "sent s' = sent s" "\<not> alloc_all (heap_script s)"
  | (accepted) s' lk where "ctrl_cmd_new_lookup from service instance s = Some (0, s')"
      "sq_node from = local_node s" "lk = \<lparr>lk_service = service, lk_instance = instance, lk_sq = from\<rparr>"
      "grows 0 s s'" "dir s' = dir s" "services s' = services s" "lookups s' = lookups s @ [lk]"
      "sent s' = sent s @ lookup_packets s lk"
proof (cases "sq_node from = local_node s")
  case False
  then show thesis by (intro remote) (auto simp: ctrl_cmd_new_lookup_def)
next
  case loc: True
  obtain b al where al: "alloc (heap_script s) = (b, al)" by fastforce
  show thesis
  proof (cases b)
    case False
    have "\<not> alloc_all (heap_script s)" using alloc_all_alloc [OF _ al] False by auto
    then show thesis using loc al False wf
      by (intro no_memory [of "s\<lparr>heap_script := al\<rparr>"]) (auto simp: ctrl_cmd_new_lookup_def)
  next
    case True
    let ?lk = "\<lparr>lk_service = service, lk_instance = instance, lk_sq = from\<rparr>"
    let ?f = "\<lparr>f_service = service, f_instance = instance, f_ifilter = 0\<rparr>"
    let ?s = "s\<lparr>heap_script := al, lookups := lookups s @ [?lk]\<rparr>"
    have wf': "ns_wf ?s" using wf by (simp add: ns_wf_def)
    let ?r = "filter (matching ?f ?s) (all_servers ?s)"
    have "\<forall>sp \<in> set ?r. server_mem ?s sp \<noteq> None" using all_servers_alloc [OF wf'] by auto
    note reply = lookup_reply_eq [OF this, of "from"]
    have m: "matching ?f ?s = (\<lambda>sp. observes (srv_service (the (server_mem s sp)))
        (srv_instance (the (server_mem s sp))) ?lk)"
      by (rule ext) (simp add: matching_def server_match_observes [of _ service "instance" "from"])
    have sel: "map (\<lambda>sp. (from, notify_bytes (host_be ?s) QRTR_TYPE_NEW_SERVER (the (server_mem ?s sp)))) ?r @
        [(from, pkt_bytes (host_be s) (zero_pkt\<lparr>pkt_cmd := QRTR_TYPE_NEW_SERVER\<rparr>))] = lookup_packets s ?lk"
      by (simp add: lookup_packets_def filter_map comp_def m all_servers_def)
    have "ctrl_cmd_new_lookup from service instance s = Some (0, send_all (lookup_packets s ?lk) ?s)"
      using loc al True server_query_eq [OF wf', of ?f] reply
      by (simp add: ctrl_cmd_new_lookup_def lookup_notify_def Let_def sys_sendto_eq sel [symmetric])
    then show thesis using loc wf
      by (intro accepted [of "send_all (lookup_packets s ?lk) ?s" ?lk]) (auto simp: grows_send_all)
  qed
qed

lemma del_lookup_lookups_filter:
  "del_lookup_lookups from service instance lks =
    filter (\<lambda>lk. \<not> (sq_node (lk_sq lk) = sq_node from \<and> sq_port (lk_sq lk) = sq_port from \<and>
      lk_service lk = service \<and> (lk_instance lk = 0 \<or> lk_instance lk = instance))) lks"
  by (induction lks) auto

end
