(* ===== verification/Observer_List.thy ===== *)
theory Observer_List
  imports Linked_List Name_Server_Handlers
begin

text \<open>
  The list of observers of \<open>src/ns.c\<close> at the level of the intrusive list: \<open>ctx->lookups\<close> links
  \<open>struct lookup\<close> objects through their member \<open>li\<close>. The operations and loops of \<open>Name_Server\<close>, which
  work on a HOL list of observers, are refined by the loops of the code over the store of
  \<open>Linked_List\<close>. The same holds for the list of replies that \<open>server_query\<close> builds.
\<close>

section \<open>The list and its operations\<close>

text \<open>
  The store of list items with the header \<open>ctx->lookups\<close>, and the objects; \<open>container_of\<close> takes the
  address of an item to its object, so both have the same address here.
\<close>

type_synonym observer_state = "lstate \<times> (ptr \<Rightarrow> lookup option)"

text \<open>\<open>calloc\<close>, the assignments and \<open>list_append\<close> of \<open>ctrl_cmd_new_lookup\<close>; \<open>a\<close> is the new address.\<close>

definition new_observer :: "ptr \<Rightarrow> lookup \<Rightarrow> observer_state \<Rightarrow> observer_state option" where
  "new_observer a lk st = (case st of ((h, l), mem) \<Rightarrow> do {
     s \<leftarrow> list_append a (h(a \<mapsto> \<lparr>li_next = None, li_prev = None\<rparr>), l);
     Some (s, mem(a \<mapsto> lk)) })"

text \<open>\<open>list_remove\<close> and \<open>free\<close>.\<close>

definition free_observer :: "ptr \<Rightarrow> observer_state \<Rightarrow> observer_state option" where
  "free_observer a st = (case st of (s, mem) \<Rightarrow> map_option (\<lambda>s. (s, mem(a := None))) (unlink_free a s))"

text \<open>The deletion loops of \<open>ctrl_cmd_del_client\<close> and \<open>ctrl_cmd_del_lookup\<close>.\<close>

definition del_client_observers :: "nat \<Rightarrow> u32 \<Rightarrow> u32 \<Rightarrow> observer_state \<Rightarrow> observer_state option" where
  "del_client_observers n node_id port st = list_for_each_safe n (\<lambda>a st. do {
     lk \<leftarrow> snd st a;
     (if sq_node (lk_sq lk) \<noteq> node_id then Some st
      else if sq_port (lk_sq lk) \<noteq> port then Some st
      else free_observer a st) }) (lhead (snd (fst st))) st"

definition del_lookup_observers :: "nat \<Rightarrow> sockaddr_qrtr \<Rightarrow> u32 \<Rightarrow> u32 \<Rightarrow> observer_state \<Rightarrow> observer_state option" where
  "del_lookup_observers n from service instance st = list_for_each_safe n (\<lambda>a st. do {
     lk \<leftarrow> snd st a;
     (if sq_node (lk_sq lk) \<noteq> sq_node from then Some st
      else if sq_port (lk_sq lk) \<noteq> sq_port from then Some st
      else if lk_service lk \<noteq> service then Some st
      else if lk_instance lk \<noteq> 0 \<and> lk_instance lk \<noteq> instance then Some st
      else free_observer a st) }) (lhead (snd (fst st))) st"

text \<open>The notification loops of \<open>ctrl_cmd_new_server\<close> and \<open>server_del\<close>.\<close>

definition notify_new :: "nat \<Rightarrow> u32 \<Rightarrow> u32 \<Rightarrow> ptr \<Rightarrow> observer_state \<Rightarrow> ns_state \<Rightarrow> ns_state option" where
  "notify_new n service instance sp st t = map_option snd (list_for_each n (\<lambda>a (s, t). do {
     lk \<leftarrow> snd st a;
     (if lk_service lk \<noteq> 0 \<and> lk_service lk \<noteq> service then Some (s, t)
      else if lk_instance lk \<noteq> 0 \<and> lk_instance lk \<noteq> instance then Some (s, t)
      else do { (_, t) \<leftarrow> lookup_notify (lk_sq lk) (Some sp) True t; Some (s, t) }) })
     (lhead (snd (fst st))) (fst st, t))"

definition notify_gone :: "nat \<Rightarrow> ptr \<Rightarrow> observer_state \<Rightarrow> ns_state \<Rightarrow> ns_state option" where
  "notify_gone n sp st t = map_option snd (list_for_each n (\<lambda>a (s, t). do {
     lk \<leftarrow> snd st a;
     srv \<leftarrow> server_mem t sp;
     (if lk_service lk \<noteq> 0 \<and> lk_service lk \<noteq> srv_service srv then Some (s, t)
      else if lk_instance lk \<noteq> 0 \<and> lk_instance lk \<noteq> srv_instance srv then Some (s, t)
      else do { (_, t) \<leftarrow> lookup_notify (lk_sq lk) (Some sp) False t; Some (s, t) }) })
     (lhead (snd (fst st))) (fst st, t))"

section \<open>Abstraction\<close>

text \<open>The items are linked in the order of the observers, and nothing else is allocated.\<close>

definition observers :: "observer_state \<Rightarrow> ptr list \<Rightarrow> lookup list \<Rightarrow> bool" where
  "observers st xs lks \<longleftrightarrow> dll (fst st) xs \<and> dom (fst (fst st)) = set xs \<and> dom (snd st) = set xs \<and>
     map (snd st) xs = map Some lks"

lemma observers_head: "observers st xs lks \<Longrightarrow> lhead (snd (fst st)) = first_of xs None"
  by (simp add: observers_def dll_def)

lemma new_observer_appends:
  assumes st: "observers st xs lks" and a: "a \<notin> set xs"
  shows "\<exists>st'. new_observer a lk st = Some st' \<and> observers st' (xs @ [a]) (lks @ [lk])"
proof -
  obtain h l mem where s: "st = ((h, l), mem)" by (metis surj_pair)
  have d: "dll (h(a \<mapsto> \<lparr>li_next = None, li_prev = None\<rparr>), l) xs"
    using st a by (simp add: observers_def s dll_def)
  from list_append_dll [OF this, of a] a obtain s' where
    s': "list_append a (h(a \<mapsto> \<lparr>li_next = None, li_prev = None\<rparr>), l) = Some s'" "dll s' (xs @ [a])"
      "dom (fst s') = insert a (dom h)" by auto
  have "map (mem(a \<mapsto> lk)) xs = map mem xs" using a by (simp add: map_fun_upd)
  with s' st show ?thesis by (auto simp: new_observer_def observers_def s)
qed

text \<open>Both deletion loops free the observers that satisfy a predicate, given the code of its test.\<close>

lemma free_observer_loop:
  assumes body: "\<And>a st lk. snd st a = Some lk \<Longrightarrow> body a st = (if P lk then free_observer a st else Some st)"
    and "dll s (ks @ ys)" "dom (fst s) = set (ks @ ys)" "dom mem = set (ks @ ys)"
    and "map mem ks = map Some ls" "map mem ys = map Some lks" "length ys \<le> n"
  shows "\<exists>st' zs. list_for_each_safe n body (first_of ys None) (s, mem) = Some st' \<and>
    observers st' (ks @ zs) (ls @ filter (\<lambda>lk. \<not> P lk) lks)"
  using assms(2-)
proof (induction ys arbitrary: ks ls lks n s mem)
  case Nil
  then show ?case by (cases n) (auto simp: observers_def intro: exI [of _ "[]"])
next
  case (Cons y ys)
  then obtain m where n: "n = Suc m" "length ys \<le> m" by (cases n) auto
  from Cons.prems(5) obtain lk lks' where lk: "lks = lk # lks'" "mem y = Some lk" "map mem ys = map Some lks'"
    by (cases lks) auto
  note nx = dll_next [OF Cons.prems(1)] and b = body [of "(s, mem)" y lk]
  have d: "distinct (ks @ y # ys)" using Cons.prems(1) by (simp add: dll_def)
  show ?case
  proof (cases "P lk")
    case True
    from unlink_free_dll [OF Cons.prems(1)] obtain s1 where
      s1: "unlink_free y s = Some s1" "dll s1 (ks @ ys)" "dom (fst s1) = dom (fst s) - {y}" by blast
    have "dom (fst s1) = set (ks @ ys)" "dom (mem(y := None)) = set (ks @ ys)"
      using s1(3) Cons.prems(2,3) d by auto
    moreover have "map (mem(y := None)) ks = map Some ls" "map (mem(y := None)) ys = map Some lks'"
      using Cons.prems(4) lk(3) d by (simp_all add: map_fun_upd)
    ultimately obtain st' zs where
      "list_for_each_safe m body (first_of ys None) (s1, mem(y := None)) = Some st'"
      "observers st' (ks @ zs) (ls @ filter (\<lambda>lk. \<not> P lk) lks')"
      using Cons.IH [OF s1(2) _ _ _ _ n(2)] by blast
    then show ?thesis using n nx b lk True s1(1) by (auto simp: free_observer_def)
  next
    case False
    have "\<exists>st' zs. list_for_each_safe m body (first_of ys None) (s, mem) = Some st' \<and>
        observers st' ((ks @ [y]) @ zs) ((ls @ [lk]) @ filter (\<lambda>lk. \<not> P lk) lks')"
      by (rule Cons.IH) (use Cons.prems lk n in auto)
    then obtain st' zs where
      "list_for_each_safe m body (first_of ys None) (s, mem) = Some st'"
      "observers st' (ks @ y # zs) (ls @ lk # filter (\<lambda>lk. \<not> P lk) lks')" by auto
    then show ?thesis using n nx b lk False by (intro exI [of _ st'] exI [of _ "y # zs"]) simp
  qed
qed

lemma free_observers:
  assumes body: "\<And>a st lk. snd st a = Some lk \<Longrightarrow> body a st = (if P lk then free_observer a st else Some st)"
    and st: "observers st xs lks" and n: "length xs \<le> n"
  shows "\<exists>st' ys. list_for_each_safe n body (first_of xs None) st = Some st' \<and>
    observers st' ys (filter (\<lambda>lk. \<not> P lk) lks)"
  using free_observer_loop [where body = body and P = P and s = "fst st" and ks = "[]" and ys = xs and mem = "snd st"
      and ls = "[]" and lks = lks and n = n, OF body] st n
  by (auto simp: observers_def)

lemma list_for_each_observers:
  assumes st: "observers st xs lks" and n: "length xs \<le> n"
    and body: "\<And>a t. body a (fst st, t) = do { lk \<leftarrow> snd st a; map_option (Pair (fst st)) (f lk t) }"
  shows "map_option snd (list_for_each n body (lhead (snd (fst st))) (fst st, t)) =
    foldl (\<lambda>r lk. Option.bind r (f lk)) (Some t) lks"
proof -
  let ?f = "\<lambda>a t. do { lk \<leftarrow> snd st a; f lk t }"
  have d: "dll (fst st) ([] @ xs)" using st by (simp add: observers_def)
  have body': "body a (fst st, t) = map_option (Pair (fst st)) (?f a t)" for a t
    by (cases "snd st a") (simp_all add: body)
  have eq: "map mem xs = map Some lks \<Longrightarrow>
      foldl (\<lambda>r a. Option.bind r (\<lambda>t. do { lk \<leftarrow> mem a; f lk t })) r xs = foldl (\<lambda>r lk. Option.bind r (f lk)) r lks"
    for mem :: "ptr \<Rightarrow> lookup option" and r xs lks
    by (induction xs arbitrary: lks r) (auto simp: Cons_eq_map_conv)
  have "map (snd st) xs = map Some lks" using st by (simp add: observers_def)
  from eq [OF this, of "Some t"] show ?thesis
    unfolding observers_head [OF st] list_for_each_fold [where f = ?f, OF d n body']
    by (simp add: option.map_comp comp_def option.map_ident)
qed

lemma foldl_bind_None: "foldl (\<lambda>r x. Option.bind r (f x)) None xs = None"
  by (induction xs) simp_all

lemma new_server_notify_fold:
  "new_server_notify lks service instance sp t = foldl (\<lambda>r lk. Option.bind r (\<lambda>t.
     if lk_service lk \<noteq> 0 \<and> lk_service lk \<noteq> service then Some t
     else if lk_instance lk \<noteq> 0 \<and> lk_instance lk \<noteq> instance then Some t
     else map_option snd (lookup_notify (lk_sq lk) (Some sp) True t))) (Some t) lks"
proof (induction lks arbitrary: t)
  case (Cons lk lks)
  show ?case
    using Cons by (cases "lookup_notify (lk_sq lk) (Some sp) True t") (auto simp: foldl_bind_None)
qed simp

lemma server_del_notify_fold:
  "server_del_notify lks sp t = foldl (\<lambda>r lk. Option.bind r (\<lambda>t. do {
     srv \<leftarrow> server_mem t sp;
     (if lk_service lk \<noteq> 0 \<and> lk_service lk \<noteq> srv_service srv then Some t
      else if lk_instance lk \<noteq> 0 \<and> lk_instance lk \<noteq> srv_instance srv then Some t
      else map_option snd (lookup_notify (lk_sq lk) (Some sp) False t)) })) (Some t) lks"
proof (induction lks arbitrary: t)
  case (Cons lk lks)
  show ?case
    using Cons by (cases "server_mem t sp"; cases "lookup_notify (lk_sq lk) (Some sp) False t")
      (auto simp: foldl_bind_None)
qed simp

section \<open>The list of replies\<close>

text \<open>
  \<open>server_query\<close> links the servers it selects through their member \<open>qli\<close>, whatever an earlier query
  left there. No server is selected twice, so the list is well linked and is what the model returns.
\<close>

definition reply_list :: "ptr list \<Rightarrow> lstate \<Rightarrow> lstate option" where
  "reply_list sps s = il.append_all sps (fst s, list_init (snd s))"

lemma all_servers_distinct:
  assumes wf: "ns_wf s"
  shows "distinct (all_servers s)"
proof -
  let ?t = "\<lambda>e. map snd (entries (nd_services (the (node_mem s (snd e)))))"
  have node: "\<exists>nd. node_mem s (snd e) = Some nd \<and> fst e = hash_u32 (nd_id nd) \<and> services_ok (server_mem s) nd"
    if "e \<in> set (entries (nodes s))" for e
    using ns_wf_nodeD [OF wf, of "fst e" "snd e"] that by (metis prod.collapse)
  have own: "\<exists>srv. server_mem s q = Some srv \<and> hash_u32 (srv_node srv) = fst e"
    if "e \<in> set (entries (nodes s))" "q \<in> set (?t e)" for e q
    using node [OF that(1)] that(2) by (auto simp: services_ok_def server_ok_def split: option.splits)
  have ne: "set (?t e) \<inter> set (?t e') = {}"
    if e: "e \<in> set (entries (nodes s))" "e' \<in> set (entries (nodes s))" "fst e \<noteq> fst e'" for e e'
    using own [OF e(1)] own [OF e(2)] e(3) by fastforce
  have "distinct (map fst (entries (nodes s)))"
    using wf by (simp add: ns_wf_def tables_wf_def map_uniq_def)
  moreover have "distinct (?t e)" if "e \<in> set (entries (nodes s))" for e
    using node [OF that] by (auto simp: services_ok_def)
  moreover have "distinct (concat (map ?t es))" if "distinct (map fst es)" "set es \<subseteq> set (entries (nodes s))"
      "\<And>e. e \<in> set es \<Longrightarrow> distinct (?t e)" for es
    using that
  proof (induction es)
    case (Cons e es)
    have "set (?t e) \<inter> set (?t e') = {}" if "e' \<in> set es" for e'
      by (rule ne) (use Cons.prems that in auto)
    then show ?case using Cons by auto
  qed simp
  ultimately show ?thesis unfolding all_servers_def by blast
qed

lemma reply_list_linked:
  assumes wf: "ns_wf t" and q: "server_query f t = Some (cnt, sps)" and alloc: "\<And>sp. server_mem t sp \<noteq> None \<Longrightarrow> sp \<in> dom h"
  shows "\<exists>s'. reply_list sps (h, l) = Some s' \<and> dll s' sps \<and> cnt = int (length sps)"
proof -
  have sps: "sps = filter (matching f t) (all_servers t)" "cnt = int (length sps)"
    using q [unfolded server_query_eq [OF wf]] by auto
  have "set sps \<subseteq> dom (fst (h, list_init l))" using sps(1) all_servers_alloc [OF wf] alloc by auto
  from il.append_all_repr [OF dll_empty this] all_servers_distinct [OF wf] sps show ?thesis
    by (auto simp: reply_list_def)
qed

section \<open>Refinement\<close>

text \<open>Claim C29: the observers of the name server as the code keeps them, \<open>struct lookup\<close> objects linked
  through \<open>ctx->lookups\<close>, behave as the list of observers of the model, and nothing leaks: entering one
  with \<open>list_append\<close> appends it; the deletion loops of DEL_CLIENT and DEL_LOOKUP, which free the items
  they are at, are defined and leave exactly the remaining observers allocated and linked in order; the
  notification loops send what the model sends, in the same order.\<close>
theorem observer_list_refines:
  assumes st: "observers st xs lks" and n: "length xs \<le> n"
  shows "(a \<notin> set xs \<longrightarrow> (\<exists>st'. new_observer a lk st = Some st' \<and> observers st' (xs @ [a]) (lks @ [lk]))) \<and>
    (\<exists>st' ys. del_client_observers n nid port st = Some st' \<and> observers st' ys (del_client_lookups nid port lks)) \<and>
    (\<exists>st' ys. del_lookup_observers n from service instance st = Some st' \<and>
       observers st' ys (del_lookup_lookups from service instance lks)) \<and>
    notify_new n service instance sp st t = new_server_notify lks service instance sp t \<and>
    notify_gone n sp st t = server_del_notify lks sp t"
proof (intro conjI impI)
  note h = observers_head [OF st]
  show "\<exists>st'. new_observer a lk st = Some st' \<and> observers st' (xs @ [a]) (lks @ [lk])" if "a \<notin> set xs"
    by (rule new_observer_appends [OF st that])
  show "\<exists>st' ys. del_client_observers n nid port st = Some st' \<and> observers st' ys (del_client_lookups nid port lks)"
    unfolding del_client_observers_def del_client_lookups_filter h
    by (rule free_observers [OF _ st n]) simp
  show "\<exists>st' ys. del_lookup_observers n from service instance st = Some st' \<and>
      observers st' ys (del_lookup_lookups from service instance lks)"
    unfolding del_lookup_observers_def del_lookup_lookups_filter h
    by (rule free_observers [OF _ st n]) auto
  show "notify_new n service instance sp st t = new_server_notify lks service instance sp t"
    unfolding notify_new_def new_server_notify_fold
    by (rule list_for_each_observers [OF st n]) (auto intro!: Option.bind_cong split: bind_splits)
  show "notify_gone n sp st t = server_del_notify lks sp t"
    unfolding notify_gone_def server_del_notify_fold
    by (rule list_for_each_observers [OF st n]) (auto intro!: Option.bind_cong split: bind_splits)
qed

text \<open>Two observers, on the ports 7 and 8 of node 1; the first asks for service 5.\<close>

definition observer_7 :: lookup where
  "observer_7 = \<lparr>lk_service = 5, lk_instance = 0, lk_sq = \<lparr>sq_family = AF_QIPCRTR, sq_node = 1, sq_port = 7\<rparr>\<rparr>"

definition observer_8 :: lookup where
  "observer_8 = \<lparr>lk_service = 0, lk_instance = 0, lk_sq = \<lparr>sq_family = AF_QIPCRTR, sq_node = 1, sq_port = 8\<rparr>\<rparr>"

definition two_observers :: observer_state where
  "two_observers = (([1 \<mapsto> \<lparr>li_next = Some 2, li_prev = None\<rparr>, 2 \<mapsto> \<lparr>li_next = None, li_prev = Some 1\<rparr>],
     \<lparr>lhead = Some 1, ltail = Some 2\<rparr>), [1 \<mapsto> observer_7, 2 \<mapsto> observer_8])"

lemma two_observers_linked: "observers two_observers [1, 2] [observer_7, observer_8]"
  by (auto simp: observers_def two_observers_def dll_def)

theorem observer_list_refines_witness:
  "(\<exists>st'. new_observer 3 observer_7 two_observers = Some st' \<and>
      observers st' [1, 2, 3] [observer_7, observer_8, observer_7]) \<and>
    (\<exists>st' ys. del_client_observers 2 1 7 two_observers = Some st' \<and> observers st' ys [observer_8])"
  using observer_list_refines [OF two_observers_linked, of 2 3 observer_7 1 7]
  by (auto simp: observer_7_def observer_8_def)

end
