(* ===== verification/Name_Server_Run.thy ===== *)
theory Name_Server_Run
  imports Name_Server_Handlers
begin

text \<open>
  The dispatcher, whole runs and the exit: one step of the control port keeps the invariant, only
  changes the part of the directory that belongs to the sender's node, and admits only local
  observers; a run is a sequence of such steps from the start; the exit releases every node and
  server of the tables exactly once.
\<close>

section \<open>One step\<close>

definition observers_local :: "ns_state \<Rightarrow> bool" where
  "observers_local s \<longleftrightarrow> (\<forall>lk \<in> set (lookups s). sq_node (lk_sq lk) = local_node s)"

definition stepped :: "ns_state \<Rightarrow> sockaddr_qrtr \<Rightarrow> ns_state \<Rightarrow> bool" where
  "stepped s sq s' \<longleftrightarrow> grows 2 s s' \<and>
     (\<forall>n. n \<noteq> sq_node sq \<longrightarrow> dir s' n = dir s n \<and> services s' n = services s n) \<and>
     (observers_local s \<longrightarrow> observers_local s')"

definition runs :: "(int \<times> ns_state) option \<Rightarrow> ns_state \<Rightarrow> sockaddr_qrtr \<Rightarrow> bool" where
  "runs res s sq \<longleftrightarrow> (\<exists>rc s'. res = Some (rc, s') \<and> stepped s sq s')"

lemma runsI: "res = Some (rc, s') \<Longrightarrow> stepped s sq s' \<Longrightarrow> runs res s sq"
  by (auto simp: runs_def)

lemma stepped_same [simp]: "ns_wf s \<Longrightarrow> stepped s sq s"
  by (simp add: stepped_def)

lemma runs_same: "res = Some (rc, s) \<Longrightarrow> ns_wf s \<Longrightarrow> runs res s sq"
  by (auto simp: runs_def)

lemma runs_if: "runs a s sq \<Longrightarrow> runs b s sq \<Longrightarrow> runs (if P then a else b) s sq"
  by simp

lemma observers_local_cong:
  "lookups s' = lookups s \<Longrightarrow> grows k s s' \<Longrightarrow> observers_local s' = observers_local s"
  by (simp add: observers_local_def grows_def)

lemma observers_local_filter:
  "lookups s' = filter P (lookups s) \<Longrightarrow> grows k s s' \<Longrightarrow> observers_local s \<Longrightarrow> observers_local s'"
  by (auto simp: observers_local_def grows_def)

lemma hello_runs:
  assumes wf: "ns_wf s" and bnd: "ns_bound 2 s"
  shows "runs (ctrl_cmd_hello sq buf s) s sq"
proof (cases rule: ctrl_cmd_hello_spec [OF wf ns_bound_mono [OF bnd], of sq buf])
  case (2 rc s' n)
  have "grows 2 s s'" by (rule grows_mono [OF 2(2)]) simp
  then show ?thesis using 2 observers_local_cong [OF 2(5)] by (intro runsI) (auto simp: stepped_def)
qed simp

lemma bye_runs:
  assumes wf: "ns_wf s" and bnd: "ns_bound 2 s"
  shows "runs (ctrl_cmd_bye sq s) s sq"
proof (cases rule: ctrl_cmd_bye_spec [OF wf bnd, of sq])
  case (1 s')
  then show ?thesis using observers_local_cong [OF 1(3)] by (intro runsI) (auto simp: stepped_def)
qed

lemma del_client_runs:
  assumes wf: "ns_wf s" and bnd: "ns_bound 2 s"
  shows "runs (ctrl_cmd_del_client sq nid port s) s sq"
proof (cases rule: ctrl_cmd_del_client_spec [OF wf bnd, of sq nid port])
  case 1
  then show ?thesis by (intro runs_same wf)
next
  case (2 s')
  then show ?thesis
    using observers_local_filter [OF 2(5) [unfolded del_client_lookups_filter] 2(4)]
    by (intro runsI) (auto simp: stepped_def)
qed

lemma new_server_runs:
  assumes wf: "ns_wf s" and bnd: "ns_bound 2 s"
  shows "runs (ctrl_cmd_new_server sq service instance nid port s) s sq"
proof (cases rule: ctrl_cmd_new_server_spec [OF wf bnd, of sq service "instance" nid port])
  case 1
  then show ?thesis by (intro runs_same wf)
next
  case (2 s')
  then show ?thesis using observers_local_cong [OF 2(7)] by (intro runsI) (auto simp: stepped_def)
next
  case (3 s' rc)
  then show ?thesis using observers_local_cong [OF 3(6)] by (intro runsI) (auto simp: stepped_def)
qed

lemma del_server_runs:
  assumes wf: "ns_wf s" and bnd: "ns_bound 2 s"
  shows "runs (ctrl_cmd_del_server sq service instance nid port s) s sq"
proof (cases rule: ctrl_cmd_del_server_spec [OF wf ns_bound_mono [OF bnd], of sq service "instance" nid port])
  case 2
  then show ?thesis by (intro runs_same wf)
next
  case (3 s')
  have "grows 2 s s'" by (rule grows_mono [OF 3(2)]) simp
  then show ?thesis using 3 observers_local_cong [OF 3(6)] by (intro runsI) (auto simp: stepped_def)
next
  case (4 s' rc)
  have "grows 2 s s'" by (rule grows_mono [OF 4(3)]) simp
  then show ?thesis using 4 observers_local_cong [OF 4(4)] by (intro runsI) (auto simp: stepped_def)
qed simp

lemma new_lookup_runs:
  assumes wf: "ns_wf s" and bnd: "ns_bound 2 s"
  shows "runs (ctrl_cmd_new_lookup sq service instance s) s sq"
proof (cases rule: ctrl_cmd_new_lookup_spec [OF wf, of sq service "instance"])
  case 1
  then show ?thesis by (intro runs_same wf)
next
  case (2 s')
  have "grows 2 s s'" by (rule grows_mono [OF 2(3)]) simp
  then show ?thesis using 2 observers_local_cong [OF 2(6)] by (intro runsI) (auto simp: stepped_def)
next
  case (3 s' lk)
  have "grows 2 s s'" by (rule grows_mono [OF 3(4)]) simp
  then show ?thesis using 3 by (intro runsI) (auto simp: stepped_def observers_local_def grows_def)
qed

lemma del_lookup_runs:
  assumes wf: "ns_wf s"
  shows "runs (ctrl_cmd_del_lookup sq service instance s) s sq"
  using wf by (intro runsI) (auto simp: ctrl_cmd_del_lookup_def stepped_def del_lookup_lookups_filter observers_local_def)

lemma ctrl_port_fn_runs:
  assumes wf: "ns_wf s" and bnd: "ns_bound 2 s"
  shows "runs (ctrl_port_fn r s) s (rx_from r)"
proof -
  have quiet: "runs (Some (0, s)) s (rx_from r)" by (rule runs_same [OF refl wf])
  have closed: "runs (Some (0, s\<lparr>ctx_sock := - 1\<rparr>)) s (rx_from r)"
    using wf by (intro runsI) (auto simp: stepped_def observers_local_def)
  show ?thesis
    unfolding ctrl_port_fn_def Let_def
    by (intro runs_if quiet closed hello_runs bye_runs del_client_runs new_server_runs
        del_server_runs new_lookup_runs del_lookup_runs wf bnd)
qed

section \<open>Runs\<close>

text \<open>A step of the running server: the socket is open, a datagram arrives, and no table is near the
  \<open>int\<close> range that its size has to stay in.\<close>

inductive ns_step :: "ns_state \<Rightarrow> rx \<Rightarrow> ns_state \<Rightarrow> bool" where
  ns_step_intro: "0 \<le> ctx_sock s \<Longrightarrow> rx_valid r \<Longrightarrow> ns_bound 2 s \<Longrightarrow>
    ctrl_port_fn r s = Some (rc, s') \<Longrightarrow> ns_step s r s'"

inductive_cases ns_stepE: "ns_step s r s'"

inductive ns_reach :: "ns_state \<Rightarrow> ns_state \<Rightarrow> bool" where
  ns_reach_refl: "ns_reach s s"
| ns_reach_step: "ns_reach s t \<Longrightarrow> ns_step t r u \<Longrightarrow> ns_reach s u"

definition ns_inv :: "ns_state \<Rightarrow> bool" where
  "ns_inv s \<longleftrightarrow> ns_wf s \<and> observers_local s"

lemma ns_step_stepped:
  assumes "ns_wf s" "ns_step s r s'"
  shows "stepped s (rx_from r) s'"
proof -
  from assms(2) obtain rc where "ns_bound 2 s" "ctrl_port_fn r s = Some (rc, s')" by (rule ns_stepE)
  then show ?thesis using ctrl_port_fn_runs [OF assms(1), of r] by (auto simp: runs_def)
qed

lemma ns_step_inv: "ns_inv s \<Longrightarrow> ns_step s r s' \<Longrightarrow> ns_inv s'"
  using ns_step_stepped [of s r s'] by (auto simp: ns_inv_def stepped_def grows_def)

lemma ns_reach_inv: "ns_reach s t \<Longrightarrow> ns_inv s \<Longrightarrow> ns_inv t"
  by (induction rule: ns_reach.induct) (auto intro: ns_step_inv)

lemma ns_main_loop_total:
  assumes "ns_inv s" "ns_bound (2 * length rs) s"
  shows "\<exists>s'. ns_main_loop rs s = Some s' \<and> ns_inv s'"
  using assms
proof (induction rs arbitrary: s)
  case (Cons r rs)
  have b2: "ns_bound 2 s" by (rule ns_bound_mono [OF Cons.prems(2)]) simp
  obtain rc t where t: "ctrl_port_fn r s = Some (rc, t)" "stepped s (rx_from r) t"
    using ctrl_port_fn_runs [OF _ b2, of r] Cons.prems(1) by (auto simp: ns_inv_def runs_def)
  have inv: "ns_inv t" using t(2) Cons.prems(1) by (auto simp: ns_inv_def stepped_def grows_def)
  have "ns_bound (2 * length rs) t" using t(2) Cons.prems(2) by (simp add: stepped_def grows_def)
  from Cons.IH [OF inv this] show ?case using t(1) Cons.prems(1) by simp
qed simp

text \<open>A closed socket stays closed, and a datagram that closes it ends the loop.\<close>

lemma ns_main_loop_closed: "ctx_sock s < 0 \<Longrightarrow> ns_main_loop rs s = Some s"
  by (cases rs) simp_all

lemma ctrl_port_fn_stop:
  "rx_error r \<or> rx_data r = [] \<Longrightarrow> ctrl_port_fn r s = Some (0, s\<lparr>ctx_sock := - 1\<rparr>)"
  by (elim disjE) (simp_all add: ctrl_port_fn_def)

lemma ns_main_loop_stops:
  assumes "ns_main_loop rs s = Some s'" "stop \<in> set rs" "rx_error stop \<or> rx_data stop = []"
  shows "ctx_sock s' < 0"
  using assms
proof (induction rs arbitrary: s)
  case (Cons r rs)
  show ?case
  proof (cases "ctx_sock s \<ge> 0")
    case True
    obtain rc t where t: "ctrl_port_fn r s = Some (rc, t)" "ns_main_loop rs t = Some s'"
      using Cons.prems(1) True by (auto split: bind_splits)
    show ?thesis
    proof (cases "stop = r")
      case True
      then have "ctx_sock t < 0" using t(1) ctrl_port_fn_stop [of r s] Cons.prems(3) by auto
      then show ?thesis using t(2) ns_main_loop_closed by auto
    qed (use Cons t(2) in auto)
  qed (use Cons.prems(1) in auto)
qed simp

section \<open>Start\<close>

text \<open>A process that has not allocated a node or server yet.\<close>

definition boot :: "ns_state \<Rightarrow> bool" where
  "boot s \<longleftrightarrow> node_mem s = Map.empty \<and> server_mem s = Map.empty"

lemma ns_main_start_cases:
  assumes "ns_main_start sock_rc name_rc name bind_rc err s = Inr t"
  shows "0 \<le> ctx_sock t" "local_node t = sq_node name" "lookups t = []" "nodes t = \<lparr>msize = 0, mcount = 0, mdata = []\<rparr>"
    "node_mem t = node_mem s" "server_mem t = server_mem s"
    "sent t = sent s @ [(bcast_sq t, pkt_bytes (host_be s) (zero_pkt\<lparr>pkt_cmd := cpu_to_le32 (host_be s) QRTR_TYPE_HELLO\<rparr>))]"
    "bcast_sq t = \<lparr>sq_family = AF_QIPCRTR, sq_node = QRTR_NODE_BCAST, sq_port = QRTR_PORT_CTRL\<rparr>"
  using assms
  by (auto simp: ns_main_start_def say_hello_def sys_sendto_eq map_create_def Let_def split: if_splits)

lemma boot_inv:
  assumes "boot s" "nodes t = \<lparr>msize = 0, mcount = 0, mdata = []\<rparr>" "node_mem t = node_mem s"
    "server_mem t = server_mem s" "lookups t = []"
  shows "ns_inv t" "dir t = (\<lambda>_ _. None)" "256 * n < 2 ^ 31 \<Longrightarrow> ns_bound n t"
  using assms
  by (auto simp: boot_def ns_inv_def ns_wf_def tables_wf_def observers_local_def map_wf_def map_chain_def
      map_uniq_def no_tombs_def entries_def dir_def fun_eq_iff table_of_def map_abs_def ns_bound_def bound_tables_def)

section \<open>Exit\<close>

lemma release_servers:
  "distinct qs \<Longrightarrow> \<forall>q \<in> set qs. server_mem s q \<noteq> None \<Longrightarrow>
    release_all server_mi_free qs s = Some (s\<lparr>server_mem := (server_mem s) |` (- set qs)\<rparr>)"
proof (induction qs arbitrary: s)
  case (Cons q qs)
  then obtain srv where "server_mem s q = Some srv" by auto
  then have "release_all server_mi_free (q # qs) s =
      release_all server_mi_free qs (s\<lparr>server_mem := (server_mem s)(q := None)\<rparr>)"
    by (simp add: server_mi_free_def free_server_def)
  also have "\<dots> = Some (s\<lparr>server_mem := ((server_mem s)(q := None)) |` (- set qs)\<rparr>)"
    by (subst Cons.IH) (use Cons.prems in auto)
  also have "((server_mem s)(q := None)) |` (- set qs) = (server_mem s) |` (- set (q # qs))"
    by (rule ext) (auto simp: restrict_map_def)
  finally show ?case .
qed (simp add: restrict_map_def)

lemma node_mi_free_eq:
  assumes nd: "node_mem s p = Some nd" and ok: "services_ok (server_mem s) nd"
  shows "node_mi_free p s = Some (s\<lparr>node_mem := (node_mem s)(p := None),
    server_mem := (server_mem s) |` (- snd ` set (entries (nd_services nd)))\<rparr>)"
proof -
  have "\<forall>q \<in> set (map snd (entries (nd_services nd))). server_mem s q \<noteq> None"
    using ok by (auto simp: services_ok_def server_ok_def split: option.splits)
  from release_servers [OF _ this] ok
  have "release_all server_mi_free (map snd (entries (nd_services nd))) s =
    Some (s\<lparr>server_mem := (server_mem s) |` (- snd ` set (entries (nd_services nd)))\<rparr>)"
    by (simp add: services_ok_def)
  then show ?thesis using nd ok
    by (simp add: node_mi_free_def map_clear_spec services_ok_def free_node_def Let_def)
qed

text \<open>What the exit loop needs of the nodes still to be freed.\<close>

definition to_free :: "(u32 \<times> ptr) list \<Rightarrow> ns_state \<Rightarrow> bool" where
  "to_free es s \<longleftrightarrow> distinct (map fst es) \<and> distinct (map snd es) \<and>
     (\<forall>e \<in> set es. node_ok (node_mem s) (server_mem s) e)"

definition owned :: "ns_state \<Rightarrow> ptr \<Rightarrow> ptr set" where
  "owned s p = (case node_mem s p of None \<Rightarrow> {} | Some nd \<Rightarrow> snd ` set (entries (nd_services nd)))"

lemma node_mi_free_step:
  assumes f: "to_free ((k, p) # es) s"
  obtains nd where "node_mem s p = Some nd"
    "node_mi_free p s = Some (s\<lparr>node_mem := (node_mem s)(p := None),
       server_mem := (server_mem s) |` (- owned s p)\<rparr>)"
    "to_free es (s\<lparr>node_mem := (node_mem s)(p := None), server_mem := (server_mem s) |` (- owned s p)\<rparr>)"
    "\<And>q. q \<in> snd ` set es \<Longrightarrow>
       owned (s\<lparr>node_mem := (node_mem s)(p := None), server_mem := (server_mem s) |` (- owned s p)\<rparr>) q = owned s q"
proof -
  let ?s = "s\<lparr>node_mem := (node_mem s)(p := None), server_mem := (server_mem s) |` (- owned s p)\<rparr>"
  have "node_ok (node_mem s) (server_mem s) (k, p)" using f by (simp add: to_free_def)
  then obtain nd where nd: "node_mem s p = Some nd" "k = hash_u32 (nd_id nd)" "services_ok (server_mem s) nd"
    by (auto simp: node_ok_def split: option.splits)
  have own: "owned s p = snd ` set (entries (nd_services nd))" using nd(1) by (simp add: owned_def)
  have keep: "node_ok (node_mem ?s) (server_mem ?s) e" if e: "e \<in> set es" for e
  proof -
    have ne: "snd e \<noteq> p" "fst e \<noteq> k" using f e by (auto simp: to_free_def)
    have "node_ok (node_mem s) (server_mem s) e" using f e by (simp add: to_free_def)
    then obtain nd' where nd': "node_mem s (snd e) = Some nd'" "fst e = hash_u32 (nd_id nd')"
      "services_ok (server_mem s) nd'"
      by (auto simp: node_ok_def split: option.splits)
    have "server_ok (server_mem ?s) (nd_id nd') x" if x: "x \<in> set (entries (nd_services nd'))" for x
    proof -
      have ok: "server_ok (server_mem s) (nd_id nd') x" using nd'(3) x by (simp add: services_ok_def)
      have "snd x \<notin> owned s p"
      proof
        assume "snd x \<in> owned s p"
        then obtain y where y: "y \<in> set (entries (nd_services nd))" "snd y = snd x" unfolding own by force
        then have "server_ok (server_mem s) (nd_id nd) y" using nd(3) by (simp add: services_ok_def)
        then have "nd_id nd = nd_id nd'" using ok y(2) by (auto simp: server_ok_def split: option.splits)
        then show False using ne(2) nd(2) nd'(2) by simp
      qed
      then show ?thesis using ok by (simp add: server_ok_def)
    qed
    then show ?thesis using nd' ne by (simp add: node_ok_def services_ok_def)
  qed
  have "p \<notin> snd ` set es" "to_free es ?s" using f keep by (simp_all add: to_free_def)
  then show thesis using nd node_mi_free_eq [OF nd(1,3)] own by (intro that [of nd]) (auto simp: owned_def)
qed

lemma release_nodes:
  "to_free es s \<Longrightarrow> release_all node_mi_free (map snd es) s =
    Some (s\<lparr>node_mem := (node_mem s) |` (- snd ` set es),
      server_mem := (server_mem s) |` (- (\<Union>p \<in> snd ` set es. owned s p))\<rparr>)"
proof (induction es arbitrary: s)
  case (Cons e es)
  obtain k p where e: "e = (k, p)" by (cases e)
  let ?s = "s\<lparr>node_mem := (node_mem s)(p := None), server_mem := (server_mem s) |` (- owned s p)\<rparr>"
  from Cons.prems [unfolded e] obtain nd where st: "node_mi_free p s = Some ?s" "to_free es ?s"
    "\<And>q. q \<in> snd ` set es \<Longrightarrow> owned ?s q = owned s q"
    by (rule node_mi_free_step) blast
  have nm: "((node_mem s)(p := None)) |` (- snd ` set es) = (node_mem s) |` (- snd ` set (e # es))"
    by (rule ext) (auto simp: restrict_map_def e)
  have sm: "(server_mem s |` (- owned s p)) |` (- (\<Union>p \<in> snd ` set es. owned ?s p)) =
      (server_mem s) |` (- (\<Union>p \<in> snd ` set (e # es). owned s p))"
    using st(3) by (intro ext) (auto simp: restrict_map_def e)
  have "release_all node_mi_free (map snd (e # es)) s = release_all node_mi_free (map snd es) ?s"
    using st(1) by (simp add: e)
  also have "\<dots> = Some (?s\<lparr>node_mem := (node_mem ?s) |` (- snd ` set es),
      server_mem := (server_mem ?s) |` (- (\<Union>p \<in> snd ` set es. owned ?s p))\<rparr>)"
    by (rule Cons.IH [OF st(2)])
  also have "\<dots> = Some (s\<lparr>node_mem := ((node_mem s)(p := None)) |` (- snd ` set es),
      server_mem := (server_mem s |` (- owned s p)) |` (- (\<Union>p \<in> snd ` set es. owned ?s p))\<rparr>)"
    by simp
  finally show ?case unfolding nm sm .
qed (simp add: restrict_map_def)

lemma ns_main_exit_eq:
  assumes wf: "ns_wf s"
  obtains m where "ns_main_exit s = Some (s\<lparr>nodes := m, node_mem := (node_mem s) |` (- snd ` set (entries (nodes s))),
    server_mem := (server_mem s) |` (- set (all_servers s))\<rparr>)"
proof -
  have tf: "to_free (entries (nodes s)) s" and m: "map_wf (nodes s)"
    using wf by (simp_all add: ns_wf_def tables_wf_def to_free_def map_uniq_def)
  have own: "owned s (snd e) = snd ` set (entries (nd_services (the (node_mem s (snd e)))))"
    if e: "e \<in> set (entries (nodes s))" for e
  proof -
    obtain nd where "node_mem s (snd e) = Some nd"
      using ns_wf_nodeD [OF wf, of "fst e" "snd e"] e by auto
    then show ?thesis by (simp add: owned_def)
  qed
  have "(\<Union>p \<in> snd ` set (entries (nodes s)). owned s p) = (\<Union>e \<in> set (entries (nodes s)). owned s (snd e))" by simp
  also have "\<dots> = (\<Union>e \<in> set (entries (nodes s)). snd ` set (entries (nd_services (the (node_mem s (snd e))))))"
    by (rule SUP_cong [OF refl]) (rule own)
  also have "\<dots> = set (all_servers s)" by (simp add: all_servers_def)
  finally have all: "(\<Union>p \<in> snd ` set (entries (nodes s)). owned s p) = set (all_servers s)" .
  show thesis using release_nodes [OF tf, unfolded all] map_clear_spec [OF m, of node_mi_free s]
    by (intro that [of "map_destroy (nodes s\<lparr>mdata := replicate (unat (msize (nodes s))) Null, mcount := 0\<rparr>)"])
      (simp add: ns_main_exit_def)
qed

end
