(* ===== verification/Name_Server_Props.thy ===== *)
theory Name_Server_Props
  imports Name_Server_Run
begin

text \<open>
  The properties of the name server that the development claims, stated over the functions of
  \<open>src/ns.c\<close>, with the concrete states they are tried on.
\<close>

section \<open>Concrete states\<close>

definition at_port :: "u32 \<Rightarrow> u32 \<Rightarrow> sockaddr_qrtr" where
  "at_port nid port = \<lparr>sq_family = AF_QIPCRTR, sq_node = nid, sq_port = port\<rparr>"

lemma at_port_simps [simp]: "sq_node (at_port nid port) = nid" "sq_port (at_port nid port) = port"
  by (simp_all add: at_port_def)

text \<open>A server on node 1 that has just been started, with a byte order and stale stack words.\<close>

definition idle :: "bool \<Rightarrow> u32 \<times> u32 \<Rightarrow> ns_state" where
  "idle be junk = \<lparr>ctx_sock = 3, local_node = 1, bcast_sq = at_port QRTR_NODE_BCAST QRTR_PORT_CTRL,
     lookups = [], nodes = \<lparr>msize = 0, mcount = 0, mdata = []\<rparr>, node_mem = Map.empty,
     server_mem = Map.empty, brk = 1, heap_script = [], send_script = [], sent = [], host_be = be,
     stack_junk = junk\<rparr>"

lemma idle_simps [simp]:
  "ctx_sock (idle be junk) = 3" "local_node (idle be junk) = 1" "lookups (idle be junk) = []"
  "heap_script (idle be junk) = []" "send_script (idle be junk) = []" "sent (idle be junk) = []"
  "host_be (idle be junk) = be" "stack_junk (idle be junk) = junk"
  by (simp_all add: idle_def)

lemma idle_boot: "boot (idle be junk)"
  by (simp add: boot_def idle_def)

lemma idle_ok [simp]: "ns_inv (idle be junk)" "ns_bound 4 (idle be junk)" "dir (idle be junk) = (\<lambda>_ _. None)"
  using boot_inv(1,2) [where s = "idle be junk" and t = "idle be junk", OF idle_boot]
    boot_inv(3) [where s = "idle be junk" and t = "idle be junk" and n = 4, OF idle_boot]
  by (simp_all add: idle_def)

lemma idle_bound [simp]: "ns_bound 2 (idle be junk)" "ns_bound (Suc 0) (idle be junk)"
  using ns_bound_mono [OF idle_ok(2)] by (simp_all add: numeral_eq_Suc)

lemma idle_wf [simp]: "ns_wf (idle be junk)"
  using idle_ok(1) by (simp add: ns_inv_def)

lemma idle_table [simp]: "map_uniq (table_of (idle be junk) nid)" "no_tombs (table_of (idle be junk) nid)"
    "services (idle be junk) nid = []"
  by (simp_all add: table_of_def idle_def map_abs_def entries_def map_uniq_def no_tombs_def services_def)

text \<open>The same server after port 5 of node 1 has registered service 10, instance 7.\<close>

definition one_server :: ns_state where
  "one_server = snd (the (ctrl_cmd_new_server (at_port 1 5) 10 7 0 0 (idle False (0, 0))))"

lemma reg_port_idle [simp]: "reg_port (idle be junk) (at_port 1 port) p = port"
  by (simp add: reg_port_def)

lemma one_server_ok:
  "ns_wf one_server \<and> ns_bound 2 one_server \<and> map_uniq (table_of one_server 1) \<and>
    no_tombs (table_of one_server 1) \<and> dir one_server 1 = [5 \<mapsto> (10, 7)] \<and>
    added_server 10 7 1 5 \<in> set (services one_server 1) \<and>
    local_node one_server = 1 \<and> lookups one_server = []"
proof (cases rule: ctrl_cmd_new_server_spec [where s = "idle False (0, 0)", OF idle_wf idle_bound(1),
      of "at_port 1 5" 10 7 0 0])
  case 1
  then show ?thesis by simp
next
  case (2 s')
  then show ?thesis by simp
next
  case (3 s' rc)
  have s': "one_server = s'" using 3(1) by (simp add: one_server_def)
  have "ns_bound 2 s'" by (rule grows_bound [OF 3(5)]) simp
  with 3 show ?thesis unfolding s' by (simp add: grows_def)
qed

lemma one_server_script: "heap_script one_server = []"
  by code_simp

lemma one_server_host: "send_script one_server = []" "host_be one_server = False"
  by code_simp+

lemma one_server_services: "services one_server 1 = [added_server 10 7 1 5]"
  by code_simp

text \<open>A datagram that holds one packet with the given little-endian words.\<close>

definition packet_rx :: "bool \<Rightarrow> sockaddr_qrtr \<Rightarrow> u32 \<Rightarrow> u32 \<Rightarrow> u32 \<Rightarrow> u32 \<Rightarrow> u32 \<Rightarrow> rx" where
  "packet_rx be sq cmd w0 w1 w2 w3 = \<lparr>rx_error = False, rx_from = sq,
     rx_data = pkt_bytes be \<lparr>pkt_cmd = cpu_to_le32 be cmd, pkt_w0 = cpu_to_le32 be w0, pkt_w1 = cpu_to_le32 be w1,
       pkt_w2 = cpu_to_le32 be w2, pkt_w3 = cpu_to_le32 be w3\<rparr>, rx_stale = replicate 4096 0\<rparr>"

lemma packet_rx_from [simp]: "rx_from (packet_rx be sq cmd w0 w1 w2 w3) = sq"
  by (simp add: packet_rx_def)

lemma packet_rx_valid: "rx_valid (packet_rx be sq cmd w0 w1 w2 w3)"
  by (simp add: rx_valid_def packet_rx_def sizeof_ctrl_pkt_def)

lemma ctrl_port_fn_packet:
  assumes "host_be s = be"
  shows "ctrl_port_fn (packet_rx be sq cmd w0 w1 w2 w3) s =
    (if cmd = QRTR_TYPE_HELLO then ctrl_cmd_hello sq (rx_data (packet_rx be sq cmd w0 w1 w2 w3)) s
     else if cmd = QRTR_TYPE_BYE then ctrl_cmd_bye sq s
     else if cmd = QRTR_TYPE_DEL_CLIENT then ctrl_cmd_del_client sq w0 w1 s
     else if cmd = QRTR_TYPE_NEW_SERVER then ctrl_cmd_new_server sq w0 w1 w2 w3 s
     else if cmd = QRTR_TYPE_DEL_SERVER then ctrl_cmd_del_server sq w0 w1 w2 w3 s
     else if cmd = QRTR_TYPE_EXIT \<or> cmd = QRTR_TYPE_PING \<or> cmd = QRTR_TYPE_RESUME_TX then Some (0, s)
     else if cmd = QRTR_TYPE_NEW_LOOKUP then ctrl_cmd_new_lookup sq w0 w1 s
     else if cmd = QRTR_TYPE_DEL_LOOKUP then ctrl_cmd_del_lookup sq w0 w1 s
     else Some (0, s))"
  using assms by (simp add: ctrl_port_fn_def packet_rx_def rx_buf_def Let_def sizeof_ctrl_pkt_def)

text \<open>A whole packet hides what the buffer held before, so runs of packets can be evaluated without it.\<close>

definition bare_rx :: "bool \<Rightarrow> sockaddr_qrtr \<Rightarrow> u32 \<Rightarrow> u32 \<Rightarrow> u32 \<Rightarrow> u32 \<Rightarrow> u32 \<Rightarrow> rx" where
  "bare_rx be sq cmd w0 w1 w2 w3 = \<lparr>rx_error = False, rx_from = sq,
     rx_data = pkt_bytes be \<lparr>pkt_cmd = cpu_to_le32 be cmd, pkt_w0 = cpu_to_le32 be w0, pkt_w1 = cpu_to_le32 be w1,
       pkt_w2 = cpu_to_le32 be w2, pkt_w3 = cpu_to_le32 be w3\<rparr>, rx_stale = []\<rparr>"

lemma pkt_of_bytes_append: "20 \<le> length bs \<Longrightarrow> pkt_of_bytes be (bs @ r) = pkt_of_bytes be bs"
  by (simp add: pkt_of_bytes_def)

lemma packet_loop:
  assumes "ns_main_loop rs = ns_main_loop rs'"
  shows "ns_main_loop (packet_rx be sq cmd w0 w1 w2 w3 # rs) = ns_main_loop (bare_rx be sq cmd w0 w1 w2 w3 # rs')"
proof -
  let ?p = "packet_rx be sq cmd w0 w1 w2 w3" and ?q = "bare_rx be sq cmd w0 w1 w2 w3"
  have eqs: "rx_from ?p = rx_from ?q" "rx_error ?p = rx_error ?q" "rx_data ?p = rx_data ?q"
    "pkt_of_bytes b (rx_buf ?p) = pkt_of_bytes b (rx_buf ?q)" for b
    by (simp_all add: packet_rx_def bare_rx_def rx_buf_def pkt_of_bytes_append sizeof_ctrl_pkt_def)
  have "ctrl_port_fn (packet_rx be sq cmd w0 w1 w2 w3) = ctrl_port_fn (bare_rx be sq cmd w0 w1 w2 w3)"
    by (rule ext) (simp only: ctrl_port_fn_def eqs)
  with assms show ?thesis by (intro ext) simp
qed

section \<open>Safety of the dispatcher and of whole runs\<close>

text \<open>Claim C20: on a state that satisfies the invariant, with tables below the size bound, handling
  any datagram is defined: no handler dereferences or frees an address that is not allocated, indexes
  outside a table or runs forever. The invariant holds afterwards, the local node id stays, and
  datagrams are only appended.\<close>
theorem ctrl_port_fn_safe:
  assumes "ns_inv s" "ns_bound 2 s"
  shows "\<exists>rc s' ds. ctrl_port_fn r s = Some (rc, s') \<and> ns_inv s' \<and> local_node s' = local_node s \<and>
    sent s' = sent s @ ds"
proof -
  obtain rc s' where "ctrl_port_fn r s = Some (rc, s')" "stepped s (rx_from r) s'"
    using ctrl_port_fn_runs [of s r] assms by (auto simp: runs_def ns_inv_def)
  then show ?thesis using assms by (auto simp: stepped_def grows_def ns_inv_def)
qed

theorem ctrl_port_fn_safe_witness:
  "\<exists>rc s' ds. ctrl_port_fn (packet_rx False (at_port 1 5) QRTR_TYPE_NEW_SERVER 10 7 0 0) (idle False (0, 0)) =
      Some (rc, s') \<and> ns_inv s' \<and> local_node s' = local_node (idle False (0, 0)) \<and>
    sent s' = sent (idle False (0, 0)) @ ds"
  by (rule ctrl_port_fn_safe) simp_all

text \<open>Claim C31: in every state a started name server reaches, each registered server is stored under
  its own node with a non-zero service and port, every observer is local, and the tables and the
  store are consistent.\<close>
theorem reachable_directory:
  assumes "boot s0" "ns_main_start sock_rc name_rc name bind_rc err s0 = Inr s" "ns_reach s t"
  shows "ns_wf t \<and> (\<forall>nid. \<forall>srv \<in> set (services t nid).
      srv_node srv = nid \<and> srv_service srv \<noteq> 0 \<and> srv_port srv \<noteq> 0) \<and>
    (\<forall>lk \<in> set (lookups t). sq_node (lk_sq lk) = local_node t)"
proof -
  have "ns_inv s" by (rule boot_inv [OF assms(1)]) (use ns_main_start_cases [OF assms(2)] in simp_all)
  then have inv: "ns_wf t" "observers_local t" using ns_reach_inv [OF assms(3)] by (simp_all add: ns_inv_def)
  have "srv_node srv = nid \<and> srv_service srv \<noteq> 0 \<and> srv_port srv \<noteq> 0" if srv: "srv \<in> set (services t nid)" for nid srv
  proof -
    obtain k q where e: "(k, q) \<in> set (entries (table_of t nid))" "srv = the (server_mem t q)"
      using srv by (auto simp: services_def)
    show ?thesis by (rule table_entry [OF inv(1) e(1)]) (simp add: e(2))
  qed
  then show ?thesis using inv by (auto simp: observers_local_def)
qed

lemma start_idle:
  "\<exists>s. ns_main_start 3 0 (at_port 1 7) 0 0 (idle False (0, 0)) = Inr s"
  by (simp add: ns_main_start_def say_hello_def sys_sendto_eq send_rc_def send_all_def Let_def)

theorem reachable_directory_witness:
  "\<exists>s t rc. ns_main_start 3 0 (at_port 1 7) 0 0 (idle False (0, 0)) = Inr s \<and>
    ctrl_port_fn (packet_rx False (at_port 1 5) QRTR_TYPE_NEW_LOOKUP 10 0 0 0) s = Some (rc, t) \<and>
    (ns_wf t \<and> (\<forall>nid. \<forall>srv \<in> set (services t nid).
      srv_node srv = nid \<and> srv_service srv \<noteq> 0 \<and> srv_port srv \<noteq> 0) \<and>
    (\<forall>lk \<in> set (lookups t). sq_node (lk_sq lk) = local_node t))"
proof -
  obtain s where s: "ns_main_start 3 0 (at_port 1 7) 0 0 (idle False (0, 0)) = Inr s" using start_idle by blast
  note c = ns_main_start_cases [OF s]
  have inv: "ns_inv s" and b: "ns_bound 2 s"
    using boot_inv(1) [OF idle_boot c(4-6,3)] boot_inv(3) [OF idle_boot c(4-6,3), of 2] by simp_all
  obtain rc t where t: "ctrl_port_fn (packet_rx False (at_port 1 5) QRTR_TYPE_NEW_LOOKUP 10 0 0 0) s = Some (rc, t)"
    using ctrl_port_fn_runs [of s "packet_rx False (at_port 1 5) QRTR_TYPE_NEW_LOOKUP 10 0 0 0"] inv b
    by (auto simp: runs_def ns_inv_def)
  have "ns_reach s t"
    by (rule ns_reach_step [OF ns_reach_refl ns_step_intro [OF c(1) packet_rx_valid b t]])
  then show ?thesis using reachable_directory [OF idle_boot s] s t by blast
qed

text \<open>Claim C21: a name server that started keeps running through any sequence of up to 4194303
  datagrams, and whenever it stops, the exit path releases its tables without touching a freed
  object.\<close>
theorem ns_run_never_stuck:
  assumes "boot s0" "ns_main_start sock_rc name_rc name bind_rc err s0 = Inr s" "length rs \<le> 4194303"
  shows "\<exists>s' s''. ns_main_loop rs s = Some s' \<and> ns_main_exit s' = Some s''"
proof -
  note c = ns_main_start_cases [OF assms(2)]
  have "ns_bound (2 * length rs) s"
    by (rule boot_inv(3) [OF assms(1) c(4-6,3)]) (use assms(3) in simp)
  then obtain s' where "ns_main_loop rs s = Some s'" "ns_inv s'"
    using ns_main_loop_total [OF boot_inv(1) [OF assms(1) c(4-6,3)]] by blast
  then show ?thesis by (metis ns_inv_def ns_main_exit_eq)
qed

theorem ns_run_never_stuck_witness:
  "\<exists>s s' s''. ns_main_start 3 0 (at_port 1 7) 0 0 (idle False (0, 0)) = Inr s \<and>
    ns_main_loop [packet_rx False (at_port 1 5) QRTR_TYPE_NEW_SERVER 10 7 0 0] s = Some s' \<and>
    ns_main_exit s' = Some s''"
proof -
  obtain s where s: "ns_main_start 3 0 (at_port 1 7) 0 0 (idle False (0, 0)) = Inr s" using start_idle by blast
  from ns_run_never_stuck [OF idle_boot s, of "[packet_rx False (at_port 1 5) QRTR_TYPE_NEW_SERVER 10 7 0 0]"] s
  show ?thesis by auto
qed

text \<open>Claim C37: the exit path frees every node of the table and every server of every service table
  exactly once, and nothing else.\<close>
theorem ns_main_exit_frees:
  assumes "ns_wf s"
  shows "\<exists>s'. ns_main_exit s = Some s' \<and>
    node_mem s' = (node_mem s) |` (- snd ` set (entries (nodes s))) \<and>
    server_mem s' = (server_mem s) |` (- set (all_servers s)) \<and> sent s' = sent s"
  by (rule ns_main_exit_eq [OF assms]) auto

theorem ns_main_exit_frees_witness:
  "\<exists>s'. ns_main_exit one_server = Some s' \<and>
    node_mem s' = (node_mem one_server) |` (- snd ` set (entries (nodes one_server))) \<and>
    server_mem s' = (server_mem one_server) |` (- set (all_servers one_server)) \<and> sent s' = sent one_server"
  by (rule ns_main_exit_frees) (simp add: one_server_ok)

section \<open>Who may change what\<close>

text \<open>Claim C22: a datagram from one node never changes what is registered on another node: for every
  node id other than the sender's, the directory and the server list are the same before and
  after.\<close>
theorem node_isolation:
  assumes "ns_inv s" "ns_bound 2 s" "ctrl_port_fn r s = Some (rc, s')" "n \<noteq> sq_node (rx_from r)"
  shows "dir s' n = dir s n \<and> services s' n = services s n"
  using ctrl_port_fn_runs [of s r] assms by (auto simp: runs_def stepped_def ns_inv_def)

theorem node_isolation_witness:
  "\<exists>rc s'. ctrl_port_fn (packet_rx False (at_port 2 9) QRTR_TYPE_BYE 0 0 0 0) one_server = Some (rc, s') \<and>
    dir s' 1 = dir one_server 1 \<and> services s' 1 = services one_server 1"
proof -
  have inv: "ns_inv one_server" using one_server_ok by (simp add: ns_inv_def observers_local_def)
  have b: "ns_bound 2 one_server" using one_server_ok by simp
  obtain rc s' where "ctrl_port_fn (packet_rx False (at_port 2 9) QRTR_TYPE_BYE 0 0 0 0) one_server = Some (rc, s')"
    using ctrl_port_fn_safe [OF inv b, of "packet_rx False (at_port 2 9) QRTR_TYPE_BYE 0 0 0 0"] by blast
  with node_isolation [OF inv b this, of 1] show ?thesis by auto
qed

text \<open>Claim C23: spoofed control packets are refused with \<open>-EINVAL\<close> and leave the whole state as it
  was: a server announced or withdrawn for another node, a client closed by another node or by another
  local port, and a lookup from a remote node.\<close>
theorem spoofed_packets_rejected:
  assumes "(cmd = QRTR_TYPE_NEW_SERVER \<or> cmd = QRTR_TYPE_DEL_SERVER) \<and> sq_node sq \<notin> {local_node s, w2} \<or>
    cmd = QRTR_TYPE_DEL_CLIENT \<and> (sq_node sq \<noteq> w0 \<or> sq_node sq = local_node s \<and> sq_port sq \<noteq> w1) \<or>
    cmd = QRTR_TYPE_NEW_LOOKUP \<and> sq_node sq \<noteq> local_node s"
  shows "ctrl_port_fn (packet_rx (host_be s) sq cmd w0 w1 w2 w3) s = Some (- EINVAL, s)"
  using assms
  by (auto simp: ctrl_port_fn_packet qrtr_type_defs ctrl_cmd_new_server_def ctrl_cmd_del_server_def
      ctrl_cmd_del_client_def ctrl_cmd_new_lookup_def)

theorem spoofed_packets_rejected_witness:
  "ctrl_port_fn (packet_rx (host_be (idle False (0, 0))) (at_port 2 5) QRTR_TYPE_NEW_SERVER 10 7 3 5)
    (idle False (0, 0)) = Some (- EINVAL, idle False (0, 0))"
  by (rule spoofed_packets_rejected) simp

section \<open>Registration\<close>

text \<open>Claim C24: with memory available, a NEW_SERVER from a local port, or from a remote node about
  itself, with a non-zero service and port enters the service and instance under that node and port
  and changes nothing else in the directory; the datagrams are a broadcast if the server is local and
  one notification per matching observer, in order. The service table must hold no key twice, and
  the port must be new or the table free of deletion marks.\<close>
theorem new_server_registers:
  assumes "ns_wf s" "ns_bound 2 s" "alloc_all (heap_script s)"
    and "sq_node sq = local_node s \<or> sq_node sq = nid" "service \<noteq> 0" "reg_port s sq port \<noteq> 0"
    and "map_uniq (table_of s (sq_node sq))"
    and "dir s (sq_node sq) (reg_port s sq port) = None \<or> no_tombs (table_of s (sq_node sq))"
  shows "\<exists>rc s'. ctrl_cmd_new_server sq service instance nid port s = Some (rc, s') \<and>
    dir s' = (dir s)(sq_node sq := (dir s (sq_node sq))(reg_port s sq port \<mapsto> (service, instance))) \<and>
    map_uniq (table_of s' (sq_node sq)) \<and> lookups s' = lookups s \<and>
    sent s' = sent s @ new_packets s (added_server service instance (sq_node sq) (reg_port s sq port))"
proof (cases rule: ctrl_cmd_new_server_spec [OF assms(1,2), of sq service "instance" nid port])
  case (3 s' rc)
  have "dir s' = (dir s)(sq_node sq := (dir s (sq_node sq))(reg_port s sq port \<mapsto> (service, instance)))"
    using 3(7) 3(10) [OF assms(7,8)] by (intro ext) auto
  with 3 assms show ?thesis by auto
qed (use assms in auto)

theorem new_server_registers_witness:
  "\<exists>rc s'. ctrl_cmd_new_server (at_port 1 6) 11 2 0 0 one_server = Some (rc, s') \<and>
    dir s' = (dir one_server)(sq_node (at_port 1 6) := (dir one_server (sq_node (at_port 1 6)))
      (reg_port one_server (at_port 1 6) 0 \<mapsto> (11, 2))) \<and>
    map_uniq (table_of s' (sq_node (at_port 1 6))) \<and> lookups s' = lookups one_server \<and>
    sent s' = sent one_server @ new_packets one_server
      (added_server 11 2 (sq_node (at_port 1 6)) (reg_port one_server (at_port 1 6) 0))"
  by (rule new_server_registers) (use one_server_ok in \<open>simp_all add: one_server_script reg_port_def\<close>)

text \<open>Claim C25: If no allocation fails, a DEL_SERVER from a local port, or from a remote node about
  itself, takes exactly one server of that port out of the table of its node and returns 0, with the
  withdrawal of that server to the broadcast address if it was local and then to every matching
  observer; or, if the node has no server at the port, it returns \<open>-ENOENT\<close>, changes nothing and sends
  nothing. The observers and the other nodes stay as they are. If moreover the table of the node holds
  no port twice, the directory afterwards is the old one without that registration, and the table still
  holds no port twice. (The code can break this last condition when a port that is still registered
  registers again; DEL_SERVER then leaves the older registration behind.)\<close>
theorem del_server_unregisters:
  assumes "ns_wf s" "ns_bound 1 s" "alloc_all (heap_script s)"
    and "sq_node sq = local_node s \<or> sq_node sq = nid"
  shows "\<exists>rc s'. ctrl_cmd_del_server sq service instance nid port s = Some (rc, s') \<and>
    lookups s' = lookups s \<and> (\<forall>n. n \<noteq> sq_node sq \<longrightarrow> dir s' n = dir s n \<and> services s' n = services s n) \<and>
    (rc = - ENOENT \<and> reg_port s sq port \<notin> srv_port ` set (services s (sq_node sq)) \<and>
       services s' = services s \<and> sent s' = sent s \<or>
     rc = 0 \<and> (\<exists>srv \<in> set (services s (sq_node sq)). srv_port srv = reg_port s sq port \<and>
       add_mset srv (mset (services s' (sq_node sq))) = mset (services s (sq_node sq)) \<and>
       sent s' = sent s @ del_packets s srv)) \<and>
    (map_uniq (table_of s (sq_node sq)) \<longrightarrow> map_uniq (table_of s' (sq_node sq)) \<and>
      dir s' = (dir s)(sq_node sq := (dir s (sq_node sq))(reg_port s sq port := None)))"
proof (cases rule: ctrl_cmd_del_server_spec [OF assms(1,2), of sq service "instance" nid port])
  case (3 s' rc)
  have "dir s' = (dir s)(sq_node sq := (dir s (sq_node sq))(reg_port s sq port := None))"
    if "map_uniq (table_of s (sq_node sq))"
    using 3(5) 3(7) [OF that] by (intro ext) auto
  then show ?thesis using 3(1,4-7) by auto
qed (use assms in auto)

theorem del_server_unregisters_witness:
  "\<exists>s'. ctrl_cmd_del_server (at_port 1 5) 10 7 0 0 one_server = Some (0, s') \<and>
    lookups s' = [] \<and> services s' 1 = [] \<and> dir s' = (dir one_server)(1 := (dir one_server 1)(5 := None)) \<and>
    sent s' = sent one_server @ del_packets one_server (added_server 10 7 1 5)"
proof -
  have list: "services one_server 1 = [added_server 10 7 1 5]" by (rule one_server_services)
  from del_server_unregisters [of one_server "at_port 1 5" 0 10 7 0] list one_server_ok ns_bound_mono [of 2 one_server 1]
  show ?thesis by (simp add: one_server_script reg_port_def added_server_def) (metis (no_types))
qed

section \<open>Departures\<close>

text \<open>Claim C26: If no allocation fails and the service table of the sender's node holds no port twice
  (a condition that the code can break when a port that is still registered registers again, and without
  which the loop can leave a stale service behind), a BYE removes every service of that node and nothing
  else from the directory; it sends the withdrawal of each service in table order and then, if the node
  is remote, a BYE to every local service. The loop deletes from the table it iterates over.\<close>
theorem bye_purges_node:
  assumes "ns_wf s" "ns_bound 2 s" "alloc_all (heap_script s)" "map_uniq (table_of s (sq_node sq))"
  shows "\<exists>s'. ctrl_cmd_bye sq s = Some (0, s') \<and> dir s' = (dir s)(sq_node sq := (\<lambda>_. None)) \<and>
    lookups s' = lookups s \<and>
    sent s' = sent s @ concat (map (del_packets s) (services s (sq_node sq))) @
      (if sq_node sq = local_node s then [] else to_services s (bye_pkt (sq_node sq)))"
proof (cases rule: ctrl_cmd_bye_spec [OF assms(1,2), of sq])
  case (1 s')
  have "services s' (sq_node sq) = []" using 1(5) assms(3,4) by blast
  then have "dir s' (sq_node sq) = (\<lambda>_. None)"
    by (auto simp: services_def dir_def map_abs_def)
  then have "dir s' = (dir s)(sq_node sq := (\<lambda>_. None))" using 1(4) by (intro ext) auto
  then show ?thesis using 1(1,3,5) assms(3,4) by blast
qed

theorem bye_purges_node_witness:
  "\<exists>s'. ctrl_cmd_bye (at_port 1 5) one_server = Some (0, s') \<and>
    dir s' = (dir one_server)(sq_node (at_port 1 5) := (\<lambda>_. None)) \<and> lookups s' = lookups one_server \<and>
    sent s' = sent one_server @ concat (map (del_packets one_server) (services one_server (sq_node (at_port 1 5)))) @
      (if sq_node (at_port 1 5) = local_node one_server then []
       else to_services one_server (bye_pkt (sq_node (at_port 1 5))))"
  by (rule bye_purges_node) (use one_server_ok in \<open>simp_all add: one_server_script\<close>)

text \<open>Claim C27: If no allocation fails, an accepted DEL_CLIENT removes exactly the client's observers, leaves
  the other nodes alone, sends the withdrawal of a server that was registered at its port, if there was
  one, to the broadcast address and the observers that are left, and then the packet to every local service
  that is left. If moreover the table of the node holds no port twice, the directory afterwards is the old
  one without the registration of the port, and the table still holds no port twice. (The code can break
  this last condition when a port that is still registered registers again; an older registration of the
  port then stays.)\<close>
theorem del_client_purges_port:
  assumes "ns_wf s" "ns_bound 2 s" "alloc_all (heap_script s)"
    and "sq_node sq = nid" "sq_node sq = local_node s \<longrightarrow> sq_port sq = port"
  shows "\<exists>s' ds. ctrl_cmd_del_client sq nid port s = Some (0, s') \<and>
    lookups s' = filter (\<lambda>lk. \<not> (sq_node (lk_sq lk) = nid \<and> sq_port (lk_sq lk) = port)) (lookups s) \<and>
    (\<forall>n. n \<noteq> nid \<longrightarrow> dir s' n = dir s n \<and> services s' n = services s n) \<and>
    sent s' = sent s @ ds @ to_services s' (del_client_pkt s nid port) \<and>
    port_withdrawn (s\<lparr>lookups := lookups s'\<rparr>) nid port ds \<and>
    (map_uniq (table_of s nid) \<longrightarrow> map_uniq (table_of s' nid) \<and> dir s' = (dir s)(nid := (dir s nid)(port := None)))"
proof (cases rule: ctrl_cmd_del_client_spec [OF assms(1,2), of sq nid port])
  case (2 s')
  have "dir s' = (dir s)(nid := (dir s nid)(port := None))" if "map_uniq (table_of s nid)"
    using 2(6) 2(7) [OF assms(3) that] by (intro ext) auto
  then show ?thesis using 2(1,5,6) 2(7,8) [OF assms(3)] by (auto simp: del_client_lookups_filter)
qed (use assms in auto)

theorem del_client_purges_port_witness:
  "\<exists>s' ds. ctrl_cmd_del_client (at_port 1 5) 1 5 one_server = Some (0, s') \<and> lookups s' = [] \<and>
    dir s' = (dir one_server)(1 := (dir one_server 1)(5 := None)) \<and>
    sent s' = sent one_server @ ds @ to_services s' (del_client_pkt one_server 1 5) \<and>
    port_withdrawn (one_server\<lparr>lookups := []\<rparr>) 1 5 ds"
  using del_client_purges_port [of one_server "at_port 1 5" 1 5] one_server_ok
  by (simp add: one_server_script) (metis (no_types))

section \<open>Observers and discovery\<close>

text \<open>Claim C28: a NEW_LOOKUP from a local port is answered with one notification per matching server,
  over all nodes in table order, and then the empty packet that ends the list; the sender becomes the
  last observer and the directory stays.\<close>
theorem new_lookup_answers:
  assumes "ns_wf s" "sq_node sq = local_node s" "alloc_all (heap_script s)"
    and "lk = \<lparr>lk_service = service, lk_instance = instance, lk_sq = sq\<rparr>"
  shows "\<exists>s'. ctrl_cmd_new_lookup sq service instance s = Some (0, s') \<and> lookups s' = lookups s @ [lk] \<and>
    dir s' = dir s \<and> sent s' = sent s @ lookup_packets s lk"
  by (cases rule: ctrl_cmd_new_lookup_spec [OF assms(1), of sq service "instance"]) (use assms in auto)

theorem new_lookup_answers_witness:
  "\<exists>s'. ctrl_cmd_new_lookup (at_port 1 8) 10 0 one_server = Some (0, s') \<and>
    lookups s' = lookups one_server @ [\<lparr>lk_service = 10, lk_instance = 0, lk_sq = at_port 1 8\<rparr>] \<and>
    dir s' = dir one_server \<and>
    sent s' = sent one_server @ lookup_packets one_server \<lparr>lk_service = 10, lk_instance = 0, lk_sq = at_port 1 8\<rparr>"
  by (rule new_lookup_answers) (use one_server_ok in \<open>simp_all add: one_server_script\<close>)

lemma observes_match:
  "observes (srv_service srv) (srv_instance srv) lk \<longleftrightarrow>
    server_match srv \<lparr>f_service = lk_service lk, f_instance = lk_instance lk, f_ifilter = 0\<rparr> \<noteq> 0"
  by (auto simp: server_match_def observes_def Let_def)

text \<open>Claim C30: the query that answers a new observer and the loop that notifies the old ones of a
  new server agree: exactly those observers are notified, in order, whose own query would select
  the server.\<close>
theorem query_agrees_with_notification:
  assumes "server_mem s sp = Some srv"
  shows "new_server_notify lks (srv_service srv) (srv_instance srv) sp s =
    Some (send_all (map (\<lambda>lk. (lk_sq lk, notify_bytes (host_be s) QRTR_TYPE_NEW_SERVER srv))
      (filter (\<lambda>lk. server_match srv
        \<lparr>f_service = lk_service lk, f_instance = lk_instance lk, f_ifilter = 0\<rparr> \<noteq> 0) lks)) s)"
proof -
  have "observes (srv_service srv) (srv_instance srv) = (\<lambda>lk. server_match srv
      \<lparr>f_service = lk_service lk, f_instance = lk_instance lk, f_ifilter = 0\<rparr> \<noteq> 0)"
    by (rule ext) (rule observes_match)
  then show ?thesis using new_server_notify_eq [OF assms, of lks] by (simp add: notifications_def)
qed

text \<open>Two observers, of service 10 and of any service's instance 3.\<close>

definition watchers :: "lookup list" where
  "watchers = [\<lparr>lk_service = 10, lk_instance = 0, lk_sq = at_port 1 8\<rparr>,
     \<lparr>lk_service = 0, lk_instance = 3, lk_sq = at_port 1 9\<rparr>]"

definition stored :: ns_state where
  "stored = (idle False (0, 0))\<lparr>server_mem := [1 \<mapsto> added_server 10 7 1 5]\<rparr>"

theorem query_agrees_with_notification_witness:
  "new_server_notify watchers (srv_service (added_server 10 7 1 5)) (srv_instance (added_server 10 7 1 5)) 1 stored =
    Some (send_all (map (\<lambda>lk. (lk_sq lk, notify_bytes (host_be stored) QRTR_TYPE_NEW_SERVER (added_server 10 7 1 5)))
      (filter (\<lambda>lk. server_match (added_server 10 7 1 5)
        \<lparr>f_service = lk_service lk, f_instance = lk_instance lk, f_ifilter = 0\<rparr> \<noteq> 0) watchers)) stored)"
  by (rule query_agrees_with_notification) (simp add: stored_def)

text \<open>DEL_LOOKUP removes exactly the sender's observers with that service whose instance is
  the given one or zero, and changes nothing else.\<close>
lemma del_lookup_removes:
  "ctrl_cmd_del_lookup sq service instance s = Some (0, s\<lparr>lookups := filter (\<lambda>lk.
    \<not> (sq_node (lk_sq lk) = sq_node sq \<and> sq_port (lk_sq lk) = sq_port sq \<and> lk_service lk = service \<and>
       lk_instance lk \<in> {0, instance})) (lookups s)\<rparr>)"
  by (simp add: ctrl_cmd_del_lookup_def del_lookup_lookups_filter)

text \<open>Claim C40: a non-empty HELLO is echoed to its sender and followed by the announcement of every
  local service, in table order; the directory stays.\<close>
theorem hello_announces:
  assumes "ns_wf s" "ns_bound 1 s" "alloc_all (heap_script s)" "send_script s = []" "buf \<noteq> []"
  shows "\<exists>s'. ctrl_cmd_hello sq buf s = Some (0, s') \<and> dir s' = dir s \<and>
    sent s' = sent s @ (sq, buf) # announcements s sq"
  by (cases rule: ctrl_cmd_hello_spec [OF assms(1,2), of sq buf]) (use assms in auto)

theorem hello_announces_witness:
  "\<exists>s'. ctrl_cmd_hello (at_port 2 QRTR_PORT_CTRL) [2, 0, 0, 0] one_server = Some (0, s') \<and>
    dir s' 1 = [5 \<mapsto> (10, 7)] \<and>
    sent s' = sent one_server @
      [(at_port 2 QRTR_PORT_CTRL, [2, 0, 0, 0]),
       (at_port 2 QRTR_PORT_CTRL, announce_bytes False QRTR_TYPE_NEW_SERVER (added_server 10 7 1 5))]"
  using hello_announces [of one_server "[2, 0, 0, 0]" "at_port 2 QRTR_PORT_CTRL"] one_server_ok
    one_server_script one_server_services one_server_host ns_bound_mono [of 2 one_server 1]
  by (auto simp: announcements_def)

section \<open>Edges of the protocol\<close>

text \<open>A receive error and an empty datagram both close the control socket: the server handles
  nothing that comes later and its main loop ends.\<close>
lemma empty_datagram_stops_server:
  assumes "rx_error r \<or> rx_data r = []" "0 \<le> ctx_sock s"
  shows "ns_main_loop (r # rs) s = Some (s\<lparr>ctx_sock := - 1\<rparr>)"
proof -
  have "ns_main_loop rs (s\<lparr>ctx_sock := - 1\<rparr>) = Some (s\<lparr>ctx_sock := - 1\<rparr>)" by (cases rs) simp_all
  moreover have len: "(if rx_error r then - 1 else int (length (rx_data r))) \<le> 0" using assms(1) by auto
  have "ctrl_port_fn r s = Some (0, s\<lparr>ctx_sock := - 1\<rparr>)"
    unfolding ctrl_port_fn_def Let_def if_P [OF len] ..
  ultimately show ?thesis using assms(2) by simp
qed

text \<open>Announcements carry a little-endian command on every host, but notifications of
  observers and the packets that propagate BYE and DEL\_CLIENT carry the host's order: on a big-endian
  host their first byte is zero. On a little-endian host notification and announcement are the same
  bytes.\<close>
lemma notification_byte_order:
  "take 4 (announce_bytes be QRTR_TYPE_NEW_SERVER srv) = [4, 0, 0, 0] \<and>
    take 4 (notify_bytes True QRTR_TYPE_NEW_SERVER srv) = [0, 0, 0, 4] \<and>
    notify_bytes False cmd srv = announce_bytes False cmd srv \<and>
    take 4 (pkt_bytes True (bye_pkt nid)) = [0, 0, 0, 3]"
  by (cases be)
    (simp_all add: announce_bytes_def notify_bytes_def server_pkt_def pkt_bytes_def mem_bytes_cpu_to_le32
      mem_bytes_def le_bytes_def QRTR_TYPE_NEW_SERVER_def QRTR_TYPE_BYE_def cpu_to_le32_def bye_pkt_def
      bswap32_def del: ucast_id)

text \<open>What re-registering a live port can do: of two ports that share a home slot, after 5 and 261
  have registered, 5 has unregistered and 261 has registered anew and unregistered, port 261 is still in
  the directory with its old service, which a lookup would report although the withdrawal was broadcast.\<close>
lemma stale_server_after_withdrawal:
  "(case ns_main_loop
      [packet_rx False (at_port 1 5) QRTR_TYPE_NEW_SERVER 10 1 0 0,
       packet_rx False (at_port 1 261) QRTR_TYPE_NEW_SERVER 20 1 0 0,
       packet_rx False (at_port 1 5) QRTR_TYPE_DEL_SERVER 10 1 0 0,
       packet_rx False (at_port 1 261) QRTR_TYPE_NEW_SERVER 21 1 0 0,
       packet_rx False (at_port 1 261) QRTR_TYPE_DEL_SERVER 21 1 0 0] (idle False (0, 0)) of
      None \<Rightarrow> False
    | Some s \<Rightarrow> dir s 1 261 = Some (20, 1) \<and>
        last (sent s) = (bcast_sq s, announce_bytes False QRTR_TYPE_DEL_SERVER (added_server 21 1 1 261)))"
  unfolding packet_loop [OF packet_loop [OF packet_loop [OF packet_loop [OF packet_loop [OF refl]]]]]
  by code_simp

text \<open>Likewise a BYE: ports 175 and 431 share the last slot as home. After both have registered, 175
  has unregistered and 431 has registered anew, the loop of BYE reaches the older registration of 431 in
  slot 0 first, deletes the newer one in slot 255 by its port instead, and leaves the older one behind.\<close>
lemma bye_leaves_stale_server:
  "(case ns_main_loop
      [packet_rx False (at_port 1 175) QRTR_TYPE_NEW_SERVER 10 1 0 0,
       packet_rx False (at_port 1 431) QRTR_TYPE_NEW_SERVER 20 1 0 0,
       packet_rx False (at_port 1 175) QRTR_TYPE_DEL_SERVER 10 1 0 0,
       packet_rx False (at_port 1 431) QRTR_TYPE_NEW_SERVER 21 1 0 0,
       packet_rx False (at_port 1 QRTR_PORT_CTRL) QRTR_TYPE_BYE 1 0 0 0] (idle False (0, 0)) of
      None \<Rightarrow> False
    | Some s \<Rightarrow> dir s 1 431 = Some (20, 1))"
  unfolding packet_loop [OF packet_loop [OF packet_loop [OF packet_loop [OF packet_loop [OF refl]]]]]
  by code_simp

text \<open>The DEL\_CLIENT packet that local services receive ends in eight bytes of
  uninitialised stack.\<close>
lemma del_client_leaks_stack:
  "(case ns_main_loop
      [packet_rx False (at_port 1 5) QRTR_TYPE_NEW_SERVER 10 1 0 0,
       packet_rx False (at_port 1 6) QRTR_TYPE_DEL_CLIENT 1 6 0 0] (idle False (0xdeadbeef, 0xcafe)) of
      None \<Rightarrow> False
    | Some s \<Rightarrow> last (sent s) = (at_port 1 5, [6, 0, 0, 0, 1, 0, 0, 0, 6, 0, 0, 0,
        0xef, 0xbe, 0xad, 0xde, 0xfe, 0xca, 0, 0]))"
  unfolding packet_loop [OF packet_loop [OF refl]]
  by code_simp

text \<open>A datagram of four bytes is accepted, and the rest of its packet is read from what
  the buffer held before: here a bare NEW\_SERVER command registers the stale service 10.\<close>
lemma short_packet_reads_stale_buffer:
  "(case ctrl_port_fn \<lparr>rx_error = False, rx_from = at_port 1 5, rx_data = [4, 0, 0, 0],
        rx_stale = [9, 9, 9, 9, 10, 0, 0, 0, 7, 0, 0, 0] @ replicate 4084 0\<rparr> (idle False (0, 0)) of
      None \<Rightarrow> False
    | Some (rc, s) \<Rightarrow> rc = 20 \<and> dir s 1 5 = Some (10, 7))"
  by code_simp

end
