(* ===== verification/Directory.thy ===== *)
theory Directory
  imports Name_Server_Props
begin

text \<open>
  The contract of the name server over whole runs. The abstract directory maps a node and a port to
  the service and the instance registered there; every datagram is a request to it, decoded from the
  words of the packet and admitted by the rules for senders. Where no live port is registered a
  second time and allocations succeed, the directory of the name server is the abstract one.
\<close>

section \<open>A server that goes on\<close>

text \<open>Its socket is open and no allocation will fail.\<close>

definition ready :: "ns_state \<Rightarrow> bool" where
  "ready s \<longleftrightarrow> 0 \<le> ctx_sock s \<and> alloc_all (heap_script s)"

lemma ready_simps [simp]:
  "ready (s\<lparr>nodes := a\<rparr>) = ready s" "ready (s\<lparr>node_mem := b\<rparr>) = ready s" "ready (s\<lparr>server_mem := c\<rparr>) = ready s"
  "ready (s\<lparr>brk := d\<rparr>) = ready s" "ready (s\<lparr>lookups := e\<rparr>) = ready s" "ready (send_all ds s) = ready s"
  "ready (s\<lparr>heap_script := al\<rparr>) = (0 \<le> ctx_sock s \<and> alloc_all al)"
  by (simp_all add: ready_def send_all_def)

text \<open>\<open>stays res\<close>: whatever state a computation ends in is ready.\<close>

definition stays :: "('a \<times> ns_state) option \<Rightarrow> bool" where
  "stays res \<longleftrightarrow> (\<forall>a s. res = Some (a, s) \<longrightarrow> ready s)"

lemma staysD: "stays res \<Longrightarrow> res = Some (a, s) \<Longrightarrow> ready s"
  by (simp add: stays_def)

lemma stays_simps [simp]: "stays None" "stays (Some (a, s)) = ready s"
  by (simp_all add: stays_def)

lemma stays_bind: "stays m \<Longrightarrow> (\<And>a s. ready s \<Longrightarrow> stays (f (a, s))) \<Longrightarrow> stays (m \<bind> f)"
  by (cases m) (auto simp: stays_def)

lemma stays_read: "(\<And>x. stays (f x)) \<Longrightarrow> stays (m \<bind> f)"
  by (cases m) auto

lemma stays_bind_some: "(\<And>t. m = Some t \<Longrightarrow> stays (f t)) \<Longrightarrow> stays (m \<bind> f)"
  by (cases m) auto

lemma map_rehash_loop_script:
  assumes put: "\<And>al m k v rc old m' al'. put al m k v = Some (rc, old, m', al') \<Longrightarrow> alloc_all al \<Longrightarrow> alloc_all al'"
  shows "map_rehash_loop put ss m al = Some (rc, m', al') \<Longrightarrow> alloc_all al \<Longrightarrow> alloc_all al'"
proof (induction ss arbitrary: m al)
  case (Cons e ss)
  show ?case
  proof (cases e)
    case (Item k v)
    then obtain r old m1 al1 where p: "put al m k (Some v) = Some (r, old, m1, al1)"
      using Cons.prems(1) by (auto split: option.splits)
    have "alloc_all al1" by (rule put [OF p Cons.prems(2)])
    then show ?thesis using Cons.prems(1) Cons.IH [of m1 al1] p Item by (auto split: if_splits)
  qed (use Cons in auto)
qed auto

lemma map_reput_script: "map_reput_fuel n al m k v = Some (rc, old, m', al') \<Longrightarrow> alloc_all al \<Longrightarrow> alloc_all al'"
proof (induction n arbitrary: al m k v rc old m' al')
  case (Suc n)
  obtain h m1 where h: "map_hash m k = Some (h, m1)" using Suc.prems(1) by (auto split: option.splits)
  show ?case
  proof (cases "h < 0")
    case True
    then obtain r m2 al2 where r: "map_rehash (map_reput_fuel n) al m1 = Some (r, m2, al2)"
      using Suc.prems(1) h by (auto split: option.splits)
    have "alloc_all al2"
    proof (cases "alloc al")
      case (Pair b al1)
      have a: "b" "alloc_all al1" using alloc_all_alloc [OF Suc.prems(2) Pair] by simp_all
      then have l: "map_rehash_loop (map_reput_fuel n) (mdata m1)
          \<lparr>msize = msize m1 + 256, mcount = 0, mdata = replicate (unat (msize m1 + 256)) Null\<rparr> al1 = Some (r, m2, al2)"
        using r Pair by (simp add: map_rehash_def)
      show ?thesis by (rule map_rehash_loop_script [OF _ l a(2)]) (rule Suc.IH)
    qed
    moreover have "al' = al2 \<or> map_reput_fuel n al2 m2 k v = Some (rc, old, m', al')"
      using Suc.prems(1) h r True by (auto split: if_splits)
    ultimately show ?thesis using Suc.IH by blast
  next
    case False
    then show ?thesis using Suc.prems h by (auto split: option.splits)
  qed
qed simp

lemma stays_node_get: "ready s \<Longrightarrow> stays (node_get nid s)"
proof -
  assume r: "ready s"
  have "ready s'" if "node_get nid s = Some (x, s')" for x s'
  proof (cases "map_get (nodes s) (hash_u32 nid)")
    case (Some mi)
    show ?thesis
    proof (cases mi)
      case None
      obtain al where al: "alloc (heap_script s) = (True, al)" "alloc_all al"
        using alloc_all_alloc [of "heap_script s"] r by (cases "alloc (heap_script s)") (auto simp: ready_def)
      show ?thesis
      proof (cases "map_put al (nodes s) (hash_u32 nid) (Some (brk s))")
        case m: (Some res)
        obtain rc m al' where res: "res = (rc, m, al')" by (cases res)
        have "alloc_all al'" using m res map_reput_script [OF _ al(2)] by (auto simp: map_put_def map_reput_def)
        then show ?thesis using that Some None al m res r
          by (auto simp: node_get_def Let_def free_node_def ready_def split: if_splits)
      qed (use that Some None al in \<open>simp add: node_get_def Let_def\<close>)
    qed (use that Some r in \<open>auto simp: node_get_def\<close>)
  qed (use that in \<open>simp add: node_get_def\<close>)
  then show ?thesis by (simp add: stays_def)
qed

lemma stays_server_del: "ready s \<Longrightarrow> stays (server_del np port s)"
proof -
  have n: "server_del_notify lks sp s' = Some s'' \<Longrightarrow> ready s' \<Longrightarrow> ready s''" for lks sp s' s''
    by (induction lks arbitrary: s') (auto simp: lookup_notify_def sys_sendto_eq Let_def split: bind_splits if_splits)
  assume r: "ready s"
  then show ?thesis
    unfolding server_del_def stays_def
    by (auto simp: Let_def service_announce_del_def sys_sendto_eq free_server_def dest!: n
        split: bind_splits option.splits if_splits)
qed

lemma ready_free_server: "free_server p s = Some s' \<Longrightarrow> ready s' = ready s"
  by (auto simp: free_server_def split: option.splits)

lemma stays_server_add:
  assumes r: "ready s"
  shows "stays (server_add service instance nid port s)"
proof (cases "service = 0 \<or> port = 0")
  case False
  obtain al where al: "alloc (heap_script s) = (True, al)" "alloc_all al"
    using alloc_all_alloc [of "heap_script s"] r by (cases "alloc (heap_script s)") (auto simp: ready_def)
  let ?s1 = "s\<lparr>heap_script := al, brk := Suc (brk s), server_mem := (server_mem s)(brk s \<mapsto>
      \<lparr>srv_service = service, srv_instance = instance, srv_node = nid, srv_port = port\<rparr>)\<rparr>"
  have g: "stays (node_get nid ?s1)" by (rule stays_node_get) (use r al in \<open>simp add: ready_def\<close>)
  show ?thesis
  proof (cases "node_get nid ?s1")
    case (Some res)
    then obtain np t where t: "node_get nid ?s1 = Some (np, t)" "ready t" using g by (cases res) auto
    show ?thesis
    proof (cases np)
      case None
      then show ?thesis using False al(1) t
        by (cases "free_server (brk s) t") (auto simp: server_add_def Let_def dest: ready_free_server)
    next
      case (Some p)
      note step = server_add_def Let_def if_not_P [OF False] al(1) t Some
      show ?thesis
      proof (cases "node_mem t p")
        case nd: (Some nd)
        show ?thesis
        proof (cases "map_reput (heap_script t) (nd_services nd) (hash_u32 port) (Some (brk s))")
          case m: (Some res)
          obtain rc mi m' al' where res: "res = (rc, mi, m', al')" by (cases res)
          have "alloc_all al'" using m res map_reput_script [of 2] t(2) by (auto simp: map_reput_def ready_def)
          then show ?thesis using nd m res t(2)
            by (auto simp: step free_server_def ready_def stays_def split: option.splits if_splits)
        qed (use nd in \<open>simp add: step\<close>)
      qed (simp add: step)
    qed
  qed (use False al in \<open>simp add: server_add_def Let_def\<close>)
qed (use r in \<open>simp add: server_add_def\<close>)

lemma stays_for_each:
  assumes body: "\<And>v s. ready s \<Longrightarrow> stays (body v s)" and "ready s"
  shows "stays (map_for_each getm body s)"
proof -
  have "stays (map_for_each_loop n getm body it s)" if "ready s" for n it s
    using that
  proof (induction n arbitrary: it s)
    case 0
    then show ?case by (cases it) simp_all
  next
    case (Suc n)
    show ?case
    proof (cases it)
      case (Some i)
      have "stays (case r of Some x \<Rightarrow> Some (Some x, s') | None \<Rightarrow> do {
          m' \<leftarrow> getm s'; it \<leftarrow> map_iter_next m' (Some i); map_for_each_loop n getm body it s' })"
        if "ready s'" for r s'
        using that Suc.IH by (auto intro!: stays_read split: option.split)
      then show ?thesis unfolding Some map_for_each_loop.simps
        by (intro stays_read stays_bind [OF body [OF Suc.prems]]) simp
    qed (use Suc in simp)
  qed
  with assms(2) show ?thesis unfolding map_for_each_def by (intro stays_read)
qed

lemma stays_propagate: "ready s \<Longrightarrow> stays (propagate pkt sp s)"
  by (auto simp: propagate_def sys_sendto_eq Let_def intro!: stays_read)

lemma stays_hello:
  assumes "ready s"
  shows "stays (ctrl_cmd_hello sq buf s)"
proof -
  have body: "stays (do { (rc, s) \<leftarrow> service_announce_new sq sp s; Some (if rc < 0 then Some rc else None, s) })"
    if "ready s" for sp s
    using that by (auto simp: service_announce_new_def sys_sendto_eq Let_def stays_def split: bind_splits)
  have "stays (annouce_servers sq t)" if t: "ready t" for t
    unfolding annouce_servers_def
  proof (rule stays_bind [OF stays_node_get [OF t]])
    fix np s assume s: "ready s"
    show "stays (case (np, s) of (np, s) \<Rightarrow> case np of None \<Rightarrow> Some (0, s)
       | Some p \<Rightarrow> do { (r, s) \<leftarrow> map_for_each (services_of p) (\<lambda>sp s. do {
               (rc, s) \<leftarrow> service_announce_new sq sp s;
               Some (if rc < 0 then Some rc else None, s) }) s;
          Some (case r of Some rc \<Rightarrow> rc | None \<Rightarrow> 0, s) })"
      using s by (auto intro!: stays_bind [OF stays_for_each [OF body]] split: option.split)
  qed
  then show ?thesis using assms by (simp add: ctrl_cmd_hello_def sys_sendto_eq)
qed

lemma stays_bye:
  assumes "ready s"
  shows "stays (ctrl_cmd_bye from s)"
proof -
  have body: "stays (do { srv \<leftarrow> server_mem s sp; (_, s) \<leftarrow> server_del p (srv_port srv) s;
      Some (None :: unit option, s) })" if "ready s" for p sp s
    by (intro stays_read stays_bind [OF stays_server_del [OF that]]) simp
  show ?thesis unfolding ctrl_cmd_bye_def Let_def
    using assms
    by (auto intro!: stays_bind [OF stays_node_get] stays_bind [OF stays_for_each] body stays_propagate split: option.split)
qed

lemma stays_del_client:
  assumes "ready s"
  shows "stays (ctrl_cmd_del_client from nid port s)"
proof -
  have tail: "stays (do { (lp, s) \<leftarrow> node_get (local_node s) s;
        (case lp of
           None \<Rightarrow> Some (0, s)
         | Some p' \<Rightarrow> do {
             (_, s) \<leftarrow> map_for_each (services_of p') (propagate \<lparr>pkt_cmd = QRTR_TYPE_DEL_CLIENT, pkt_w0 = nid, pkt_w1 = port,
               pkt_w2 = fst (stack_junk s), pkt_w3 = snd (stack_junk s)\<rparr>) s;
             Some (0, s) }) })" if "ready s" for s
    using that
    by (auto intro!: stays_bind [OF stays_node_get] stays_bind [OF stays_for_each] stays_propagate split: option.split)
  have mid: "ready t" if "(case np of None \<Rightarrow> Some s | Some p \<Rightarrow> map_option snd (server_del p port s)) = Some t" "ready s" for np s t
    using that stays_server_del [OF that(2)] by (auto simp: stays_def split: option.splits)
  show ?thesis
  proof (cases "sq_node from \<noteq> nid \<or> sq_node from = local_node s \<and> sq_port from \<noteq> port")
    case True
    then show ?thesis using assms by (auto simp: ctrl_cmd_del_client_def)
  next
    case False
    let ?s1 = "s\<lparr>lookups := del_client_lookups nid port (lookups s)\<rparr>"
    have g: "stays (node_get nid ?s1)" by (rule stays_node_get) (use assms in simp)
    have f: "\<not> sq_node from \<noteq> nid" "\<not> (sq_node from = local_node s \<and> sq_port from \<noteq> port)" using False by auto
    show ?thesis
      unfolding ctrl_cmd_del_client_def Let_def if_not_P [OF f(1)] if_not_P [OF f(2)]
      by (rule stays_bind [OF g]) (simp only: prod.case, rule stays_bind_some, rule tail, erule mid, assumption)
  qed
qed

lemma stays_new_server:
  assumes r: "ready s"
  shows "stays (ctrl_cmd_new_server from service instance nid port s)"
proof -
  have n: "ready s''" if "new_server_notify lks sv i sp s' = Some s''" "ready s'" for lks sv i sp s' s''
    using that by (induction lks arbitrary: s') (auto simp: lookup_notify_def sys_sendto_eq Let_def split: bind_splits if_splits)
  have tail: "stays (case sp of
         None \<Rightarrow> Some (- EINVAL, s)
       | Some sp \<Rightarrow> do {
           srv \<leftarrow> server_mem s sp;
           (rc, s) \<leftarrow> (if srv_node srv = local_node s then service_announce_new (bcast_sq s) sp s
              else Some (0, s));
           s \<leftarrow> new_server_notify (lookups s) service instance sp s;
           Some (rc, s) })" if "ready s" for sp s
  proof (cases sp)
    case (Some q)
    have a: "stays (if srv_node srv = local_node s then service_announce_new (bcast_sq s) q s else Some (0, s))" for srv
      using that by (auto simp: service_announce_new_def sys_sendto_eq Let_def intro!: stays_read)
    show ?thesis unfolding Some option.case
      by (rule stays_read, rule stays_bind [OF a]) (simp, rule stays_bind_some, simp, erule n)
  qed (use that in simp)
  show ?thesis unfolding ctrl_cmd_new_server_def
    using r tail by (auto simp: Let_def intro!: stays_bind [OF stays_server_add [OF r]])
qed

lemma stays_del_server:
  assumes r: "ready s"
  shows "stays (ctrl_cmd_del_server from service instance nid port s)"
  unfolding ctrl_cmd_del_server_def
  using r by (auto simp: Let_def intro!: stays_bind [OF stays_node_get [OF r]] stays_server_del split: option.split)

lemma stays_new_lookup:
  assumes r: "ready s"
  shows "stays (ctrl_cmd_new_lookup from service instance s)"
proof -
  have n: "ready s''" if "lookup_reply d sps s' = Some s''" "ready s'" for d sps s' s''
    using that by (induction sps arbitrary: s') (auto simp: lookup_notify_def sys_sendto_eq Let_def split: bind_splits)
  obtain al where al: "alloc (heap_script s) = (True, al)" "alloc_all al"
    using alloc_all_alloc [of "heap_script s"] r by (cases "alloc (heap_script s)") (auto simp: ready_def)
  show ?thesis
  proof (cases "sq_node from \<noteq> local_node s")
    case False
    then show ?thesis using r al n unfolding ctrl_cmd_new_lookup_def Let_def
      by (auto simp: stays_def ready_def lookup_notify_def sys_sendto_eq split: bind_splits)
  qed (use r in \<open>simp add: ctrl_cmd_new_lookup_def\<close>)
qed

text \<open>A datagram that is neither an error nor empty leaves the server ready for the next one.\<close>

lemma stays_if: "stays a \<Longrightarrow> stays b \<Longrightarrow> stays (if P then a else b)"
  by simp

lemma ctrl_port_fn_stays:
  assumes r: "ready s" and d: "\<not> rx_error r" "rx_data r \<noteq> []"
  shows "stays (ctrl_port_fn r s)"
proof -
  have "\<not> (if rx_error r then - 1 else int (length (rx_data r))) \<le> 0" using d by simp
  moreover have "stays (ctrl_cmd_del_lookup sq w0 w1 s)" for sq w0 w1
    using r by (simp add: ctrl_cmd_del_lookup_def)
  moreover have "stays (Some (0 :: int, s))" using r by simp
  ultimately show ?thesis
    unfolding ctrl_port_fn_def Let_def
    by (simp only: if_False)
      (intro stays_if stays_hello [OF r] stays_bye [OF r] stays_del_client [OF r] stays_new_server [OF r]
        stays_del_server [OF r] stays_new_lookup [OF r])
qed

section \<open>The abstract directory\<close>

type_synonym directory = "u32 \<Rightarrow> u32 \<Rightarrow> (u32 \<times> u32) option"

text \<open>What a datagram asks of the directory: node and port, and for a registration service and instance.\<close>

datatype request = Register u32 u32 u32 u32 | Withdraw u32 u32 | Leave u32 | Neutral

fun dir_step :: "request \<Rightarrow> directory \<Rightarrow> directory" where
  "dir_step (Register nid port service instance) d = d(nid := (d nid)(port \<mapsto> (service, instance)))"
| "dir_step (Withdraw nid port) d = d(nid := (d nid)(port := None))"
| "dir_step (Leave nid) d = d(nid := (\<lambda>_. None))"
| "dir_step Neutral d = d"

definition request_of :: "bool \<Rightarrow> u32 \<Rightarrow> rx \<Rightarrow> request" where
  "request_of be local r =
     (let sq = rx_from r;
          msg = pkt_of_bytes be (rx_buf r);
          cmd = le32_to_cpu be (pkt_cmd msg);
          w0 = le32_to_cpu be (pkt_w0 msg);
          w1 = le32_to_cpu be (pkt_w1 msg);
          w2 = le32_to_cpu be (pkt_w2 msg);
          w3 = le32_to_cpu be (pkt_w3 msg);
          mine = (sq_node sq = local \<or> sq_node sq = w2);
          port = (if sq_node sq = local then sq_port sq else w3) in
      if length (rx_data r) < 4 then Neutral
      else if cmd = QRTR_TYPE_HELLO then Neutral
      else if cmd = QRTR_TYPE_BYE then Leave (sq_node sq)
      else if cmd = QRTR_TYPE_DEL_CLIENT
      then (if sq_node sq = w0 \<and> (sq_node sq = local \<longrightarrow> sq_port sq = w1) then Withdraw w0 w1 else Neutral)
      else if cmd = QRTR_TYPE_NEW_SERVER
      then (if mine \<and> w0 \<noteq> 0 \<and> port \<noteq> 0 then Register (sq_node sq) port w0 w1 else Neutral)
      else if cmd = QRTR_TYPE_DEL_SERVER then (if mine then Withdraw (sq_node sq) port else Neutral)
      else Neutral)"

text \<open>No port is registered again while it is registered.\<close>

fun ports_free :: "request list \<Rightarrow> directory \<Rightarrow> bool" where
  "ports_free [] d = True"
| "ports_free (q # qs) d =
     ((case q of Register nid port _ _ \<Rightarrow> d nid port = None | _ \<Rightarrow> True) \<and> ports_free qs (dir_step q d))"

definition handled :: "rx list \<Rightarrow> rx list" where
  "handled = takeWhile (\<lambda>r. \<not> rx_error r \<and> rx_data r \<noteq> [])"

section \<open>One datagram\<close>

text \<open>The servers of a node tell whether its table holds a key twice.\<close>

lemma uniq_services:
  assumes wf: "ns_wf s"
  shows "map_uniq (table_of s n) = distinct (map srv_port (services s n))"
proof -
  have "k = hash_u32 (srv_port (the (server_mem s q)))" if "(k, q) \<in> set (entries (table_of s n))" for k q
    by (rule table_entry [OF wf that]) simp
  then have "map fst (entries (table_of s n)) = map hash_u32 (map srv_port (services s n))"
    by (auto simp: services_def)
  moreover have "inj_on hash_u32 A" for A by (rule inj_onI) (metis unhash_hash_u32)
  ultimately show ?thesis by (simp add: map_uniq_def distinct_map del: map_map)
qed

text \<open>A handler that does to the sender's node what the request says.\<close>

definition does :: "(int \<times> ns_state) option \<Rightarrow> ns_state \<Rightarrow> sockaddr_qrtr \<Rightarrow> request \<Rightarrow> bool" where
  "does res s sq q \<longleftrightarrow>
     (\<forall>n. n \<noteq> sq_node sq \<longrightarrow> dir_step q (dir s) n = dir s n) \<and>
     (\<forall>rc s'. res = Some (rc, s') \<longrightarrow> map_uniq (table_of s' (sq_node sq)) \<and>
        dir s' (sq_node sq) = dir_step q (dir s) (sq_node sq))"

lemma does_nothing:
  assumes wf: "ns_wf s" and u: "map_uniq (table_of s (sq_node sq))"
    and s': "\<And>rc s'. res = Some (rc, s') \<Longrightarrow> ns_wf s' \<and> dir s' = dir s \<and> services s' = services s"
  shows "does res s sq Neutral"
  using s' u uniq_services [OF wf] by (auto simp: does_def uniq_services)

lemma hello_does:
  assumes "ns_wf s" "ns_bound 2 s" "map_uniq (table_of s (sq_node sq))"
  shows "does (ctrl_cmd_hello sq buf s) s sq Neutral"
  by (cases rule: ctrl_cmd_hello_spec [OF assms(1) ns_bound_mono [OF assms(2)], of sq buf])
    (use assms in \<open>auto intro!: does_nothing simp: grows_def\<close>)

lemma new_lookup_does:
  assumes "ns_wf s" "map_uniq (table_of s (sq_node sq))"
  shows "does (ctrl_cmd_new_lookup sq service instance s) s sq Neutral"
  by (cases rule: ctrl_cmd_new_lookup_spec [OF assms(1), of sq service "instance"])
    (use assms in \<open>auto intro!: does_nothing simp: grows_def\<close>)

lemma bye_does:
  assumes "ns_wf s" "ns_bound 2 s" "alloc_all (heap_script s)" "map_uniq (table_of s (sq_node sq))"
  shows "does (ctrl_cmd_bye sq s) s sq (Leave (sq_node sq))"
proof (cases rule: ctrl_cmd_bye_spec [OF assms(1,2), of sq])
  case (1 s')
  have "services s' (sq_node sq) = []" using 1(5) assms(3,4) by blast
  then have "map_uniq (table_of s' (sq_node sq))" "dir s' (sq_node sq) = (\<lambda>_. None)"
    by (auto simp: services_def dir_def map_abs_def map_uniq_def)
  then show ?thesis using 1(1) by (simp add: does_def)
qed

lemma del_client_does:
  assumes "ns_wf s" "ns_bound 2 s" "alloc_all (heap_script s)" "map_uniq (table_of s (sq_node sq))"
  shows "does (ctrl_cmd_del_client sq nid port s) s sq
    (if sq_node sq = nid \<and> (sq_node sq = local_node s \<longrightarrow> sq_port sq = port) then Withdraw nid port else Neutral)"
  by (cases rule: ctrl_cmd_del_client_spec [OF assms(1,2), of sq nid port]) (use assms in \<open>auto simp: does_def\<close>)

lemma new_server_does:
  assumes wf: "ns_wf s" and bnd: "ns_bound 2 s" and al: "alloc_all (heap_script s)"
    and u: "map_uniq (table_of s (sq_node sq))"
    and free: "(sq_node sq = local_node s \<or> sq_node sq = nid) \<and> service \<noteq> 0 \<and> reg_port s sq port \<noteq> 0 \<Longrightarrow>
      dir s (sq_node sq) (reg_port s sq port) = None"
  shows "does (ctrl_cmd_new_server sq service instance nid port s) s sq
    (if (sq_node sq = local_node s \<or> sq_node sq = nid) \<and> service \<noteq> 0 \<and> reg_port s sq port \<noteq> 0
     then Register (sq_node sq) (reg_port s sq port) service instance else Neutral)"
  by (cases rule: ctrl_cmd_new_server_spec [OF wf bnd, of sq service "instance" nid port])
    (use al u free in \<open>auto simp: does_def\<close>)

lemma del_server_does:
  assumes "ns_wf s" "ns_bound 2 s" "alloc_all (heap_script s)" "map_uniq (table_of s (sq_node sq))"
  shows "does (ctrl_cmd_del_server sq service instance nid port s) s sq
    (if sq_node sq = local_node s \<or> sq_node sq = nid then Withdraw (sq_node sq) (reg_port s sq port) else Neutral)"
  by (cases rule: ctrl_cmd_del_server_spec [OF assms(1) ns_bound_mono [OF assms(2)], of sq service "instance" nid port])
    (use assms in \<open>auto simp: does_def\<close>)

text \<open>
  The dispatcher follows the decoding of the request: what holds of every handler and its request
  holds of \<open>ctrl_port_fn\<close>.
\<close>

lemma request_if: "(b \<Longrightarrow> P x q) \<Longrightarrow> (\<not> b \<Longrightarrow> P y q') \<Longrightarrow> P (if b then x else y) (if b then q else q')"
  by simp

lemma request_same: "P x q \<Longrightarrow> P y q \<Longrightarrow> P (if b then x else y) q"
  by simp

lemma dispatch_requests:
  assumes d: "\<not> rx_error r" "rx_data r \<noteq> []"
    and free: "case request_of (host_be s) (local_node s) r of Register nid port _ _ \<Rightarrow> dir s nid port = None | _ \<Rightarrow> True"
    and quiet: "P (Some (0, s)) Neutral"
    and hello: "le32_to_cpu (host_be s) (pkt_cmd (pkt_of_bytes (host_be s) (rx_buf r))) = QRTR_TYPE_HELLO \<Longrightarrow>
      P (ctrl_cmd_hello (rx_from r) (rx_data r) s) Neutral"
    and bye: "P (ctrl_cmd_bye (rx_from r) s) (Leave (sq_node (rx_from r)))"
    and del_client: "\<And>nid port. P (ctrl_cmd_del_client (rx_from r) nid port s)
      (if sq_node (rx_from r) = nid \<and> (sq_node (rx_from r) = local_node s \<longrightarrow> sq_port (rx_from r) = port)
       then Withdraw nid port else Neutral)"
    and new_server: "\<And>service inst nid port.
      ((sq_node (rx_from r) = local_node s \<or> sq_node (rx_from r) = nid) \<and> service \<noteq> 0 \<and> reg_port s (rx_from r) port \<noteq> 0 \<Longrightarrow>
         dir s (sq_node (rx_from r)) (reg_port s (rx_from r) port) = None) \<Longrightarrow>
      P (ctrl_cmd_new_server (rx_from r) service inst nid port s)
        (if (sq_node (rx_from r) = local_node s \<or> sq_node (rx_from r) = nid) \<and> service \<noteq> 0 \<and> reg_port s (rx_from r) port \<noteq> 0
         then Register (sq_node (rx_from r)) (reg_port s (rx_from r) port) service inst else Neutral)"
    and del_server: "\<And>service inst nid port. P (ctrl_cmd_del_server (rx_from r) service inst nid port s)
      (if sq_node (rx_from r) = local_node s \<or> sq_node (rx_from r) = nid
       then Withdraw (sq_node (rx_from r)) (reg_port s (rx_from r) port) else Neutral)"
    and new_lookup: "\<And>service inst. P (ctrl_cmd_new_lookup (rx_from r) service inst s) Neutral"
    and del_lookup: "\<And>service inst. P (ctrl_cmd_del_lookup (rx_from r) service inst s) Neutral"
  shows "P (ctrl_port_fn r s) (request_of (host_be s) (local_node s) r)"
proof -
  have len: "(if rx_error r then - 1 else int (length (rx_data r))) = int (length (rx_data r))"
    "\<not> int (length (rx_data r)) \<le> 0" "int (length (rx_data r)) < 4 \<longleftrightarrow> length (rx_data r) < 4"
    using d by simp_all
  let ?be = "host_be s" and ?msg = "pkt_of_bytes (host_be s) (rx_buf r)" and ?sq = "rx_from r"
  define cmd w0 w1 w2 w3 where w: "cmd = le32_to_cpu ?be (pkt_cmd ?msg)" "w0 = le32_to_cpu ?be (pkt_w0 ?msg)"
    "w1 = le32_to_cpu ?be (pkt_w1 ?msg)" "w2 = le32_to_cpu ?be (pkt_w2 ?msg)" "w3 = le32_to_cpu ?be (pkt_w3 ?msg)"
  let ?mine = "sq_node ?sq = local_node s \<or> sq_node ?sq = w2" and ?port = "reg_port s ?sq w3"
  have req: "request_of ?be (local_node s) r =
     (if length (rx_data r) < 4 then Neutral
      else if cmd = QRTR_TYPE_HELLO then Neutral
      else if cmd = QRTR_TYPE_BYE then Leave (sq_node ?sq)
      else if cmd = QRTR_TYPE_DEL_CLIENT
      then (if sq_node ?sq = w0 \<and> (sq_node ?sq = local_node s \<longrightarrow> sq_port ?sq = w1) then Withdraw w0 w1 else Neutral)
      else if cmd = QRTR_TYPE_NEW_SERVER
      then (if ?mine \<and> w0 \<noteq> 0 \<and> ?port \<noteq> 0 then Register (sq_node ?sq) ?port w0 w1 else Neutral)
      else if cmd = QRTR_TYPE_DEL_SERVER then (if ?mine then Withdraw (sq_node ?sq) ?port else Neutral)
      else Neutral)"
    unfolding request_of_def Let_def w reg_port_def ..
  have free': "dir s (sq_node ?sq) ?port = None"
    if "\<not> length (rx_data r) < 4" "cmd = QRTR_TYPE_NEW_SERVER" "?mine \<and> w0 \<noteq> 0 \<and> ?port \<noteq> 0"
    using free that unfolding req by (simp add: qrtr_type_defs)
  show ?thesis
    unfolding req unfolding ctrl_port_fn_def Let_def len if_not_P [OF len(2)] w [symmetric]
    by (intro request_if [of _ P] request_same [of P] quiet hello [folded w] bye del_client new_server del_server new_lookup
        del_lookup free')
qed

lemma ctrl_port_fn_does:
  assumes wf: "ns_wf s" and bnd: "ns_bound 2 s" and al: "alloc_all (heap_script s)"
    and u: "map_uniq (table_of s (sq_node (rx_from r)))" and d: "\<not> rx_error r" "rx_data r \<noteq> []"
    and free: "case request_of (host_be s) (local_node s) r of Register nid port _ _ \<Rightarrow> dir s nid port = None | _ \<Rightarrow> True"
  shows "does (ctrl_port_fn r s) s (rx_from r) (request_of (host_be s) (local_node s) r)"
proof -
  have "does (Some (0, s)) s (rx_from r) Neutral" by (rule does_nothing [OF wf u]) (use wf in auto)
  moreover have "does (ctrl_cmd_del_lookup sq w0 w1 s) s (rx_from r) Neutral" for sq w0 w1
    by (rule does_nothing [OF wf u]) (use wf in \<open>auto simp: ctrl_cmd_del_lookup_def ns_wf_def dir_def services_def table_of_def\<close>)
  ultimately show ?thesis
    by (intro dispatch_requests [where P = "\<lambda>res. does res s (rx_from r)", OF d free] hello_does bye_does del_client_does
        new_server_does del_server_does new_lookup_does wf bnd al u)
qed

section \<open>Runs\<close>

text \<open>A name server that can still take \<open>k\<close> datagrams.\<close>

definition running :: "bool \<Rightarrow> u32 \<Rightarrow> nat \<Rightarrow> ns_state \<Rightarrow> bool" where
  "running be local k s \<longleftrightarrow> ns_inv s \<and> ns_bound (2 * k) s \<and> ready s \<and> (\<forall>n. map_uniq (table_of s n)) \<and>
     host_be s = be \<and> local_node s = local"

lemma runningD:
  assumes "running be local k s"
  shows "ns_wf s" "ns_bound (2 * k) s" "ready s" "0 \<le> ctx_sock s" "alloc_all (heap_script s)"
    "map_uniq (table_of s n)" "host_be s = be" "local_node s = local"
  using assms by (simp_all add: running_def ns_inv_def ready_def)

lemma running_step:
  assumes run: "running be local (Suc k) s" and d: "\<not> rx_error r" "rx_data r \<noteq> []"
    and free: "case request_of be local r of Register nid port _ _ \<Rightarrow> dir s nid port = None | _ \<Rightarrow> True"
  obtains rc t where "ctrl_port_fn r s = Some (rc, t)" "running be local k t" "bcast_sq t = bcast_sq s"
    "dir t = dir_step (request_of be local r) (dir s)"
proof -
  note s = runningD [OF run]
  let ?q = "request_of be local r"
  have b2: "ns_bound 2 s" by (rule ns_bound_mono [OF s(2)]) simp
  obtain rc t where t: "ctrl_port_fn r s = Some (rc, t)" "stepped s (rx_from r) t"
    using ctrl_port_fn_runs [OF s(1) b2, of r] by (auto simp: runs_def)
  have "does (ctrl_port_fn r s) s (rx_from r) ?q"
    using ctrl_port_fn_does [OF s(1) b2 s(5) s(6) d] free s(7,8) by simp
  then have own: "map_uniq (table_of t (sq_node (rx_from r)))"
      "dir t (sq_node (rx_from r)) = dir_step ?q (dir s) (sq_node (rx_from r))"
    and other: "\<And>n. n \<noteq> sq_node (rx_from r) \<Longrightarrow> dir_step ?q (dir s) n = dir s n"
    using t(1) by (simp_all add: does_def)
  have dir: "dir t = dir_step ?q (dir s)"
    using own(2) other t(2) unfolding stepped_def by (intro ext) metis
  have keep: "ns_inv t" "ns_bound (2 * k) t" "host_be t = be" "local_node t = local" "bcast_sq t = bcast_sq s"
    using t(2) run by (auto simp: running_def ns_inv_def stepped_def grows_def)
  have "map_uniq (table_of t n)" for n
    using own(1) t(2) s(6) uniq_services [OF s(1)] uniq_services [of t] keep(1)
    by (cases "n = sq_node (rx_from r)") (auto simp: stepped_def ns_inv_def)
  moreover have "ready t" by (rule staysD [OF ctrl_port_fn_stays [OF s(3) d] t(1)])
  ultimately show thesis using t(1) dir keep by (intro that) (auto simp: running_def)
qed

lemma ns_main_loop_directory:
  assumes "running be local (length rs) s" "ports_free (map (request_of be local) (handled rs)) (dir s)"
  shows "\<exists>t. ns_main_loop rs s = Some t \<and>
    dir t = fold dir_step (map (request_of be local) (handled rs)) (dir s)"
  using assms
proof (induction rs arbitrary: s)
  case (Cons r rs)
  note sock = runningD(4) [OF Cons.prems(1)]
  show ?case
  proof (cases "rx_error r \<or> rx_data r = []")
    case True
    have "ns_main_loop (r # rs) s = Some (s\<lparr>ctx_sock := - 1\<rparr>)"
      using sock ctrl_port_fn_stop [OF True, of s] ns_main_loop_closed [of "s\<lparr>ctx_sock := - 1\<rparr>" rs] by simp
    moreover have "dir (s\<lparr>ctx_sock := - 1\<rparr>) = dir s" by (simp add: dir_def table_of_def fun_eq_iff)
    moreover have "handled (r # rs) = []" using True by (auto simp: handled_def)
    ultimately show ?thesis by simp
  next
    case False
    then have hd: "handled (r # rs) = r # handled rs" by (simp add: handled_def)
    obtain rc t where t: "ctrl_port_fn r s = Some (rc, t)" "running be local (length rs) t"
      "dir t = dir_step (request_of be local r) (dir s)"
      by (rule running_step [of be local "length rs" s r]) (use False Cons.prems hd in auto)
    with Cons.IH [OF t(2)] Cons.prems(2) hd sock show ?thesis by simp
  qed
qed (simp add: handled_def)

lemma ns_main_start_keeps:
  "ns_main_start sock_rc name_rc name bind_rc err s = Inr t \<Longrightarrow> host_be t = host_be s \<and> heap_script t = heap_script s"
  by (auto simp: ns_main_start_def say_hello_def sys_sendto_eq Let_def split: if_splits)

lemma ns_main_start_running:
  assumes "boot s0" "ns_main_start sock_rc name_rc name bind_rc err s0 = Inr s" "alloc_all (heap_script s0)" "k \<le> 4194303"
  shows "running (host_be s0) (sq_node name) k s" "dir s = (\<lambda>_ _. None)"
proof -
  note c = ns_main_start_cases [OF assms(2)] and h = ns_main_start_keeps [OF assms(2)]
  note i = boot_inv [OF assms(1) c(4-6,3)]
  have "ready s" using c(1) h assms(3) by (simp add: ready_def)
  moreover have "map_uniq (table_of s n)" for n
    using c(4) by (simp add: table_of_def map_uniq_def entries_def map_abs_def)
  moreover have "ns_bound (2 * k) s" by (rule i(3)) (use assms(4) in simp)
  ultimately show "running (host_be s0) (sq_node name) k s" using i(1) h c(2) by (simp add: running_def)
  show "dir s = (\<lambda>_ _. None)" by (rule i(2))
qed

text \<open>Claim C3: the directory refines its abstract specification over whole runs: after any 4194303 or
  fewer datagrams a started name server whose allocations succeed is in a state whose directory is
  the result of the requests of the datagrams, one after the other, up to the one that closes the
  socket, provided that no port is registered a second time while it is registered.\<close>
theorem directory_refines:
  assumes "boot s0" "ns_main_start sock_rc name_rc name bind_rc err s0 = Inr s" "alloc_all (heap_script s0)"
    and "length rs \<le> 4194303"
    and "ports_free (map (request_of (host_be s0) (sq_node name)) (handled rs)) (\<lambda>_ _. None)"
  shows "\<exists>t. ns_main_loop rs s = Some t \<and>
    dir t = fold dir_step (map (request_of (host_be s0) (sq_node name)) (handled rs)) (\<lambda>_ _. None)"
proof -
  note s = ns_main_start_running [OF assms(1-4)]
  show ?thesis using ns_main_loop_directory [OF s(1)] assms(5) unfolding s(2) by blast
qed

text \<open>Port 5 registers, withdraws and registers again; then port 6 registers and closes.\<close>

definition demo_session :: "rx list" where
  "demo_session =
     [packet_rx False (at_port 1 5) QRTR_TYPE_NEW_SERVER 10 7 0 0,
      packet_rx False (at_port 1 5) QRTR_TYPE_DEL_SERVER 10 7 1 5,
      packet_rx False (at_port 1 5) QRTR_TYPE_NEW_SERVER 11 8 0 0,
      packet_rx False (at_port 1 6) QRTR_TYPE_NEW_SERVER 12 9 0 0,
      packet_rx False (at_port 1 6) QRTR_TYPE_DEL_CLIENT 1 6 0 0]"

lemma demo_requests:
  "map (request_of False 1) (handled demo_session) =
    [Register 1 5 10 7, Withdraw 1 5, Register 1 5 11 8, Register 1 6 12 9, Withdraw 1 6]"
proof -
  have "request_of False 1 (packet_rx False sq cmd w0 w1 w2 w3) =
      (if cmd = QRTR_TYPE_BYE then Leave (sq_node sq)
       else if cmd = QRTR_TYPE_DEL_CLIENT
       then (if sq_node sq = w0 \<and> (sq_node sq = 1 \<longrightarrow> sq_port sq = w1) then Withdraw w0 w1 else Neutral)
       else if cmd = QRTR_TYPE_NEW_SERVER
       then (if (sq_node sq = 1 \<or> sq_node sq = w2) \<and> w0 \<noteq> 0 \<and> (if sq_node sq = 1 then sq_port sq else w3) \<noteq> 0
             then Register (sq_node sq) (if sq_node sq = 1 then sq_port sq else w3) w0 w1 else Neutral)
       else if cmd = QRTR_TYPE_DEL_SERVER
       then (if sq_node sq = 1 \<or> sq_node sq = w2
             then Withdraw (sq_node sq) (if sq_node sq = 1 then sq_port sq else w3) else Neutral)
       else Neutral)" for sq cmd w0 w1 w2 w3
    by (auto simp: request_of_def packet_rx_def rx_buf_def Let_def sizeof_ctrl_pkt_def qrtr_type_defs le32_to_cpu_def
        cpu_to_le32_def)
  moreover have "\<not> rx_error (packet_rx False sq cmd w0 w1 w2 w3) \<and> rx_data (packet_rx False sq cmd w0 w1 w2 w3) \<noteq> []"
    for sq cmd w0 w1 w2 w3
    by (simp add: packet_rx_def pkt_bytes_def mem_bytes_def le_bytes_def)
  ultimately show ?thesis by (simp add: demo_session_def handled_def qrtr_type_defs)
qed

theorem directory_refines_witness:
  "\<exists>s t. ns_main_start 3 0 (at_port 1 7) 0 0 (idle False (0, 0)) = Inr s \<and>
    ns_main_loop demo_session s = Some t \<and> dir t = (\<lambda>_ _. None)(1 := [5 \<mapsto> (11, 8)])"
proof -
  obtain s where s: "ns_main_start 3 0 (at_port 1 7) 0 0 (idle False (0, 0)) = Inr s" using start_idle by blast
  note directory_refines [OF idle_boot s, of demo_session]
  then show ?thesis using s by (simp add: demo_requests) (simp add: demo_session_def fun_eq_iff)
qed

end
