(* ===== verification/Observer.thy ===== *)
theory Observer
  imports Directory
begin

text \<open>
  What an observer knows. A client that asks for every service and then listens can replay the
  packets it receives: NEW\_SERVER enters a service under the node and port in the packet, DEL\_SERVER
  removes it, everything else is ignored. On a little-endian host the replayed directory is that of
  the name server, whatever the clients do meanwhile.
\<close>

section \<open>Replaying packets\<close>

text \<open>The hearer's host has byte order \<open>be\<close>.\<close>

definition hear :: "bool \<Rightarrow> u8 list \<Rightarrow> directory \<Rightarrow> directory" where
  "hear be bs d =
     (let pkt = pkt_of_bytes be bs;
          cmd = le32_to_cpu be (pkt_cmd pkt);
          service = le32_to_cpu be (pkt_w0 pkt);
          inst = le32_to_cpu be (pkt_w1 pkt);
          nid = le32_to_cpu be (pkt_w2 pkt);
          port = le32_to_cpu be (pkt_w3 pkt) in
      if length bs < sizeof_ctrl_pkt \<or> service = 0 then d
      else if cmd = QRTR_TYPE_NEW_SERVER then dir_step (Register nid port service inst) d
      else if cmd = QRTR_TYPE_DEL_SERVER then dir_step (Withdraw nid port) d
      else d)"

text \<open>The packets among \<open>ds\<close> that are sent to \<open>sq\<close>, replayed in order.\<close>

definition heard :: "bool \<Rightarrow> sockaddr_qrtr \<Rightarrow> (sockaddr_qrtr \<times> u8 list) list \<Rightarrow> directory \<Rightarrow> directory" where
  "heard be sq ds = fold (hear be) (map snd (filter (\<lambda>p. fst p = sq) ds))"

lemma heard_simps [simp]:
  "heard be sq [] d = d" "heard be sq (ds @ es) d = heard be sq es (heard be sq ds d)"
  "heard be sq ((to, bs) # ds) d = heard be sq ds (if to = sq then hear be bs d else d)"
  by (simp_all add: heard_def)

lemma heard_elsewhere: "\<forall>p \<in> set ds. fst p \<noteq> sq \<Longrightarrow> heard be sq ds d = d"
  by (induction ds) auto

lemma hear_wire:
  "hear be (wire_bytes cmd service inst nid port) d =
    (if service = 0 then d
     else if cmd = QRTR_TYPE_NEW_SERVER then dir_step (Register nid port service inst) d
     else if cmd = QRTR_TYPE_DEL_SERVER then dir_step (Withdraw nid port) d
     else d)"
  by (simp add: hear_def Let_def)

lemma pkt_bytes_little:
  "pkt_bytes False p = wire_bytes (pkt_cmd p) (pkt_w0 p) (pkt_w1 p) (pkt_w2 p) (pkt_w3 p)"
  by (simp add: pkt_bytes_def wire_bytes_def mem_bytes_def)

lemma notify_bytes_little:
  "notify_bytes False cmd srv = wire_bytes cmd (srv_service srv) (srv_instance srv) (srv_node srv) (srv_port srv)"
  by (simp add: notify_bytes_def pkt_bytes_little server_pkt_def cpu_to_le32_def)

text \<open>What a server's notifications amount to: hearing one twice is hearing it once.\<close>

definition news :: "u32 \<Rightarrow> server \<Rightarrow> request" where
  "news cmd srv = (if cmd = QRTR_TYPE_NEW_SERVER
     then Register (srv_node srv) (srv_port srv) (srv_service srv) (srv_instance srv)
     else Withdraw (srv_node srv) (srv_port srv))"

lemma hear_notify:
  "srv_service srv \<noteq> 0 \<Longrightarrow> cmd \<in> {QRTR_TYPE_NEW_SERVER, QRTR_TYPE_DEL_SERVER} \<Longrightarrow>
    hear be (notify_bytes False cmd srv) d = dir_step (news cmd srv) d"
  by (auto simp: notify_bytes_little hear_wire news_def qrtr_type_defs)

lemma dir_step_twice [simp]: "dir_step q (dir_step q d) = dir_step q d"
  by (cases q) simp_all

text \<open>An observer of everything.\<close>

definition watches :: "sockaddr_qrtr \<Rightarrow> lookup list \<Rightarrow> bool" where
  "watches sq lks \<longleftrightarrow> (\<exists>lk \<in> set lks. lk_sq lk = sq \<and> lk_service lk = 0 \<and> lk_instance lk = 0)"

lemma heard_notifications:
  assumes "srv_service srv \<noteq> 0" "cmd \<in> {QRTR_TYPE_NEW_SERVER, QRTR_TYPE_DEL_SERVER}" "watches sq lks"
  shows "heard be sq (notifications False cmd srv lks) d = dir_step (news cmd srv) d"
proof -
  note h = hear_notify [OF assms(1,2)]
  have settled: "heard be sq (notifications False cmd srv lks) (dir_step (news cmd srv) d) = dir_step (news cmd srv) d" for lks
    by (induction lks) (auto simp: notifications_def h)
  show ?thesis
    using assms(3) settled
    by (induction lks) (auto simp: watches_def notifications_def observes_def h)
qed

lemma heard_new_packets:
  assumes "\<not> host_be s" "srv_service srv \<noteq> 0" "watches sq (lookups s)" "sq \<noteq> bcast_sq s"
  shows "heard be sq (new_packets s srv) d = dir_step (news QRTR_TYPE_NEW_SERVER srv) d"
  using assms by (simp add: new_packets_def heard_notifications)

lemma heard_del_packets:
  assumes "\<not> host_be s" "srv_service srv \<noteq> 0" "watches sq (lookups s)" "sq \<noteq> bcast_sq s"
  shows "heard be sq (del_packets s srv) d = dir_step (Withdraw (srv_node srv) (srv_port srv)) d"
  using assms by (simp add: del_packets_def heard_notifications news_def qrtr_type_defs)

lemma heard_to_services:
  assumes "\<not> host_be s" "pkt_cmd pkt \<notin> {QRTR_TYPE_NEW_SERVER, QRTR_TYPE_DEL_SERVER}"
  shows "heard be sq (to_services s pkt) d = d"
proof -
  have "hear be (pkt_bytes False pkt) d = d" for d
    unfolding pkt_bytes_little hear_wire using assms(2) by simp
  then have "heard be sq (map (\<lambda>srv. (at srv, pkt_bytes False pkt)) srvs) d = d" for srvs and at :: "server \<Rightarrow> sockaddr_qrtr"
    by (induction srvs) simp_all
  then show ?thesis using assms(1) by (simp add: to_services_def)
qed

lemma heard_purge:
  assumes "\<not> host_be s" "watches sq (lookups s)" "sq \<noteq> bcast_sq s"
    and "\<forall>srv \<in> set srvs. srv_service srv \<noteq> 0 \<and> srv_node srv = n"
  shows "heard be sq (concat (map (del_packets s) srvs)) d =
    d(n := (\<lambda>p. if p \<in> srv_port ` set srvs then None else d n p))"
  using assms(4)
proof (induction srvs arbitrary: d)
  case (Cons srv srvs)
  then show ?case
    by (auto simp: heard_del_packets [OF assms(1) _ assms(2,3)] fun_eq_iff)
qed simp

section \<open>The servers of a state and its directory\<close>

lemma services_ok':
  assumes wf: "ns_wf s" and "srv \<in> set (services s n)"
  shows "srv_node srv = n" "srv_service srv \<noteq> 0" "srv_port srv \<noteq> 0"
proof -
  obtain k q where e: "(k, q) \<in> set (entries (table_of s n))" "srv = the (server_mem s q)"
    using assms(2) by (auto simp: services_def)
  obtain srv' where "server_mem s q = Some srv'" "srv_node srv' = n" "srv_service srv' \<noteq> 0" "srv_port srv' \<noteq> 0"
    by (rule table_entry [OF wf e(1)])
  then show "srv_node srv = n" "srv_service srv \<noteq> 0" "srv_port srv \<noteq> 0" using e(2) by simp_all
qed

lemma dir_services:
  assumes wf: "ns_wf s" and u: "map_uniq (table_of s n)" and srv: "srv \<in> set (services s n)"
  shows "dir s n (srv_port srv) = Some (srv_service srv, srv_instance srv)"
proof -
  obtain k q where e: "(k, q) \<in> set (entries (table_of s n))" "srv = the (server_mem s q)"
    using srv by (auto simp: services_def)
  have "k = hash_u32 (srv_port srv)" by (rule table_entry [OF wf e(1)]) (use e(2) in simp)
  then have "map_abs (table_of s n) (hash_u32 (srv_port srv)) = Some q" using e(1) u by (simp add: map_abs_entry)
  then show ?thesis using e(2) by (simp add: dir_def)
qed

lemma all_servers_services:
  assumes wf: "ns_wf s"
  shows "(\<lambda>sp. the (server_mem s sp)) ` set (all_servers s) = (\<Union>n. set (services s n))"
proof (intro set_eqI iffI)
  fix srv assume "srv \<in> (\<lambda>sp. the (server_mem s sp)) ` set (all_servers s)"
  then obtain k p k' sp where e: "(k, p) \<in> set (entries (nodes s))" "srv = the (server_mem s sp)"
      "(k', sp) \<in> set (entries (nd_services (the (node_mem s p))))"
    by (auto simp: all_servers_def)
  obtain nd where nd: "node_mem s p = Some nd" "k = hash_u32 (nd_id nd)" using ns_wf_nodeD [OF wf e(1)] by metis
  have "table_of s (nd_id nd) = nd_services nd" using table_of_entry(1) [OF wf _ nd(1)] e(1) nd(2) by simp
  then have "srv \<in> set (services s (nd_id nd))" using e nd(1) by (force simp: services_def)
  then show "srv \<in> (\<Union>n. set (services s n))" by blast
next
  fix srv assume "srv \<in> (\<Union>n. set (services s n))"
  then obtain n k sp where e: "(k, sp) \<in> set (entries (table_of s n))" "srv = the (server_mem s sp)"
    by (auto simp: services_def)
  show "srv \<in> (\<lambda>sp. the (server_mem s sp)) ` set (all_servers s)"
  proof (cases rule: table_of_cases [OF wf, of n])
    case 1
    with e(1) show ?thesis by (simp add: entries_def)
  next
    case (2 p nd)
    then have "sp \<in> set (all_servers s)" using e(1) by (force simp: all_servers_def)
    then show ?thesis using e(2) by blast
  qed
qed

text \<open>Hearing registrations that agree with a directory.\<close>

lemma heard_registrations:
  assumes "\<forall>srv \<in> set srvs. srv_service srv \<noteq> 0 \<and> D (srv_node srv) (srv_port srv) = Some (srv_service srv, srv_instance srv)"
  shows "heard be sq (map (\<lambda>srv. (sq, notify_bytes False QRTR_TYPE_NEW_SERVER srv)) srvs) d =
    (\<lambda>n p. if \<exists>srv \<in> set srvs. srv_node srv = n \<and> srv_port srv = p then D n p else d n p)"
  using assms
proof (induction srvs arbitrary: d)
  case (Cons srv srvs)
  then show ?case by (auto simp: hear_notify news_def fun_eq_iff)
qed simp

lemma heard_lookup_packets:
  assumes wf: "ns_wf s" and u: "\<And>n. map_uniq (table_of s n)" and be: "\<not> host_be s"
    and lk: "lk_service lk = 0" "lk_instance lk = 0" "lk_sq lk = sq"
  shows "heard be sq (lookup_packets s lk) (\<lambda>_ _. None) = dir s"
proof -
  let ?srvs = "map (\<lambda>sp. the (server_mem s sp)) (all_servers s)"
  have set: "set ?srvs = (\<Union>n. set (services s n))" using all_servers_services [OF wf] by simp
  have agree: "\<forall>srv \<in> set ?srvs. srv_service srv \<noteq> 0 \<and>
      dir s (srv_node srv) (srv_port srv) = Some (srv_service srv, srv_instance srv)"
  proof
    fix srv assume "srv \<in> set ?srvs"
    then obtain n where n: "srv \<in> set (services s n)" unfolding set by blast
    show "srv_service srv \<noteq> 0 \<and> dir s (srv_node srv) (srv_port srv) = Some (srv_service srv, srv_instance srv)"
      using services_ok' [OF wf n] dir_services [OF wf u n] by simp
  qed
  have cover: "\<exists>srv \<in> set ?srvs. srv_node srv = n \<and> srv_port srv = p" if ex: "dir s n p \<noteq> None" for n p
  proof -
    obtain srv where "srv \<in> set (services s n)" "srv_port srv = p" using ex dir_ports [OF wf u, of n p] by auto
    then show ?thesis using services_ok'(1) [OF wf] unfolding set by blast
  qed
  have all: "filter (\<lambda>srv. observes (srv_service srv) (srv_instance srv) lk) ?srvs = ?srvs"
    using lk by (simp add: observes_def)
  have "hear be (pkt_bytes False (zero_pkt\<lparr>pkt_cmd := QRTR_TYPE_NEW_SERVER\<rparr>)) d = d" for d
    unfolding pkt_bytes_little hear_wire by (simp add: zero_pkt_def)
  then have "heard be sq (lookup_packets s lk) (\<lambda>_ _. None) =
      heard be sq (map (\<lambda>srv. (sq, notify_bytes False QRTR_TYPE_NEW_SERVER srv)) ?srvs) (\<lambda>_ _. None)"
    using be lk(3) unfolding lookup_packets_def all by simp
  also have "\<dots> = dir s"
  proof (intro ext)
    fix n p
    show "heard be sq (map (\<lambda>srv. (sq, notify_bytes False QRTR_TYPE_NEW_SERVER srv)) ?srvs) (\<lambda>_ _. None) n p = dir s n p"
      unfolding heard_registrations [OF agree] using cover [of n p] by (cases "dir s n p = None") simp_all
  qed
  finally show ?thesis .
qed

section \<open>One datagram\<close>

definition listener :: "sockaddr_qrtr \<Rightarrow> ns_state \<Rightarrow> bool" where
  "listener sq s \<longleftrightarrow> \<not> host_be s \<and> watches sq (lookups s) \<and> sq \<noteq> bcast_sq s \<and> sq_node sq = local_node s"

definition apart :: "sockaddr_qrtr \<Rightarrow> sockaddr_qrtr \<Rightarrow> bool" where
  "apart sq from \<longleftrightarrow> sq_node from \<noteq> sq_node sq \<or> sq_port from \<noteq> sq_port sq"

text \<open>A handler that tells the observer what the request does to the directory.\<close>

definition tells :: "bool \<Rightarrow> sockaddr_qrtr \<Rightarrow> ns_state \<Rightarrow> (int \<times> ns_state) option \<Rightarrow> request \<Rightarrow> bool" where
  "tells be sq s res q \<longleftrightarrow> (\<forall>rc s'. res = Some (rc, s') \<longrightarrow> watches sq (lookups s') \<and>
     (\<exists>ds. sent s' = sent s @ ds \<and> heard be sq ds (dir s) = dir_step q (dir s)))"

lemma tellsI:
  assumes "res = Some (rc, s')" "watches sq (lookups s')" "sent s' = sent s @ ds"
    "heard be sq ds (dir s) = dir_step q (dir s)"
  shows "tells be sq s res q"
  using assms by (auto simp: tells_def)

lemma tells_nothing: "watches sq (lookups s) \<Longrightarrow> tells be sq s (Some (rc, s)) Neutral"
  by (rule tellsI [of _ rc s _ _ "[]"]) simp_all

lemma watches_filter:
  "watches sq lks \<Longrightarrow> (\<And>lk. lk_sq lk = sq \<Longrightarrow> P lk) \<Longrightarrow> watches sq (filter P lks)"
  by (auto simp: watches_def)

lemma hello_tells:
  assumes wf: "ns_wf s" "ns_bound 2 s" and li: "listener sq s" "apart sq from"
  shows "tells be sq s (ctrl_cmd_hello from buf s) Neutral"
proof (cases rule: ctrl_cmd_hello_spec [OF wf(1) ns_bound_mono [OF wf(2)], of "from" buf])
  case (2 rc s' n)
  have "from \<noteq> sq" using li(2) by (auto simp: apart_def)
  then have "\<forall>p \<in> set ((from, buf) # take n (announcements s from)). fst p \<noteq> sq"
    by (auto simp: announcements_def dest!: in_set_takeD)
  from heard_elsewhere [OF this] show ?thesis
    by (intro tellsI [OF 2(1) _ 2(6)]) (use li 2(5) in \<open>simp_all add: listener_def\<close>)
qed simp

lemma new_lookup_tells:
  assumes wf: "ns_wf s" and li: "listener sq s" "apart sq from"
  shows "tells be sq s (ctrl_cmd_new_lookup from service instance s) Neutral"
proof (cases rule: ctrl_cmd_new_lookup_spec [OF wf, of "from" service "instance"])
  case 1
  then show ?thesis using li by (auto simp: listener_def intro: tells_nothing)
next
  case (2 s')
  show ?thesis by (rule tellsI [OF 2(1), of _ _ "[]"]) (use 2 li in \<open>simp_all add: listener_def\<close>)
next
  case (3 s' lk)
  have "from \<noteq> sq" using li(2) by (auto simp: apart_def)
  then have "\<forall>p \<in> set (lookup_packets s lk). fst p \<noteq> sq" using 3(3) by (auto simp: lookup_packets_def)
  from heard_elsewhere [OF this] show ?thesis
    by (intro tellsI [OF 3(1) _ 3(8)]) (use li 3(7) in \<open>auto simp: listener_def watches_def\<close>)
qed

lemma del_lookup_tells:
  assumes li: "listener sq s" "apart sq from"
  shows "tells be sq s (ctrl_cmd_del_lookup from service instance s) Neutral"
proof -
  have "watches sq (del_lookup_lookups from service instance (lookups s))"
    unfolding del_lookup_lookups_filter using li by (intro watches_filter) (auto simp: listener_def apart_def)
  then show ?thesis
    by (intro tellsI [of _ 0 "s\<lparr>lookups := del_lookup_lookups from service instance (lookups s)\<rparr>" sq s "[]"])
      (simp_all add: ctrl_cmd_del_lookup_def)
qed

lemma bye_tells:
  assumes wf: "ns_wf s" "ns_bound 2 s" and al: "alloc_all (heap_script s)"
    and u: "map_uniq (table_of s (sq_node from))" and li: "listener sq s"
  shows "tells be sq s (ctrl_cmd_bye from s) (Leave (sq_node from))"
proof (cases rule: ctrl_cmd_bye_spec [OF wf, of "from"])
  case (1 s')
  let ?n = "sq_node from"
  have srvs: "\<forall>srv \<in> set (services s ?n). srv_service srv \<noteq> 0 \<and> srv_node srv = ?n" using services_ok' [OF wf(1)] by blast
  have "heard be sq (to_services s (bye_pkt ?n)) d = d" for d
    by (rule heard_to_services) (use li in \<open>simp_all add: listener_def bye_pkt_def qrtr_type_defs\<close>)
  moreover have "heard be sq (concat (map (del_packets s) (services s ?n))) (dir s) = (dir s)(?n := (\<lambda>_. None))"
    using heard_purge [OF _ _ _ srvs, of s sq be "dir s"] li dir_ports [OF wf(1) u]
    by (auto simp: listener_def fun_eq_iff)
  moreover have snt: "sent s' = sent s @ concat (map (del_packets s) (services s ?n)) @
      (if ?n = local_node s then [] else to_services s (bye_pkt ?n))" using 1(5) al u by blast
  ultimately show ?thesis
    by (intro tellsI [OF 1(1) _ snt]) (use li 1(3) in \<open>auto simp: listener_def\<close>)
qed

lemma heard_withdrawn:
  assumes wf: "ns_wf s" and u: "map_uniq (table_of s n)" and li: "listener sq s" and w: "port_withdrawn s n port ds"
  shows "heard be sq ds (dir s) = dir_step (Withdraw n port) (dir s)"
proof -
  from w consider "ds = []" "port \<notin> srv_port ` set (services s n)"
    | srv where "srv \<in> set (services s n)" "srv_port srv = port" "ds = del_packets s srv"
    by (auto simp: port_withdrawn_def)
  then show ?thesis
  proof cases
    case 1
    then show ?thesis using dir_ports [OF wf u, of port] by (auto simp: fun_eq_iff)
  next
    case 2
    then show ?thesis using heard_del_packets [of s srv sq be "dir s"] services_ok' [OF wf 2(1)] li
      by (simp add: listener_def)
  qed
qed

lemma del_client_tells:
  assumes wf: "ns_wf s" "ns_bound 2 s" and al: "alloc_all (heap_script s)"
    and u: "map_uniq (table_of s (sq_node from))" and li: "listener sq s" "apart sq from"
  shows "tells be sq s (ctrl_cmd_del_client from nid port s)
    (if sq_node from = nid \<and> (sq_node from = local_node s \<longrightarrow> sq_port from = port) then Withdraw nid port else Neutral)"
proof (cases rule: ctrl_cmd_del_client_spec [OF wf, of "from" nid port])
  case 1
  then show ?thesis using li by (auto simp: listener_def intro: tells_nothing)
next
  case (2 s')
  let ?s = "s\<lparr>lookups := del_client_lookups nid port (lookups s)\<rparr>"
  have w: "watches sq (lookups ?s)"
    using li 2(2,3) by (auto simp: del_client_lookups_filter listener_def apart_def intro!: watches_filter)
  have "listener sq ?s" "ns_wf ?s" "map_uniq (table_of ?s nid)" and d: "dir ?s = dir s"
    using li(1) wf(1) u w 2(2) by (simp_all add: listener_def table_of_def dir_def fun_eq_iff)
  note h = heard_withdrawn [OF this(2,3,1)]
  obtain ds where ds: "sent s' = sent s @ ds @ to_services s' (del_client_pkt s nid port)" "port_withdrawn ?s nid port ds"
    using 2(8) al by blast
  have "heard be sq (to_services s' (del_client_pkt s nid port)) d = d" for d
    by (rule heard_to_services) (use li 2(4) in \<open>simp_all add: listener_def del_client_pkt_def grows_def qrtr_type_defs\<close>)
  then show ?thesis using h [OF ds(2)] d ds(1) w 2(2,3,5)
    by (intro tellsI [OF 2(1)]) auto
qed

lemma new_server_tells:
  assumes wf: "ns_wf s" "ns_bound 2 s" and al: "alloc_all (heap_script s)" and li: "listener sq s"
  shows "tells be sq s (ctrl_cmd_new_server from service instance nid port s)
    (if (sq_node from = local_node s \<or> sq_node from = nid) \<and> service \<noteq> 0 \<and> reg_port s from port \<noteq> 0
     then Register (sq_node from) (reg_port s from port) service instance else Neutral)"
proof (cases rule: ctrl_cmd_new_server_spec [OF wf, of "from" service "instance" nid port])
  case 1
  then show ?thesis using li by (auto simp: listener_def intro: tells_nothing)
next
  case (2 s')
  show ?thesis by (rule tellsI [OF 2(1), of _ _ "[]"]) (use 2 li al in \<open>auto simp: listener_def\<close>)
next
  case (3 s' rc)
  have "heard be sq (new_packets s (added_server service instance (sq_node from) (reg_port s from port))) (dir s) =
      dir_step (Register (sq_node from) (reg_port s from port) service instance) (dir s)"
    using heard_new_packets [of s "added_server service instance (sq_node from) (reg_port s from port)" sq be "dir s"] li 3(3)
    by (simp add: listener_def added_server_def news_def)
  then show ?thesis by (intro tellsI [OF 3(1) _ 3(8)]) (use 3 li in \<open>simp_all add: listener_def\<close>)
qed

lemma del_server_tells:
  assumes wf: "ns_wf s" "ns_bound 2 s" and al: "alloc_all (heap_script s)"
    and u: "map_uniq (table_of s (sq_node from))" and li: "listener sq s"
  shows "tells be sq s (ctrl_cmd_del_server from service instance nid port s)
    (if sq_node from = local_node s \<or> sq_node from = nid then Withdraw (sq_node from) (reg_port s from port) else Neutral)"
proof (cases rule: ctrl_cmd_del_server_spec [OF wf(1) ns_bound_mono [OF wf(2)], of "from" service "instance" nid port])
  case 2
  then show ?thesis using li by (auto simp: listener_def intro: tells_nothing)
next
  case (4 s' rc)
  then obtain ds where ds: "sent s' = sent s @ ds" "port_withdrawn s (sq_node from) (reg_port s from port) ds"
    by (auto simp: port_withdrawn_def)
  show ?thesis
    by (rule tellsI [OF 4(1) _ ds(1)]) (use heard_withdrawn [OF wf(1) u li ds(2)] 4(2,4) li in \<open>simp_all add: listener_def\<close>)
qed (use al in simp_all)

lemma ctrl_port_fn_tells:
  assumes run: "running False local (Suc k) s" and d: "\<not> rx_error r" "rx_data r \<noteq> []"
    and free: "case request_of False local r of Register nid port _ _ \<Rightarrow> dir s nid port = None | _ \<Rightarrow> True"
    and li: "listener sq s" "apart sq (rx_from r)"
  shows "tells be sq s (ctrl_port_fn r s) (request_of False local r)"
proof -
  note s = runningD [OF run]
  have b2: "ns_bound 2 s" by (rule ns_bound_mono [OF s(2)]) simp
  have "tells be sq s (Some (0, s)) Neutral" using li(1) by (auto simp: listener_def intro: tells_nothing)
  moreover have free': "case request_of (host_be s) (local_node s) r of Register nid port _ _ \<Rightarrow> dir s nid port = None | _ \<Rightarrow> True"
    using free s(7,8) by simp
  ultimately have "tells be sq s (ctrl_port_fn r s) (request_of (host_be s) (local_node s) r)"
    by (intro dispatch_requests [where P = "tells be sq s", OF d] hello_tells bye_tells del_client_tells new_server_tells
        del_server_tells new_lookup_tells del_lookup_tells s(1) b2 s(5) s(6) li)
  then show ?thesis using s(7,8) by simp
qed

section \<open>Runs\<close>

lemma ns_main_loop_append: "ns_main_loop (rs @ rs') s = ns_main_loop rs s \<bind> ns_main_loop rs'"
proof (induction rs arbitrary: s)
  case (Cons r rs)
  show ?case
  proof (cases "ctx_sock s \<ge> 0")
    case True
    then show ?thesis using Cons.IH by (cases "ctrl_port_fn r s") (auto split: prod.split)
  qed (simp add: ns_main_loop_closed)
qed simp

lemma running_prefix:
  assumes "running be local (length rs + k) s" "\<forall>r \<in> set rs. \<not> rx_error r \<and> rx_data r \<noteq> []"
    and "ports_free (map (request_of be local) rs) (dir s)"
  obtains t where "ns_main_loop rs s = Some t" "running be local k t" "bcast_sq t = bcast_sq s"
    "dir t = fold dir_step (map (request_of be local) rs) (dir s)"
  using assms
proof (induction rs arbitrary: s thesis)
  case (Cons r rs)
  obtain rc u where u: "ctrl_port_fn r s = Some (rc, u)" "running be local (length rs + k) u" "bcast_sq u = bcast_sq s"
    "dir u = dir_step (request_of be local r) (dir s)"
    by (rule running_step [of be local "length rs + k" s r]) (use Cons.prems in auto)
  obtain t where "ns_main_loop rs u = Some t" "running be local k t" "bcast_sq t = bcast_sq u"
    "dir t = fold dir_step (map (request_of be local) rs) (dir u)"
    by (rule Cons.IH [OF _ u(2)]) (use Cons.prems u(4) in auto)
  then show ?case using Cons.prems(1) u runningD(4) [OF Cons.prems(2)] by auto
qed simp

lemma listener_run:
  assumes "running False local (length rs) s" "listener sq s" "\<forall>r \<in> set rs. apart sq (rx_from r)"
    and "ports_free (map (request_of False local) (handled rs)) (dir s)"
  shows "\<exists>t ds. ns_main_loop rs s = Some t \<and> sent t = sent s @ ds \<and> heard be sq ds (dir s) = dir t"
  using assms
proof (induction rs arbitrary: s)
  case (Cons r rs)
  note sock = runningD(4) [OF Cons.prems(1)]
  show ?case
  proof (cases "rx_error r \<or> rx_data r = []")
    case True
    have "ns_main_loop (r # rs) s = Some (s\<lparr>ctx_sock := - 1\<rparr>)"
      using sock ctrl_port_fn_stop [OF True, of s] ns_main_loop_closed [of "s\<lparr>ctx_sock := - 1\<rparr>" rs] by simp
    moreover have "dir (s\<lparr>ctx_sock := - 1\<rparr>) = dir s" by (simp add: dir_def table_of_def fun_eq_iff)
    ultimately show ?thesis by simp
  next
    case False
    then have d: "\<not> rx_error r" "rx_data r \<noteq> []" and hd: "handled (r # rs) = r # handled rs"
      by (simp_all add: handled_def)
    have free: "case request_of False local r of Register nid port _ _ \<Rightarrow> dir s nid port = None | _ \<Rightarrow> True"
      using Cons.prems(4) hd by simp
    obtain rc u where u: "ctrl_port_fn r s = Some (rc, u)" "running False local (length rs) u" "bcast_sq u = bcast_sq s"
      "dir u = dir_step (request_of False local r) (dir s)"
      by (rule running_step [OF _ d free]) (use Cons.prems(1) in auto)
    have "tells be sq s (ctrl_port_fn r s) (request_of False local r)"
      by (rule ctrl_port_fn_tells [OF _ d free Cons.prems(2)]) (use Cons.prems(1,3) in auto)
    then obtain ds where ds: "watches sq (lookups u)" "sent u = sent s @ ds" "heard be sq ds (dir s) = dir u"
      using u(1,4) by (auto simp: tells_def)
    have "listener sq u"
      using Cons.prems(2) ds(1) u(3) runningD(7,8) [OF u(2)] runningD(7,8) [OF Cons.prems(1)] by (simp add: listener_def)
    then obtain t es where "ns_main_loop rs u = Some t" "sent t = sent u @ es" "heard be sq es (dir u) = dir t"
      using Cons.IH [OF u(2)] Cons.prems(3,4) hd u(4) by auto
    then show ?thesis using u(1) sock ds by (intro exI [of _ t] exI [of _ "ds @ es"]) simp
  qed
qed simp

lemma ports_free_append:
  "ports_free (qs @ qs') d \<longleftrightarrow> ports_free qs d \<and> ports_free qs' (fold dir_step qs d)"
  by (induction qs arbitrary: d) auto

text \<open>The request of a client for everything.\<close>

definition lookup_all :: "sockaddr_qrtr \<Rightarrow> rx" where
  "lookup_all sq = packet_rx False sq QRTR_TYPE_NEW_LOOKUP 0 0 0 0"

lemma lookup_all_packet:
  "\<not> rx_error (lookup_all sq)" "rx_data (lookup_all sq) \<noteq> []" "rx_from (lookup_all sq) = sq"
  "request_of False local (lookup_all sq) = Neutral"
  "\<not> host_be s \<Longrightarrow> ctrl_port_fn (lookup_all sq) s = ctrl_cmd_new_lookup sq 0 0 s"
proof -
  show "request_of False local (lookup_all sq) = Neutral"
    by (simp add: lookup_all_def request_of_def packet_rx_def rx_buf_def Let_def qrtr_type_defs)
  show "\<not> host_be s \<Longrightarrow> ctrl_port_fn (lookup_all sq) s = ctrl_cmd_new_lookup sq 0 0 s"
    by (simp add: lookup_all_def ctrl_port_fn_packet qrtr_type_defs)
qed (simp_all add: lookup_all_def packet_rx_def pkt_bytes_def mem_bytes_def le_bytes_def)

lemma lookup_starts_listening:
  assumes run: "running False local (Suc k) u" and sq: "sq_node sq = local" "sq \<noteq> bcast_sq u"
  obtains v ds where "ctrl_port_fn (lookup_all sq) u = Some (0, v)" "running False local k v" "listener sq v"
    "sent v = sent u @ ds" "heard be sq ds (\<lambda>_ _. None) = dir v" "dir v = dir u"
proof -
  note u = runningD [OF run]
  obtain rc v where v: "ctrl_port_fn (lookup_all sq) u = Some (rc, v)" "running False local k v" "bcast_sq v = bcast_sq u"
    "dir v = dir_step (request_of False local (lookup_all sq)) (dir u)"
    by (rule running_step [OF run, of "lookup_all sq"]) (simp_all add: lookup_all_packet)
  have d: "dir v = dir u" using v(4) by (simp add: lookup_all_packet)
  let ?lk = "\<lparr>lk_service = 0, lk_instance = 0, lk_sq = sq\<rparr>"
  have fn: "ctrl_port_fn (lookup_all sq) u = ctrl_cmd_new_lookup sq 0 0 u"
    by (rule lookup_all_packet(5)) (simp add: u(7))
  have a: "rc = 0 \<and> lookups v = lookups u @ [?lk] \<and> sent v = sent u @ lookup_packets u ?lk"
    by (cases rule: ctrl_cmd_new_lookup_spec [OF u(1), of sq 0 0]) (use v(1) fn u(5,8) sq(1) in auto)
  have "heard be sq (lookup_packets u ?lk) (\<lambda>_ _. None) = dir u"
    by (rule heard_lookup_packets [OF u(1) u(6)]) (use u(7) in simp_all)
  moreover have "listener sq v"
    using a v(3) runningD(7,8) [OF v(2)] sq by (auto simp: listener_def watches_def)
  ultimately show thesis using a v(1,2) d by (intro that [of v "lookup_packets u ?lk"]) simp_all
qed

text \<open>Claim C2: An observer knows the directory. On a little-endian host on which no allocation fails, let
  the name server have handled any datagrams \<open>rs\<close> that do not close its socket. A local client then
  sends one NEW\_LOOKUP for service 0 and instance 0 and replays the packets it is sent from then on.
  After any datagrams \<open>rs'\<close> of other clients it has exactly the directory of the name server, provided
  that in the whole run no port that is registered registers again (otherwise the directory itself can
  keep a withdrawn server, \<open>stale_server_after_withdrawal\<close>) and that the run has at most 4194303 datagrams.\<close>
theorem observer_knows_directory:
  assumes start: "boot s0" "ns_main_start sock_rc name_rc name bind_rc err s0 = Inr s" "alloc_all (heap_script s0)"
      "\<not> host_be s0"
    and client: "sq_node sq = sq_node name" "sq_node name \<noteq> QRTR_NODE_BCAST" "\<forall>r \<in> set rs'. apart sq (rx_from r)"
    and input: "length rs + length rs' < 4194303" "\<forall>r \<in> set rs. \<not> rx_error r \<and> rx_data r \<noteq> []"
      "ports_free (map (request_of False (sq_node name)) (rs @ handled rs')) (\<lambda>_ _. None)"
  shows "\<exists>u t ds. ns_main_loop rs s = Some u \<and> ns_main_loop (rs @ lookup_all sq # rs') s = Some t \<and>
    sent t = sent u @ ds \<and> heard be sq ds (\<lambda>_ _. None) = dir t"
proof -
  let ?local = "sq_node name"
  have "length rs + Suc (length rs') \<le> 4194303" using input(1) by simp
  note s = ns_main_start_running [OF start(1-3) this]
  have run: "running False ?local (length rs + Suc (length rs')) s" using s(1) start(4) by simp
  obtain u where u: "ns_main_loop rs s = Some u" "running False ?local (Suc (length rs')) u" "bcast_sq u = bcast_sq s"
    "dir u = fold dir_step (map (request_of False ?local) rs) (dir s)"
    by (rule running_prefix [OF run input(2)]) (use input(3) s(2) in \<open>simp_all add: ports_free_append\<close>)
  have "sq \<noteq> bcast_sq u" using u(3) client(1,2) ns_main_start_cases(8) [OF start(2)] by auto
  then obtain v ds where v: "ctrl_port_fn (lookup_all sq) u = Some (0, v)" "running False ?local (length rs') v"
    "listener sq v" "sent v = sent u @ ds" "heard be sq ds (\<lambda>_ _. None) = dir v" "dir v = dir u"
    by (rule lookup_starts_listening [OF u(2) client(1)])
  have "ports_free (map (request_of False ?local) (handled rs')) (dir v)"
    using input(3) v(6) u(4) s(2) by (simp add: ports_free_append)
  from listener_run [OF v(2,3) client(3) this] obtain t es where
    t: "ns_main_loop rs' v = Some t" "sent t = sent v @ es" "heard be sq es (dir v) = dir t" by blast
  have "ns_main_loop (rs @ lookup_all sq # rs') s = Some t"
    using u(1) v(1) t(1) runningD(4) [OF u(2)] by (simp add: ns_main_loop_append)
  then show ?thesis using u(1) v(4,5) t(2,3) by (intro exI [of _ u] exI [of _ t] exI [of _ "ds @ es"]) simp
qed

theorem observer_knows_directory_witness:
  "\<exists>s u t ds. ns_main_start 3 0 (at_port 1 7) 0 0 (idle False (0, 0)) = Inr s \<and>
    ns_main_loop [packet_rx False (at_port 1 5) QRTR_TYPE_NEW_SERVER 10 7 0 0] s = Some u \<and>
    ns_main_loop ([packet_rx False (at_port 1 5) QRTR_TYPE_NEW_SERVER 10 7 0 0] @ lookup_all (at_port 1 8) #
      [packet_rx False (at_port 2 9) QRTR_TYPE_BYE 0 0 0 0]) s = Some t \<and>
    sent t = sent u @ ds \<and> heard True (at_port 1 8) ds (\<lambda>_ _. None) = dir t"
proof -
  obtain s where s: "ns_main_start 3 0 (at_port 1 7) 0 0 (idle False (0, 0)) = Inr s" using start_idle by blast
  have data: "\<not> rx_error (packet_rx False sq cmd w0 w1 w2 w3) \<and> rx_data (packet_rx False sq cmd w0 w1 w2 w3) \<noteq> []"
    for sq cmd w0 w1 w2 w3
    by (simp add: packet_rx_def pkt_bytes_def mem_bytes_def le_bytes_def)
  have "ports_free (map (request_of False (sq_node (at_port 1 7)))
      ([packet_rx False (at_port 1 5) QRTR_TYPE_NEW_SERVER 10 7 0 0] @
        handled [packet_rx False (at_port 2 9) QRTR_TYPE_BYE 0 0 0 0])) (\<lambda>_ _. None)"
    using data by (simp add: handled_def split: request.split)
      (simp add: request_of_def packet_rx_def rx_buf_def Let_def qrtr_type_defs)
  from observer_knows_directory [OF idle_boot s _ _ _ _ _ _ _ this, of "at_port 1 8" True] s data show ?thesis
    by (auto simp: apart_def QRTR_NODE_BCAST_def)
qed

end
