(* ===== verification/Qrtr_Client.thy ===== *)
theory Qrtr_Client
  imports Wire
begin

text \<open>
  The client library \<open>lib/qrtr.c\<close>: opening a socket, sending the control packets that register
  and look up services, receiving, and decoding a received packet. The kernel is a parameter:
  each function takes the outcomes of the system calls it makes and returns its own result
  with the list of calls it made, in order.
\<close>

unbundle bit_operations_syntax

section \<open>System calls\<close>

datatype syscall =
    Socket
  | Setsockopt int
  | Bind int sockaddr_qrtr
  | Close int
  | Getsockname int
  | Sendto int sockaddr_qrtr "u8 list"
  | Recv int nat
  | Recvfrom int nat
  | Poll int u32

record outcomes =
  oc_socket :: int
  oc_setsockopt :: int
  oc_bind :: int
  oc_getsockname :: int
  oc_sockname :: sockaddr_qrtr
  oc_socklen :: nat
  oc_sendto :: int
  oc_recv :: int
  oc_from :: sockaddr_qrtr
  oc_poll :: int

text \<open>\<open>sizeof(struct sockaddr_qrtr)\<close>: a 16-bit family, padding and two words.\<close>

definition sizeof_sockaddr_qrtr :: nat where
  "sizeof_sockaddr_qrtr = 12"

section \<open>Sockets\<close>

definition qrtr_getname :: "outcomes \<Rightarrow> int \<Rightarrow> int \<times> syscall list" where
  "qrtr_getname oc sock =
     (if oc_getsockname oc \<noteq> 0 then (- 1, [Getsockname sock])
      else if sq_family (oc_sockname oc) \<noteq> AF_QIPCRTR \<or> oc_socklen oc \<noteq> sizeof_sockaddr_qrtr
      then (- 1, [Getsockname sock])
      else (0, [Getsockname sock]))"

definition qrtr_open :: "outcomes \<Rightarrow> u32 \<Rightarrow> int \<times> syscall list" where
  "qrtr_open oc rport =
     (let sock = oc_socket oc in
      if sock < 0 then (- 1, [Socket])
      else if oc_setsockopt oc \<noteq> 0 then (- 1, [Socket, Setsockopt sock, Close sock])
      else if rport \<noteq> 0 then
        (let sq = \<lparr>sq_family = AF_QIPCRTR, sq_node = 1, sq_port = rport\<rparr> in
         if oc_bind oc < 0 then (- 1, [Socket, Setsockopt sock, Bind sock sq, Close sock])
         else (sock, [Socket, Setsockopt sock, Bind sock sq]))
      else (sock, [Socket, Setsockopt sock]))"

definition qrtr_close :: "int \<Rightarrow> syscall list" where
  "qrtr_close sock = [Close sock]"

definition qrtr_sendto :: "outcomes \<Rightarrow> int \<Rightarrow> u32 \<Rightarrow> u32 \<Rightarrow> u8 list \<Rightarrow> int \<times> syscall list" where
  "qrtr_sendto oc sock node port data =
     (let sq = \<lparr>sq_family = AF_QIPCRTR, sq_node = node, sq_port = port\<rparr> in
      (if oc_sendto oc < 0 then - 1 else 0, [Sendto sock sq data]))"

section \<open>Control requests\<close>

text \<open>\<open>instance << 8 | version\<close> on the 16-bit parameters, promoted to \<open>int\<close>.\<close>

definition instance_word :: "u16 \<Rightarrow> u16 \<Rightarrow> u32" where
  "instance_word version instance = push_bit 8 (ucast instance) OR ucast version"

definition qrtr_new_server :: "outcomes \<Rightarrow> bool \<Rightarrow> int \<Rightarrow> u32 \<Rightarrow> u16 \<Rightarrow> u16 \<Rightarrow> int \<times> syscall list" where
  "qrtr_new_server oc be sock service version instance =
     (case qrtr_getname oc sock of (r, tr) \<Rightarrow>
        if r \<noteq> 0 then (- 1, tr)
        else (let pkt = zero_pkt\<lparr>pkt_cmd := cpu_to_le32 be QRTR_TYPE_NEW_SERVER,
                pkt_w0 := cpu_to_le32 be service,
                pkt_w1 := cpu_to_le32 be (instance_word version instance)\<rparr> in
              case qrtr_sendto oc sock (sq_node (oc_sockname oc)) QRTR_PORT_CTRL (pkt_bytes be pkt) of
                (r', tr') \<Rightarrow> (r', tr @ tr')))"

definition qrtr_remove_server :: "outcomes \<Rightarrow> bool \<Rightarrow> int \<Rightarrow> u32 \<Rightarrow> u16 \<Rightarrow> u16 \<Rightarrow> int \<times> syscall list" where
  "qrtr_remove_server oc be sock service version instance =
     (case qrtr_getname oc sock of (r, tr) \<Rightarrow>
        if r \<noteq> 0 then (- 1, tr)
        else (let pkt = zero_pkt\<lparr>pkt_cmd := cpu_to_le32 be QRTR_TYPE_DEL_SERVER,
                pkt_w0 := cpu_to_le32 be service,
                pkt_w1 := cpu_to_le32 be (instance_word version instance),
                pkt_w2 := cpu_to_le32 be (sq_node (oc_sockname oc)),
                pkt_w3 := cpu_to_le32 be (sq_port (oc_sockname oc))\<rparr> in
              case qrtr_sendto oc sock (sq_node (oc_sockname oc)) QRTR_PORT_CTRL (pkt_bytes be pkt) of
                (r', tr') \<Rightarrow> (r', tr @ tr')))"

definition qrtr_publish :: "outcomes \<Rightarrow> bool \<Rightarrow> int \<Rightarrow> u32 \<Rightarrow> u16 \<Rightarrow> u16 \<Rightarrow> int \<times> syscall list" where
  "qrtr_publish oc be sock service version instance = qrtr_new_server oc be sock service version instance"

definition qrtr_bye :: "outcomes \<Rightarrow> bool \<Rightarrow> int \<Rightarrow> u32 \<Rightarrow> u16 \<Rightarrow> u16 \<Rightarrow> int \<times> syscall list" where
  "qrtr_bye oc be sock service version instance = qrtr_remove_server oc be sock service version instance"

definition qrtr_new_lookup :: "outcomes \<Rightarrow> bool \<Rightarrow> int \<Rightarrow> u32 \<Rightarrow> u16 \<Rightarrow> u16 \<Rightarrow> int \<times> syscall list" where
  "qrtr_new_lookup oc be sock service version instance =
     (case qrtr_getname oc sock of (r, tr) \<Rightarrow>
        if r \<noteq> 0 then (- 1, tr)
        else (let pkt = zero_pkt\<lparr>pkt_cmd := cpu_to_le32 be QRTR_TYPE_NEW_LOOKUP,
                pkt_w0 := cpu_to_le32 be service,
                pkt_w1 := cpu_to_le32 be (instance_word version instance)\<rparr> in
              case qrtr_sendto oc sock (sq_node (oc_sockname oc)) QRTR_PORT_CTRL (pkt_bytes be pkt) of
                (r', tr') \<Rightarrow> (r', tr @ tr')))"

definition qrtr_remove_lookup :: "outcomes \<Rightarrow> bool \<Rightarrow> int \<Rightarrow> u32 \<Rightarrow> u16 \<Rightarrow> u16 \<Rightarrow> int \<times> syscall list" where
  "qrtr_remove_lookup oc be sock service version instance =
     (case qrtr_getname oc sock of (r, tr) \<Rightarrow>
        if r \<noteq> 0 then (- 1, tr)
        else (let pkt = zero_pkt\<lparr>pkt_cmd := cpu_to_le32 be QRTR_TYPE_DEL_LOOKUP,
                pkt_w0 := cpu_to_le32 be service,
                pkt_w1 := cpu_to_le32 be (instance_word version instance),
                pkt_w2 := cpu_to_le32 be (sq_node (oc_sockname oc)),
                pkt_w3 := cpu_to_le32 be (sq_port (oc_sockname oc))\<rparr> in
              case qrtr_sendto oc sock (sq_node (oc_sockname oc)) QRTR_PORT_CTRL (pkt_bytes be pkt) of
                (r', tr') \<Rightarrow> (r', tr @ tr')))"

section \<open>Receiving\<close>

definition qrtr_poll :: "outcomes \<Rightarrow> int \<Rightarrow> u32 \<Rightarrow> int \<times> syscall list" where
  "qrtr_poll oc sock ms = (oc_poll oc, [Poll sock ms])"

definition qrtr_recv :: "outcomes \<Rightarrow> int \<Rightarrow> u32 \<Rightarrow> int \<times> syscall list" where
  "qrtr_recv oc sock bsz = (oc_recv oc, [Recv sock (unat bsz)])"

text \<open>
  \<open>node\<close> and \<open>port\<close> are optional out-parameters: \<open>None\<close> is a null pointer, \<open>Some v\<close> an object
  holding \<open>v\<close>, and the result has their new contents.
\<close>

definition qrtr_recvfrom ::
  "outcomes \<Rightarrow> int \<Rightarrow> u32 \<Rightarrow> u32 option \<Rightarrow> u32 option \<Rightarrow> (int \<times> u32 option \<times> u32 option) \<times> syscall list" where
  "qrtr_recvfrom oc sock bsz node port =
     (let rc = oc_recv oc in
      if rc < 0 then ((rc, node, port), [Recvfrom sock (unat bsz)])
      else ((rc, map_option (\<lambda>_. sq_node (oc_from oc)) node, map_option (\<lambda>_. sq_port (oc_from oc)) port),
            [Recvfrom sock (unat bsz)]))"

section \<open>qrtr\_decode\<close>

record qrtr_packet =
  qp_type :: u32
  qp_node :: u32
  qp_port :: u32
  qp_service :: u32
  qp_instance :: u32
  qp_version :: u32
  qp_data :: "u8 list"
  qp_data_len :: nat

text \<open>A packet over a buffer on the stack, whose bytes are what the stack held; the other fields are zero.\<close>

definition DEFINE_QRTR_PACKET :: "u8 list \<Rightarrow> qrtr_packet" where
  "DEFINE_QRTR_PACKET stack = \<lparr>qp_type = 0, qp_node = 0, qp_port = 0, qp_service = 0, qp_instance = 0,
     qp_version = 0, qp_data = stack, qp_data_len = length stack\<rparr>"

text \<open>
  \<open>buf\<close> is the memory behind the buffer pointer; reading the packet needs its 20 bytes, which the
  length check ensures if \<open>len\<close> is the true length.
\<close>

definition qrtr_decode :: "bool \<Rightarrow> qrtr_packet \<Rightarrow> u8 list \<Rightarrow> nat \<Rightarrow> sockaddr_qrtr \<Rightarrow> (int \<times> qrtr_packet) option" where
  "qrtr_decode be dest buf len sq =
     (if sq_port sq = QRTR_PORT_CTRL then
        if len < sizeof_ctrl_pkt then Some (- EMSGSIZE, dest)
        else if length buf < sizeof_ctrl_pkt then None
        else
          (let ctrl = pkt_of_bytes be buf;
               dest = dest\<lparr>qp_type := le32_to_cpu be (pkt_cmd ctrl)\<rparr> in
           if qp_type dest = QRTR_TYPE_BYE then
             Some (0, dest\<lparr>qp_node := le32_to_cpu be (pkt_w0 ctrl)\<rparr>)
           else if qp_type dest = QRTR_TYPE_DEL_CLIENT then
             Some (0, dest\<lparr>qp_node := le32_to_cpu be (pkt_w0 ctrl), qp_port := le32_to_cpu be (pkt_w1 ctrl)\<rparr>)
           else if qp_type dest = QRTR_TYPE_NEW_SERVER \<or> qp_type dest = QRTR_TYPE_DEL_SERVER then
             Some (0, dest\<lparr>qp_node := le32_to_cpu be (pkt_w2 ctrl), qp_port := le32_to_cpu be (pkt_w3 ctrl),
               qp_service := le32_to_cpu be (pkt_w0 ctrl),
               qp_version := le32_to_cpu be (pkt_w1 ctrl) AND 0xff,
               qp_instance := drop_bit 8 (le32_to_cpu be (pkt_w1 ctrl))\<rparr>)
           else Some (0, dest\<lparr>qp_type := 0\<rparr>))
      else Some (0, dest\<lparr>qp_type := QRTR_TYPE_DATA, qp_node := sq_node sq, qp_port := sq_port sq,
             qp_data := buf, qp_data_len := len\<rparr>))"

section \<open>Facts\<close>

text \<open>
  Version and instance share one word; they can be told apart only if the version fits in eight
  bits.
\<close>

lemma instance_word_version:
  assumes "unat version < 256"
  shows "instance_word version instance AND 0xff = ucast version"
    "drop_bit 8 (instance_word version instance) = ucast instance"
proof -
  have m: "(0xff :: u32) = mask 8" by (simp add: mask_eq_exp_minus_1)
  have "unat (take_bit 8 version) = unat version"
    using assms by (simp add: take_bit_eq_mod unat_mod)
  then have low: "take_bit 8 version = version" by (simp add: word_unat_eq_iff)
  have hi: "\<not> bit version n" if "8 \<le> n" for n
    using that by (subst low [symmetric]) (simp add: bit_take_bit_iff)
  then have lt: "n < 8" if "bit version n" for n
    using that not_less by blast
  show "instance_word version instance AND 0xff = ucast version"
    unfolding m instance_word_def
    by (rule bit_word_eqI) (auto simp: bit_simps hi dest: lt)
  show "drop_bit 8 (instance_word version instance) = ucast instance"
    unfolding instance_word_def
    by (rule bit_word_eqI) (auto simp: bit_simps hi dest: bit_imp_le_length)
qed

end
