(* ===== verification/Qrtr_Client_Props.thy ===== *)
theory Qrtr_Client_Props
  imports Qrtr_Client
begin

text \<open>
  The properties of the client library and of the packet layout that the development claims, stated
  over the functions of \<open>lib/qrtr.c\<close>.
\<close>

unbundle bit_operations_syntax

definition blank :: qrtr_packet where
  "blank = \<lparr>qp_type = 0, qp_node = 0, qp_port = 0, qp_service = 0, qp_instance = 0, qp_version = 0,
     qp_data = [], qp_data_len = 0\<rparr>"

section \<open>Packets\<close>

text \<open>A control packet survives its memory image on a host of either byte order, whatever
  follows it in the buffer, and the image of converted words is the same five little-endian words on
  every host.\<close>
lemma ctrl_pkt_roundtrip:
  "pkt_of_bytes be (pkt_bytes be p @ rest) = p \<and> length (pkt_bytes be p) = sizeof_ctrl_pkt \<and>
    pkt_bytes be \<lparr>pkt_cmd = cpu_to_le32 be c, pkt_w0 = cpu_to_le32 be w0, pkt_w1 = cpu_to_le32 be w1,
      pkt_w2 = cpu_to_le32 be w2, pkt_w3 = cpu_to_le32 be w3\<rparr> =
    le_bytes c @ le_bytes w0 @ le_bytes w1 @ le_bytes w2 @ le_bytes w3"
  by (simp add: pkt_bytes_wire wire_bytes_def)

section \<open>Decoding\<close>

text \<open>Decoding an announcement that carries \<open>instance << 8 | version\<close> yields service,
  version, instance, node and port on a host of either byte order, provided the version fits in
  eight bits; the fields that the packet does not carry keep their values.\<close>
lemma qrtr_decode_announcement:
  assumes "sq_port sq = QRTR_PORT_CTRL" "cmd = QRTR_TYPE_NEW_SERVER \<or> cmd = QRTR_TYPE_DEL_SERVER"
    and "unat version < 256"
  shows "qrtr_decode be dest (wire_bytes cmd service (instance_word version instance) node port) 20 sq =
    Some (0, dest\<lparr>qp_type := cmd, qp_node := node, qp_port := port, qp_service := service,
      qp_version := ucast version, qp_instance := ucast instance\<rparr>)"
  using assms(1,2) instance_word_version [OF assms(3), of "instance"]
  by (auto simp: qrtr_decode_def sizeof_ctrl_pkt_def Let_def qrtr_type_defs)

text \<open>Decoding never reads outside a buffer that is as long as stated; a control packet that
  is too short is refused with \<open>-EMSGSIZE\<close> and leaves the destination as it was; anything from
  another port is data and handed over as it is.\<close>
lemma qrtr_decode_total:
  assumes "len \<le> length buf"
  shows "(\<exists>rc dest'. qrtr_decode be dest buf len sq = Some (rc, dest') \<and>
      (rc \<noteq> 0 \<longleftrightarrow> sq_port sq = QRTR_PORT_CTRL \<and> len < 20) \<and> (rc \<noteq> 0 \<longrightarrow> rc = - EMSGSIZE \<and> dest' = dest) \<and>
      (sq_port sq \<noteq> QRTR_PORT_CTRL \<longrightarrow> dest' = dest\<lparr>qp_type := QRTR_TYPE_DATA, qp_node := sq_node sq,
         qp_port := sq_port sq, qp_data := buf, qp_data_len := len\<rparr>))"
  using assms by (auto simp: qrtr_decode_def sizeof_ctrl_pkt_def Let_def errno_defs)

section \<open>Sockets\<close>

text \<open>\<open>qrtr_open\<close> does not leak the socket: it returns the open socket, or \<open>-1\<close> after closing
  the one it created, and closes nothing else.\<close>
lemma qrtr_open_no_leak:
  "case qrtr_open oc rport of (r, calls) \<Rightarrow>
    (if oc_socket oc < 0 then r = - 1 \<and> calls = [Socket]
     else if r = oc_socket oc then Close r \<notin> set calls
     else r = - 1 \<and> last calls = Close (oc_socket oc) \<and>
       filter (\<lambda>c. \<exists>fd. c = Close fd) calls = [Close (oc_socket oc)])"
  by (auto simp: qrtr_open_def Let_def)

section \<open>Version and instance\<close>

text \<open>The version parameter has 16 bits but only eight bits of the instance word: registering
  version 256 of instance 2 makes the same calls as registering version 0 of instance 3.\<close>
lemma version_overlaps_instance:
  "qrtr_new_server oc be sock service 256 2 = qrtr_new_server oc be sock service 0 3"
proof -
  have same: "instance_word 256 2 = instance_word 0 3" by code_simp
  show ?thesis unfolding qrtr_new_server_def same by (rule refl)
qed

end
