(* ===== verification/Util.thy ===== *)
theory Util
  imports Qrtr_Prelude "HOL-Library.Signed_Division"
begin

text \<open>
  The clock and the pause of \<open>src/util.c\<close>. What \<open>gettimeofday\<close> fills in is the argument of
  \<open>time_ms\<close>; \<open>util_sleep\<close> is modelled by the argument it hands to \<open>usleep\<close>.
\<close>

text \<open>Signed 32-bit arithmetic overflows into undefined behaviour.\<close>

definition int32 :: "int \<Rightarrow> int option" where
  "int32 x = (if - (2 ^ 31) \<le> x \<and> x < 2 ^ 31 then Some x else None)"

lemma int32_Some [simp]: "int32 x = Some y \<longleftrightarrow> y = x \<and> - (2 ^ 31) \<le> x \<and> x < 2 ^ 31"
  by (auto simp: int32_def)

lemma int32_in [simp]: "- (2 ^ 31) \<le> x \<Longrightarrow> x < 2 ^ 31 \<Longrightarrow> int32 x = Some x"
  by (simp add: int32_def)

record timeval =
  tv_sec :: int
  tv_usec :: int

definition time_ms :: "timeval \<Rightarrow> u64" where
  "time_ms tv = word_of_int (tv_sec tv) * 1000 + word_of_int (tv_usec tv sdiv 1000)"

definition util_sleep :: "int \<Rightarrow> u32 option" where
  "util_sleep ms = map_option word_of_int (int32 (ms * 1000))"

text \<open>For a clock reading after 1970 and below 2^54 seconds nothing wraps.\<close>

lemma unat_time_ms:
  assumes "0 \<le> tv_sec tv" "tv_sec tv < 2 ^ 54" "0 \<le> tv_usec tv" "tv_usec tv < 1000000"
  shows "uint (time_ms tv) = tv_sec tv * 1000 + tv_usec tv div 1000"
proof -
  have q: "tv_usec tv sdiv 1000 = tv_usec tv div 1000" "0 \<le> tv_usec tv div 1000" "tv_usec tv div 1000 < 1000"
    using assms by (simp_all add: signed_divide_int_def sgn_if)
  have "time_ms tv = word_of_int (tv_sec tv * 1000 + tv_usec tv div 1000)"
    by (simp add: time_ms_def q)
  then have "uint (time_ms tv) = take_bit 64 (tv_sec tv * 1000 + tv_usec tv div 1000)"
    by (simp only: uint_word_of_int_eq) simp
  moreover have "0 \<le> tv_sec tv * 1000 + tv_usec tv div 1000"
    "tv_sec tv * 1000 + tv_usec tv div 1000 < 2 ^ 64"
    using assms q by simp_all
  ultimately show ?thesis by (simp only: take_bit_int_eq_self)
qed

end
