(* ===== verification/Waiter.thy ===== *)
theory Waiter
  imports Linked_List Util
begin

text \<open>
  The event waiter of \<open>src/waiter.c\<close>: a poll set, tickets on an intrusive list, and the loops that
  wait and notify. The \<open>struct list_item\<close> inside a ticket lives in the store of \<open>Linked_List\<close> at
  the address of its ticket; tickets and poll sets are heap objects, so that using one after it
  was freed is undefined (\<open>None\<close>). \<open>gettimeofday\<close>, \<open>poll\<close> and the registered callbacks are not
  code of the waiter: they are the functions of a \<open>world\<close>, which act on an environment \<open>'s\<close> and,
  for a callback, on the waiter itself.
\<close>

section \<open>Poll set\<close>

definition POLLIN :: "16 word" where "POLLIN = 1"
definition POLLERR :: "16 word" where "POLLERR = 8"

record pollfd =
  pfd_fd :: int
  pfd_events :: u16
  pfd_revents :: u16

record pollset =
  ps_nfds :: int
  ps_cause :: int
  ps_pfd :: "pollfd list"

section \<open>Tickets and the waiter\<close>

datatype waiter_type = WATCH_TYPE_NULL | WATCH_TYPE_FD | WATCH_TYPE_TIMEOUT

text \<open>
  \<open>wt_arg\<close> is the word that \<open>filedes\<close>, \<open>event\<close> and \<open>interval\<close> share. \<open>wt_waiter\<close> says whether the
  \<open>waiter\<close> member points to the waiter or is null.
\<close>

record waiter_ticket =
  wt_type :: waiter_type
  wt_arg :: u32
  wt_fn :: "ptr option"
  wt_data :: ptr
  wt_start :: u64
  wt_updated :: int
  wt_waiter :: bool

definition filedes :: "waiter_ticket \<Rightarrow> int" where
  "filedes k = sint (wt_arg k)"

definition interval :: "waiter_ticket \<Rightarrow> u64" where
  "interval k = ucast (wt_arg k)"

text \<open>
  The members \<open>pollset\<close> and \<open>count\<close> of the waiter (its \<open>tickets\<close> list is the list header of the
  \<open>lstate\<close> beside it), the two heaps, the next free address, the script of allocation outcomes
  and the environment.
\<close>

record 's waiter =
  w_pollset :: "ptr option"
  w_count :: int
  w_heap :: "ptr \<Rightarrow> waiter_ticket option"
  w_psets :: "ptr \<Rightarrow> pollset option"
  w_brk :: ptr
  w_script :: allocs
  w_env :: 's

type_synonym 's wst = "lstate \<times> 's waiter"

text \<open>
  \<open>wd_poll\<close> is given the descriptors with their \<open>events\<close> and the timeout and yields the result and the \<open>revents\<close> of
  each index; \<open>wd_call fn data t\<close> is the callback with function pointer \<open>fn\<close>.
\<close>

record 's world =
  wd_time :: "'s \<Rightarrow> timeval \<times> 's"
  wd_poll :: "(int \<times> u16) list \<Rightarrow> int \<Rightarrow> 's \<Rightarrow> int \<times> (nat \<Rightarrow> u16) \<times> 's"
  wd_call :: "ptr \<Rightarrow> ptr \<Rightarrow> ptr \<Rightarrow> 's wst \<Rightarrow> 's wst option"

definition zero_ticket :: waiter_ticket where
  "zero_ticket = \<lparr>wt_type = WATCH_TYPE_NULL, wt_arg = 0, wt_fn = None, wt_data = 0, wt_start = 0,
     wt_updated = 0, wt_waiter = False\<rparr>"

definition now_ms :: "'s world \<Rightarrow> 's waiter \<Rightarrow> u64 \<times> 's waiter" where
  "now_ms wd w = (case wd_time wd (w_env w) of (tv, e) \<Rightarrow> (time_ms tv, w\<lparr>w_env := e\<rparr>))"

text \<open>Writing a ticket or a poll set through a pointer.\<close>

definition upd_ticket :: "ptr \<Rightarrow> (waiter_ticket \<Rightarrow> waiter_ticket) \<Rightarrow> 's waiter \<Rightarrow> 's waiter option" where
  "upd_ticket t f w = map_option (\<lambda>k. w\<lparr>w_heap := (w_heap w)(t \<mapsto> f k)\<rparr>) (w_heap w t)"

definition pset_at :: "ptr option \<Rightarrow> 's waiter \<Rightarrow> pollset option" where
  "pset_at p w = Option.bind p (w_psets w)"

definition put_pset :: "ptr option \<Rightarrow> pollset \<Rightarrow> 's waiter \<Rightarrow> 's waiter" where
  "put_pset p ps w = w\<lparr>w_psets := (w_psets w)(the p \<mapsto> ps)\<rparr>"

section \<open>Operations of the poll set\<close>

text \<open>The count of the only caller is positive.\<close>

definition pollset_create :: "int \<Rightarrow> 's waiter \<Rightarrow> (ptr option \<times> 's waiter) option" where
  "pollset_create cnt w =
     (if cnt < 0 then None
      else case alloc (w_script w) of
        (False, al) \<Rightarrow> Some (None, w\<lparr>w_script := al\<rparr>)
      | (True, al) \<Rightarrow>
          (let p = w_brk w;
               ps = \<lparr>ps_nfds = 0, ps_cause = 0,
                 ps_pfd = replicate (nat cnt) \<lparr>pfd_fd = 0, pfd_events = 0, pfd_revents = 0\<rparr>\<rparr>
           in Some (Some p, w\<lparr>w_script := al, w_brk := p + 1, w_psets := (w_psets w)(p \<mapsto> ps)\<rparr>)))"

definition pollset_destroy :: "ptr \<Rightarrow> 's waiter \<Rightarrow> 's waiter option" where
  "pollset_destroy p w =
     (if w_psets w p = None then None else Some (w\<lparr>w_psets := (w_psets w)(p := None)\<rparr>))"

definition pollset_reset :: "ptr option \<Rightarrow> 's waiter \<Rightarrow> 's waiter option" where
  "pollset_reset p w = do { ps \<leftarrow> pset_at p w; Some (put_pset p (ps\<lparr>ps_nfds := 0\<rparr>) w) }"

definition pollset_add_fd :: "ptr option \<Rightarrow> int \<Rightarrow> 's waiter \<Rightarrow> 's waiter option" where
  "pollset_add_fd p fd w = do {
     ps \<leftarrow> pset_at p w;
     (if ps_nfds ps < 0 then None else Some ());
     old \<leftarrow> array_at (ps_pfd ps) (nat (ps_nfds ps));
     nfds \<leftarrow> int32 (ps_nfds ps + 1);
     Some (put_pset p (ps\<lparr>ps_nfds := nfds,
       ps_pfd := (ps_pfd ps)[nat (ps_nfds ps) := old\<lparr>pfd_fd := fd, pfd_events := or POLLERR POLLIN\<rparr>]\<rparr>) w) }"

definition pfd_ready :: "pollfd \<Rightarrow> bool" where
  "pfd_ready f \<longleftrightarrow> and (pfd_revents f) (or POLLERR POLLIN) \<noteq> 0"

definition first_ready :: "pollfd list \<Rightarrow> int" where
  "first_ready fs = (case find (\<lambda>i. pfd_ready (fs ! i)) [0..<length fs] of None \<Rightarrow> - 1 | Some i \<Rightarrow> int i)"

definition set_revents :: "(nat \<Rightarrow> u16) \<Rightarrow> nat \<Rightarrow> pollfd list \<Rightarrow> pollfd list" where
  "set_revents rv n fs =
     map (\<lambda>i. if i < n then (fs ! i)\<lparr>pfd_revents := rv i\<rparr> else fs ! i) [0..<length fs]"

definition pollset_wait :: "'s world \<Rightarrow> ptr option \<Rightarrow> int \<Rightarrow> 's waiter \<Rightarrow> (int \<times> 's waiter) option" where
  "pollset_wait wd p ms w = do {
     ps \<leftarrow> pset_at p w;
     (if ps_nfds ps < 0 \<or> ps_nfds ps > int (length (ps_pfd ps)) then None else Some ());
     let n = nat (ps_nfds ps);
     let (rc, rv, e) = wd_poll wd (map (\<lambda>f. (pfd_fd f, pfd_events f)) (take n (ps_pfd ps))) ms (w_env w);
     let w = w\<lparr>w_env := e\<rparr>;
     let ps = ps\<lparr>ps_pfd := set_revents rv n (ps_pfd ps)\<rparr>;
     (if rc \<le> 0 then Some (rc, put_pset p ps w)
      else Some (rc, put_pset p (ps\<lparr>ps_cause := first_ready (take n (ps_pfd ps))\<rparr>) w)) }"

definition pollset_cause_fd :: "ptr option \<Rightarrow> int \<Rightarrow> 's waiter \<Rightarrow> bool option" where
  "pollset_cause_fd p fd w = do {
     ps \<leftarrow> pset_at p w;
     (if ps_cause ps < 0 then Some False
      else do { f \<leftarrow> array_at (ps_pfd ps) (nat (ps_cause ps)); Some (pfd_fd f = fd) }) }"

section \<open>Operations of tickets\<close>

definition waiter_ticket_set_null :: "ptr \<Rightarrow> 's waiter \<Rightarrow> 's waiter option" where
  "waiter_ticket_set_null t w = upd_ticket t (\<lambda>k. k\<lparr>wt_type := WATCH_TYPE_NULL\<rparr>) w"

definition waiter_ticket_set_fd :: "ptr \<Rightarrow> int \<Rightarrow> 's waiter \<Rightarrow> 's waiter option" where
  "waiter_ticket_set_fd t fd w =
     upd_ticket t (\<lambda>k. k\<lparr>wt_type := WATCH_TYPE_FD, wt_arg := word_of_int fd\<rparr>) w"

definition waiter_ticket_set_timeout :: "'s world \<Rightarrow> ptr \<Rightarrow> u32 \<Rightarrow> 's waiter \<Rightarrow> 's waiter option" where
  "waiter_ticket_set_timeout wd t ms w = do {
     w \<leftarrow> upd_ticket t (\<lambda>k. k\<lparr>wt_type := WATCH_TYPE_TIMEOUT, wt_arg := ms\<rparr>) w;
     let (now, w) = now_ms wd w;
     upd_ticket t (\<lambda>k. k\<lparr>wt_start := now\<rparr>) w }"

definition waiter_ticket_callback :: "ptr \<Rightarrow> ptr option \<Rightarrow> ptr \<Rightarrow> 's waiter \<Rightarrow> 's waiter option" where
  "waiter_ticket_callback t fn data w = upd_ticket t (\<lambda>k. k\<lparr>wt_fn := fn, wt_data := data\<rparr>) w"

definition waiter_ticket_check :: "ptr \<Rightarrow> 's waiter \<Rightarrow> int option" where
  "waiter_ticket_check t w = map_option (\<lambda>k. - (if wt_updated k = 0 then 1 else 0)) (w_heap w t)"

definition waiter_ticket_clear :: "ptr \<Rightarrow> 's waiter \<Rightarrow> (int \<times> 's waiter) option" where
  "waiter_ticket_clear t w = do {
     ret \<leftarrow> waiter_ticket_check t w;
     w \<leftarrow> upd_ticket t (\<lambda>k. k\<lparr>wt_updated := 0\<rparr>) w;
     Some (ret, w) }"

text \<open>\<open>free\<close> of a ticket takes the embedded list item with it.\<close>

definition free_ticket :: "ptr \<Rightarrow> 's wst \<Rightarrow> 's wst option" where
  "free_ticket t s = (case s of ((h, l), w) \<Rightarrow>
     if w_heap w t = None then None
     else Some ((h(t := None), l), w\<lparr>w_heap := (w_heap w)(t := None)\<rparr>))"

definition waiter_ticket_delete :: "ptr \<Rightarrow> 's wst \<Rightarrow> 's wst option" where
  "waiter_ticket_delete t s = (case s of (l, w) \<Rightarrow> do {
     k \<leftarrow> w_heap w t;
     (if \<not> wt_waiter k then None else Some ());
     l \<leftarrow> list_remove t l;
     c \<leftarrow> int32 (w_count w - 1);
     free_ticket t (l, w\<lparr>w_count := c\<rparr>) })"

section \<open>Creating, filling and destroying a waiter\<close>

text \<open>\<open>waiter_create\<close> on a heap without a waiter: whether the pointer is not null, and the waiter.\<close>

definition waiter_create :: "'s wst \<Rightarrow> bool \<times> 's wst" where
  "waiter_create s = (case s of ((h, l), w) \<Rightarrow>
     case alloc (w_script w) of
       (False, al) \<Rightarrow> (False, ((h, l), w\<lparr>w_script := al\<rparr>))
     | (True, al) \<Rightarrow>
         (True, ((h, list_init l), w\<lparr>w_script := al, w_pollset := None, w_count := 0\<rparr>)))"

text \<open>The poll set of a waiter whose count is a multiple of 32 is replaced by a larger one.\<close>

definition pollset_grow :: "'s waiter \<Rightarrow> 's waiter option" where
  "pollset_grow w = do {
     w \<leftarrow> (case w_pollset w of None \<Rightarrow> Some w | Some p \<Rightarrow> pollset_destroy p w);
     c \<leftarrow> int32 (w_count w + 33);
     (p, w) \<leftarrow> pollset_create c w;
     Some (w\<lparr>w_pollset := p\<rparr>) }"

definition waiter_add_null :: "'s wst \<Rightarrow> (ptr option \<times> 's wst) option" where
  "waiter_add_null s = (case s of ((h, l), w) \<Rightarrow>
     case alloc (w_script w) of
       (False, al) \<Rightarrow> Some (None, ((h, l), w\<lparr>w_script := al\<rparr>))
     | (True, al) \<Rightarrow>
         (let t = w_brk w;
              w = w\<lparr>w_script := al, w_brk := t + 1,
                w_heap := (w_heap w)(t \<mapsto> zero_ticket\<lparr>wt_waiter := True\<rparr>)\<rparr>;
              h = h(t \<mapsto> \<lparr>li_next = None, li_prev = None\<rparr>)
          in do {
            l \<leftarrow> list_append t (h, l);
            w \<leftarrow> (if w_count w mod 32 = 0 then pollset_grow w else Some w);
            (if w_count w mod 32 = 0 \<and> w_pollset w = None then Some (None, (l, w))
             else do {
               c \<leftarrow> int32 (w_count w + 1);
               w \<leftarrow> waiter_ticket_set_null t (w\<lparr>w_count := c\<rparr>);
               Some (Some t, (l, w)) }) }))"

definition waiter_add_fd :: "int \<Rightarrow> 's wst \<Rightarrow> (ptr option \<times> 's wst) option" where
  "waiter_add_fd fd s = do {
     (tk, s) \<leftarrow> waiter_add_null s;
     (case tk of
        None \<Rightarrow> Some (None, s)
      | Some t \<Rightarrow> do { w \<leftarrow> waiter_ticket_set_fd t fd (snd s); Some (Some t, (fst s, w)) }) }"

definition waiter_add_timeout :: "'s world \<Rightarrow> u32 \<Rightarrow> 's wst \<Rightarrow> (ptr option \<times> 's wst) option" where
  "waiter_add_timeout wd ms s = do {
     (tk, s) \<leftarrow> waiter_add_null s;
     (case tk of
        None \<Rightarrow> Some (None, s)
      | Some t \<Rightarrow> do { w \<leftarrow> waiter_ticket_set_timeout wd t ms (snd s); Some (Some t, (fst s, w)) }) }"

text \<open>The result is the heap that is left; the waiter itself is freed last.\<close>

definition waiter_destroy :: "nat \<Rightarrow> 's wst \<Rightarrow> 's wst option" where
  "waiter_destroy n s = do {
     (l, w) \<leftarrow> list_for_each_safe n free_ticket (list_first (snd (fst s))) s;
     w \<leftarrow> (case w_pollset w of None \<Rightarrow> Some w | Some p \<Rightarrow> pollset_destroy p w);
     Some (l, w) }"

section \<open>Synchronising timers\<close>

text \<open>The inner loop over the tickets after one timer, which stops at the first equal interval.\<close>

fun sync_after :: "nat \<Rightarrow> waiter_ticket \<Rightarrow> lstate \<Rightarrow> ptr option \<Rightarrow> 's waiter \<Rightarrow> 's waiter option" where
  "sync_after n k l None w = Some w"
| "sync_after 0 k l (Some ot) w = None"
| "sync_after (Suc n) k l (Some ot) w = do {
     ok \<leftarrow> w_heap w ot;
     (if wt_type ok \<noteq> WATCH_TYPE_TIMEOUT \<or> wt_arg ok \<noteq> wt_arg k
      then do { nx \<leftarrow> get_next (fst l) (Some ot); sync_after n k l nx w }
      else upd_ticket ot (\<lambda>ok. ok\<lparr>wt_start := wt_start k\<rparr>) w) }"

definition sync_ticket :: "nat \<Rightarrow> ptr \<Rightarrow> 's wst \<Rightarrow> 's wst option" where
  "sync_ticket n t s = (case s of (l, w) \<Rightarrow> do {
     k \<leftarrow> w_heap w t;
     (if wt_type k \<noteq> WATCH_TYPE_TIMEOUT then Some (l, w)
      else do {
        nx \<leftarrow> get_next (fst l) (Some t);
        w \<leftarrow> sync_after n k l nx w;
        Some (l, w) }) })"

definition waiter_synchronize :: "nat \<Rightarrow> 's wst \<Rightarrow> 's wst option" where
  "waiter_synchronize n s = list_for_each n (sync_ticket n) (list_first (snd (fst s))) s"

section \<open>Waiting\<close>

definition wait_forever :: u64 where "wait_forever = - 1"

definition wait_scan :: "ptr option \<Rightarrow> ptr \<Rightarrow> 's waiter \<times> u64 \<Rightarrow> ('s waiter \<times> u64) option" where
  "wait_scan p t = (\<lambda>(w, term_time). do {
     k \<leftarrow> w_heap w t;
     (case wt_type k of
        WATCH_TYPE_TIMEOUT \<Rightarrow>
          Some (w, if wt_start k + interval k < term_time then wt_start k + interval k else term_time)
      | WATCH_TYPE_FD \<Rightarrow> do { w \<leftarrow> pollset_add_fd p (filedes k) w; Some (w, term_time) }
      | WATCH_TYPE_NULL \<Rightarrow> Some (w, term_time)) })"

definition wait_poll :: "'s world \<Rightarrow> ptr option \<Rightarrow> u64 \<Rightarrow> 's waiter \<Rightarrow> (int \<times> 's waiter) option" where
  "wait_poll wd p term_time w =
     (if term_time = wait_forever then pollset_wait wd p (- 1) w
      else
        (let (now, w) = now_ms wd w in
         if now \<ge> term_time then Some (0, w)
         else
           (let delta = term_time - now;
                delta = (if delta > 2 ^ 31 - 1 then 2 ^ 31 - 1 else delta)
            in pollset_wait wd p (uint delta) w)))"

text \<open>One ticket of the second loop: whether it is fresh, and the call.\<close>

definition wait_fresh :: "ptr option \<Rightarrow> int \<Rightarrow> u64 \<Rightarrow> ptr \<Rightarrow> 's waiter \<Rightarrow> (bool \<times> 's waiter) option" where
  "wait_fresh p rc now t w = do {
     k \<leftarrow> w_heap w t;
     (case wt_type k of
        WATCH_TYPE_TIMEOUT \<Rightarrow>
          (if now \<ge> wt_start k + interval k
           then do { w \<leftarrow> upd_ticket t (\<lambda>k. k\<lparr>wt_start := now\<rparr>) w; Some (wt_updated k = 0, w) }
           else Some (False, w))
      | WATCH_TYPE_FD \<Rightarrow>
          (if rc = 0 then Some (False, w)
           else do { c \<leftarrow> pollset_cause_fd p (filedes k) w; Some (c \<and> wt_updated k = 0, w) })
      | WATCH_TYPE_NULL \<Rightarrow> Some (False, w)) }"

definition wait_notify :: "'s world \<Rightarrow> ptr option \<Rightarrow> int \<Rightarrow> u64 \<Rightarrow> ptr \<Rightarrow> 's wst \<Rightarrow> 's wst option" where
  "wait_notify wd p rc now t s = do {
     (fresh, w) \<leftarrow> wait_fresh p rc now t (snd s);
     (if \<not> fresh then Some (fst s, w)
      else do {
        w \<leftarrow> upd_ticket t (\<lambda>k. k\<lparr>wt_updated := 1\<rparr>) w;
        k \<leftarrow> w_heap w t;
        (case wt_fn k of
           None \<Rightarrow> Some (fst s, w)
         | Some fn \<Rightarrow> wd_call wd fn (wt_data k) t (fst s, w)) }) }"

definition waiter_wait :: "nat \<Rightarrow> 's world \<Rightarrow> 's wst \<Rightarrow> 's wst option" where
  "waiter_wait n wd s = (case s of (l, w) \<Rightarrow>
     (let ps = w_pollset w in do {
        w \<leftarrow> pollset_reset ps w;
        (l, (w, term_time)) \<leftarrow>
          list_for_each n (\<lambda>t (l, acc). map_option (Pair l) (wait_scan ps t acc)) (list_first (snd l))
            (l, (w, wait_forever));
        (rc, w) \<leftarrow> wait_poll wd ps term_time w;
        (if rc < 0 then Some (l, w)
         else
           (let (now, w) = now_ms wd w in
            list_for_each n (wait_notify wd ps rc now) (list_first (snd l)) (l, w))) }))"

text \<open>
  The ticket of \<open>waiter_wait_timeout\<close> is on the stack: it gets a fresh address, is never in the
  care of \<open>free\<close>, and is gone when the function returns.
\<close>

definition waiter_wait_timeout :: "nat \<Rightarrow> 's world \<Rightarrow> u32 \<Rightarrow> 's wst \<Rightarrow> (int \<times> 's wst) option" where
  "waiter_wait_timeout n wd ms s = (case s of ((h, l), w) \<Rightarrow>
     (let t = w_brk w;
          w = w\<lparr>w_brk := t + 1, w_heap := (w_heap w)(t \<mapsto> zero_ticket)\<rparr>;
          h = h(t \<mapsto> \<lparr>li_next = None, li_prev = None\<rparr>)
      in do {
        w \<leftarrow> waiter_ticket_set_timeout wd t ms w;
        l \<leftarrow> list_append t (h, l);
        c \<leftarrow> int32 (w_count w + 1);
        (l, w) \<leftarrow> waiter_wait n wd (l, w\<lparr>w_count := c\<rparr>);
        rc \<leftarrow> waiter_ticket_check t w;
        (h, l) \<leftarrow> list_remove t l;
        c \<leftarrow> int32 (w_count w - 1);
        Some (- (if rc = 0 then 1 else 0),
          ((h(t := None), l), w\<lparr>w_count := c, w_heap := (w_heap w)(t := None)\<rparr>)) }))"

end
