(* ===== verification/Waiter_Spec.thy ===== *)
theory Waiter_Spec
  imports Waiter
begin

text \<open>
  What \<open>waiter_wait\<close> does, on the sequence of tickets instead of the linked list and the poll set:
  which descriptors and which timeout reach \<open>poll\<close>, which tickets fire, and which callbacks run in
  which order. The refinement lemma \<open>waiter_wait_fold\<close> says that the code computes this.
\<close>

section \<open>Abstract waiting\<close>

definition poll_events :: u16 where "poll_events = or POLLERR POLLIN"

definition ticket_at :: "'s waiter \<Rightarrow> ptr \<Rightarrow> waiter_ticket" where
  "ticket_at w t = the (w_heap w t)"

definition ticket_fds :: "waiter_ticket list \<Rightarrow> int list" where
  "ticket_fds ks = map filedes (filter (\<lambda>k. wt_type k = WATCH_TYPE_FD) ks)"

definition deadline :: "waiter_ticket \<Rightarrow> u64" where
  "deadline k = wt_start k + interval k"

fun first_deadline :: "u64 \<Rightarrow> waiter_ticket list \<Rightarrow> u64" where
  "first_deadline d [] = d"
| "first_deadline d (k # ks) =
     first_deadline (if wt_type k = WATCH_TYPE_TIMEOUT \<and> deadline k < d then deadline k else d) ks"

text \<open>One \<open>poll\<close>: its result, the descriptor of the first ready entry, and the environment.\<close>

definition poll_outcome :: "'s world \<Rightarrow> int list \<Rightarrow> int \<Rightarrow> 's \<Rightarrow> int \<times> int option \<times> 's" where
  "poll_outcome wd fds ms e =
     (case wd_poll wd (map (\<lambda>fd. (fd, poll_events)) fds) ms e of (rc, rv, e) \<Rightarrow>
        (rc, if rc \<le> 0 then None
             else map_option ((!) fds) (find (\<lambda>i. and (rv i) poll_events \<noteq> 0) [0..<length fds]), e))"

definition wait_outcome :: "'s world \<Rightarrow> waiter_ticket list \<Rightarrow> 's \<Rightarrow> int \<times> int option \<times> 's" where
  "wait_outcome wd ks e =
     (let d = first_deadline wait_forever ks in
      if d = wait_forever then poll_outcome wd (ticket_fds ks) (- 1) e
      else case wd_time wd e of (tv, e) \<Rightarrow>
        if time_ms tv \<ge> d then (0, None, e)
        else poll_outcome wd (ticket_fds ks) (min (uint (d - time_ms tv)) (2 ^ 31 - 1)) e)"

text \<open>Whether a ticket fires, and the ticket afterwards; \<open>clears\<close> says which callbacks clear it.\<close>

definition fires :: "int option \<Rightarrow> u64 \<Rightarrow> waiter_ticket \<Rightarrow> bool" where
  "fires cause now k = (case wt_type k of
     WATCH_TYPE_NULL \<Rightarrow> False
   | WATCH_TYPE_FD \<Rightarrow> cause = Some (filedes k)
   | WATCH_TYPE_TIMEOUT \<Rightarrow> deadline k \<le> now)"

definition reported :: "int option \<Rightarrow> u64 \<Rightarrow> waiter_ticket \<Rightarrow> bool" where
  "reported cause now k \<longleftrightarrow> fires cause now k \<and> wt_updated k = 0"

definition calls_back :: "int option \<Rightarrow> u64 \<Rightarrow> waiter_ticket \<Rightarrow> bool" where
  "calls_back cause now k \<longleftrightarrow> reported cause now k \<and> wt_fn k \<noteq> None"

definition after_wait :: "(ptr \<Rightarrow> bool) \<Rightarrow> int option \<Rightarrow> u64 \<Rightarrow> waiter_ticket \<Rightarrow> waiter_ticket" where
  "after_wait clears cause now k =
     k\<lparr>wt_start := (if wt_type k = WATCH_TYPE_TIMEOUT \<and> fires cause now k then now else wt_start k),
       wt_updated := (if reported cause now k
          then (if wt_fn k \<noteq> None \<and> clears (the (wt_fn k)) then 0 else 1) else wt_updated k)\<rparr>"

text \<open>
  The contract of callbacks that leave the waiter alone, except that they may clear their own
  ticket, as the control port handler of the name server does: \<open>eff fn data t\<close> is the effect on
  the environment, \<open>None\<close> where the callback is undefined.
\<close>

definition callbacks_clear ::
  "'s world \<Rightarrow> (ptr \<Rightarrow> bool) \<Rightarrow> (ptr \<Rightarrow> ptr \<Rightarrow> ptr \<Rightarrow> 's \<Rightarrow> 's option) \<Rightarrow> bool" where
  "callbacks_clear wd clears eff \<longleftrightarrow> (\<forall>fn d t l w. wd_call wd fn d t (l, w) = do {
     e \<leftarrow> eff fn d t (w_env w);
     (if clears fn then map_option (\<lambda>(rc, w). (l, w)) (waiter_ticket_clear t (w\<lparr>w_env := e\<rparr>))
      else Some (l, w\<lparr>w_env := e\<rparr>)) })"

text \<open>A world with such callbacks.\<close>

definition world_of :: "('s \<Rightarrow> timeval \<times> 's) \<Rightarrow>
    ((int \<times> u16) list \<Rightarrow> int \<Rightarrow> 's \<Rightarrow> int \<times> (nat \<Rightarrow> u16) \<times> 's) \<Rightarrow> (ptr \<Rightarrow> bool) \<Rightarrow>
    (ptr \<Rightarrow> ptr \<Rightarrow> ptr \<Rightarrow> 's \<Rightarrow> 's option) \<Rightarrow> 's world" where
  "world_of time poll clears eff = \<lparr>wd_time = time, wd_poll = poll,
     wd_call = (\<lambda>fn d t (l, w). do {
       e \<leftarrow> eff fn d t (w_env w);
       (if clears fn then map_option (\<lambda>(rc, w). (l, w)) (waiter_ticket_clear t (w\<lparr>w_env := e\<rparr>))
        else Some (l, w\<lparr>w_env := e\<rparr>)) })\<rparr>"

lemma world_of_clears: "callbacks_clear (world_of time poll clears eff) clears eff"
  by (simp add: callbacks_clear_def world_of_def)

fun run_calls ::
  "(ptr \<Rightarrow> ptr \<Rightarrow> ptr \<Rightarrow> 's \<Rightarrow> 's option) \<Rightarrow> (ptr \<times> waiter_ticket) list \<Rightarrow> 's \<Rightarrow> 's option" where
  "run_calls eff [] e = Some e"
| "run_calls eff ((t, k) # tks) e = do { e \<leftarrow> eff (the (wt_fn k)) (wt_data k) t e; run_calls eff tks e }"

definition tickets_of :: "'s waiter \<Rightarrow> ptr list \<Rightarrow> (ptr \<times> waiter_ticket) list" where
  "tickets_of w xs = map (\<lambda>t. (t, ticket_at w t)) xs"

definition heap_after :: "(waiter_ticket \<Rightarrow> waiter_ticket) \<Rightarrow> ptr list \<Rightarrow> (ptr \<Rightarrow> waiter_ticket option) \<Rightarrow>
    ptr \<Rightarrow> waiter_ticket option" where
  "heap_after f xs h = (\<lambda>t. if t \<in> set xs then map_option f (h t) else h t)"

lemma heap_after_Nil [simp]: "heap_after f [] h = h"
  by (simp add: heap_after_def)

lemma heap_after_Cons:
  "t \<notin> set xs \<Longrightarrow> h t = Some k \<Longrightarrow> heap_after f xs (h(t \<mapsto> f k)) = heap_after f (t # xs) h"
  by (auto simp: heap_after_def)

lemma heap_after_dom [simp]: "dom (heap_after f xs h) = dom h"
  by (auto simp: heap_after_def dom_def)

section \<open>The scan\<close>

lemma upd_ticket_Some [simp]:
  "w_heap w t = Some k \<Longrightarrow> upd_ticket t f w = Some (w\<lparr>w_heap := (w_heap w)(t \<mapsto> f k)\<rparr>)"
  by (simp add: upd_ticket_def)

lemma put_pset_simps [simp]:
  "w_pollset (put_pset p ps w) = w_pollset w" "w_count (put_pset p ps w) = w_count w"
  "w_heap (put_pset p ps w) = w_heap w" "w_brk (put_pset p ps w) = w_brk w"
  "w_env (put_pset p ps w) = w_env w" "w_script (put_pset p ps w) = w_script w"
  "put_pset p ps (put_pset p ps' w) = put_pset p ps w"
  "pset_at (Some q) (put_pset (Some q) ps w) = Some ps"
  by (simp_all add: put_pset_def pset_at_def)

lemma put_pset_env [simp]: "(put_pset p ps w)\<lparr>w_env := e\<rparr> = put_pset p ps (w\<lparr>w_env := e\<rparr>)"
  by (simp add: put_pset_def)

lemma put_pset_heap [simp]: "(put_pset p ps w)\<lparr>w_heap := h\<rparr> = put_pset p ps (w\<lparr>w_heap := h\<rparr>)"
  by (simp add: put_pset_def)

text \<open>A poll set that holds the descriptors \<open>fds\<close> and still has room for \<open>room\<close> more.\<close>

definition holds_fds :: "pollset \<Rightarrow> int list \<Rightarrow> bool" where
  "holds_fds ps fds \<longleftrightarrow> ps_nfds ps = int (length fds) \<and> length fds \<le> length (ps_pfd ps) \<and>
     map (\<lambda>f. (pfd_fd f, pfd_events f)) (take (length fds) (ps_pfd ps)) = map (\<lambda>fd. (fd, poll_events)) fds"

lemma holds_fds_add:
  assumes "holds_fds ps fds" "length fds < length (ps_pfd ps)" "length fds < 2 ^ 31 - 1"
    "pset_at p w = Some ps"
  shows "\<exists>ps'. pollset_add_fd p fd w = Some (put_pset p ps' w) \<and> holds_fds ps' (fds @ [fd]) \<and>
    length (ps_pfd ps') = length (ps_pfd ps) \<and> ps_cause ps' = ps_cause ps"
  using assms
  by (auto simp: pollset_add_fd_def holds_fds_def poll_events_def take_Suc_conv_app_nth
      intro!: exI [of _ "ps\<lparr>ps_nfds := int (length fds) + 1, ps_pfd := (ps_pfd ps)[length fds :=
        (ps_pfd ps ! length fds)\<lparr>pfd_fd := fd, pfd_events := or POLLERR POLLIN\<rparr>]\<rparr>"])

lemma wait_scan_fold:
  assumes "set xs \<subseteq> dom (w_heap w)" "holds_fds ps fds"
    and "length (fds @ ticket_fds (map (ticket_at w) xs)) \<le> length (ps_pfd ps)"
    and "length (fds @ ticket_fds (map (ticket_at w) xs)) < 2 ^ 31"
  shows "\<exists>ps'. foldl (\<lambda>r t. Option.bind r (wait_scan (Some p) t)) (Some (put_pset (Some p) ps w, d)) xs =
      Some (put_pset (Some p) ps' w, first_deadline d (map (ticket_at w) xs)) \<and>
    holds_fds ps' (fds @ ticket_fds (map (ticket_at w) xs)) \<and>
    length (ps_pfd ps') = length (ps_pfd ps) \<and> ps_cause ps' = ps_cause ps"
  using assms
proof (induction xs arbitrary: ps fds d)
  case Nil
  then show ?case by (auto simp: ticket_fds_def)
next
  case (Cons t xs)
  then obtain k where k: "w_heap w t = Some k" by auto
  then have at: "ticket_at w t = k" by (simp add: ticket_at_def)
  show ?case
  proof (cases "wt_type k")
    case WATCH_TYPE_FD
    let ?w = "put_pset (Some p) ps w"
    have pa: "pset_at (Some p) ?w = Some ps" by simp
    have "length fds < length (ps_pfd ps)" "length fds < 2 ^ 31 - 1"
      using Cons.prems at WATCH_TYPE_FD by (auto simp: ticket_fds_def)
    from holds_fds_add [OF Cons.prems(2) this pa, of "filedes k"] obtain ps' where
      ps': "pollset_add_fd (Some p) (filedes k) ?w = Some (put_pset (Some p) ps' w)"
      "holds_fds ps' (fds @ [filedes k])" "length (ps_pfd ps') = length (ps_pfd ps)"
      "ps_cause ps' = ps_cause ps" by auto
    from Cons.IH [OF _ ps'(2), of d] Cons.prems k at WATCH_TYPE_FD ps' show ?thesis
      by (simp add: wait_scan_def ticket_fds_def)
  next
    case WATCH_TYPE_NULL
    from Cons.IH [OF _ Cons.prems(2), of d] Cons.prems k at WATCH_TYPE_NULL show ?thesis
      by (simp add: wait_scan_def ticket_fds_def)
  next
    case WATCH_TYPE_TIMEOUT
    from Cons.IH [OF _ Cons.prems(2)] Cons.prems k at WATCH_TYPE_TIMEOUT show ?thesis
      by (simp add: wait_scan_def ticket_fds_def deadline_def)
  qed
qed

section \<open>The poll\<close>

text \<open>The descriptor that \<open>pollset_cause_fd\<close> compares with.\<close>

definition cause_of :: "pollset \<Rightarrow> int option" where
  "cause_of ps = (if ps_cause ps < 0 then None else Some (pfd_fd (ps_pfd ps ! nat (ps_cause ps))))"

definition cause_ok :: "pollset \<Rightarrow> bool" where
  "cause_ok ps \<longleftrightarrow> ps_cause ps < int (length (ps_pfd ps))"

lemma pollset_cause_fd_eq:
  "pset_at p w = Some ps \<Longrightarrow> cause_ok ps \<Longrightarrow> pollset_cause_fd p fd w = Some (cause_of ps = Some fd)"
  by (auto simp: pollset_cause_fd_def cause_of_def cause_ok_def array_at_def)

lemma set_revents_length [simp]: "length (set_revents rv n fs) = length fs"
  by (simp add: set_revents_def)

lemma set_revents_fd [simp]: "i < length fs \<Longrightarrow> pfd_fd (set_revents rv n fs ! i) = pfd_fd (fs ! i)"
  by (simp add: set_revents_def)

lemma first_ready_revents:
  assumes "n \<le> length fs"
  shows "first_ready (take n (set_revents rv n fs)) =
    (case find (\<lambda>i. and (rv i) poll_events \<noteq> 0) [0..<n] of None \<Rightarrow> - 1 | Some i \<Rightarrow> int i)"
proof -
  have "find (\<lambda>i. pfd_ready (take n (set_revents rv n fs) ! i)) [0..<n] =
      find (\<lambda>i. and (rv i) poll_events \<noteq> 0) [0..<n]"
    using assms by (intro find_cong) (auto simp: set_revents_def pfd_ready_def poll_events_def)
  with assms show ?thesis by (simp add: first_ready_def min_absorb2)
qed

lemma holds_fds_nth:
  assumes "holds_fds ps fds" "i < length fds"
  shows "pfd_fd (ps_pfd ps ! i) = fds ! i"
proof -
  from assms(1) have "map (\<lambda>f. (pfd_fd f, pfd_events f)) (take (length fds) (ps_pfd ps)) =
      map (\<lambda>fd. (fd, poll_events)) fds" and "length fds \<le> length (ps_pfd ps)"
    by (simp_all add: holds_fds_def)
  from arg_cong [OF this(1), of "\<lambda>xs. fst (xs ! i)"] this(2) assms(2) show ?thesis by simp
qed

lemma pollset_wait_outcome:
  assumes "holds_fds ps fds" "pset_at (Some p) w = Some ps" "cause_ok ps"
  shows "\<exists>ps'. pollset_wait wd (Some p) ms w =
      (case poll_outcome wd fds ms (w_env w) of (rc, c, e) \<Rightarrow>
         Some (rc, put_pset (Some p) ps' (w\<lparr>w_env := e\<rparr>))) \<and>
    cause_ok ps' \<and> length (ps_pfd ps') = length (ps_pfd ps) \<and>
    (case poll_outcome wd fds ms (w_env w) of (rc, c, e) \<Rightarrow> 0 < rc \<longrightarrow> cause_of ps' = c)"
proof -
  let ?n = "length fds"
  from assms(1) have n: "ps_nfds ps = int ?n" "?n \<le> length (ps_pfd ps)"
    "map (\<lambda>f. (pfd_fd f, pfd_events f)) (take ?n (ps_pfd ps)) = map (\<lambda>fd. (fd, poll_events)) fds"
    by (simp_all add: holds_fds_def)
  obtain rc rv e where po: "wd_poll wd (map (\<lambda>fd. (fd, poll_events)) fds) ms (w_env w) = (rc, rv, e)"
    by (rule prod_cases3)
  let ?ps = "ps\<lparr>ps_pfd := set_revents rv ?n (ps_pfd ps)\<rparr>"
  let ?f = "find (\<lambda>i. and (rv i) poll_events \<noteq> 0) [0..<?n]"
  let ?ps' = "if rc \<le> 0 then ?ps else ?ps\<lparr>ps_cause := (case ?f of None \<Rightarrow> - 1 | Some i \<Rightarrow> int i)\<rparr>"
  have "pollset_wait wd (Some p) ms w = Some (rc, put_pset (Some p) ?ps' (w\<lparr>w_env := e\<rparr>))"
    using n assms(2) po by (simp add: pollset_wait_def first_ready_revents Let_def)
  moreover have "i < ?n" if "?f = Some i" for i using find_upt_least [OF that] by simp
  ultimately show ?thesis using n assms(3) po
    by (intro exI [of _ ?ps'])
      (auto simp: poll_outcome_def cause_ok_def cause_of_def holds_fds_nth [OF assms(1)] split: option.splits)
qed

lemma wait_poll_outcome:
  assumes "holds_fds ps (ticket_fds ks)" "pset_at (Some p) w = Some ps" "cause_ok ps"
  shows "\<exists>ps'. wait_poll wd (Some p) (first_deadline wait_forever ks) w =
      (case wait_outcome wd ks (w_env w) of (rc, c, e) \<Rightarrow>
         Some (rc, put_pset (Some p) ps' (w\<lparr>w_env := e\<rparr>))) \<and>
    cause_ok ps' \<and> length (ps_pfd ps') = length (ps_pfd ps) \<and>
    (case wait_outcome wd ks (w_env w) of (rc, c, e) \<Rightarrow>
      (0 < rc \<longrightarrow> cause_of ps' = c) \<and> (rc = 0 \<longrightarrow> c = None))"
proof -
  let ?d = "first_deadline wait_forever ks"
  have z: "case poll_outcome wd fds ms e of (rc, c, e) \<Rightarrow> rc = 0 \<longrightarrow> c = None" for fds ms e
    by (auto simp: poll_outcome_def split: prod.splits)
  obtain tv e where tv: "wd_time wd (w_env w) = (tv, e)" by (cases "wd_time wd (w_env w)")
  show ?thesis
  proof (cases "?d = wait_forever")
    case True
    from pollset_wait_outcome [OF assms, of wd "- 1"] z [of "ticket_fds ks" "- 1" "w_env w"] True
    show ?thesis by (auto simp: wait_poll_def wait_outcome_def split: prod.splits)
  next
    case False
    show ?thesis
    proof (cases "?d \<le> time_ms tv")
      case True
      have "put_pset (Some p) ps (w\<lparr>w_env := e\<rparr>) = w\<lparr>w_env := e\<rparr>"
        using assms(2) by (cases w) (simp add: put_pset_def pset_at_def fun_upd_idem)
      with True False assms(2,3) tv show ?thesis
        by (intro exI [of _ ps]) (simp add: wait_poll_def wait_outcome_def now_ms_def)
    next
      case past: False
      let ?x = "?d - time_ms tv"
      have ms: "uint (if ?x > 2 ^ 31 - 1 then 2 ^ 31 - 1 else ?x) = min (uint ?x) (2 ^ 31 - 1)"
        by (simp add: word_less_def)
      have pa: "pset_at (Some p) (w\<lparr>w_env := e\<rparr>) = Some ps" using assms(2) by (simp add: pset_at_def)
      from pollset_wait_outcome [OF assms(1) pa assms(3), of wd "min (uint ?x) (2 ^ 31 - 1)"]
        z [of "ticket_fds ks" "min (uint ?x) (2 ^ 31 - 1)" e] past False tv ms
      show ?thesis
        by (auto simp: wait_poll_def wait_outcome_def now_ms_def Let_def split: prod.splits)
    qed
  qed
qed

section \<open>The notification\<close>

lemma wait_notify_eq:
  assumes "callbacks_clear wd clears eff" "w_heap w t = Some k" "pset_at p w = Some ps" "cause_ok ps"
    "0 < rc \<longrightarrow> cause_of ps = c" "rc = 0 \<longrightarrow> c = None" "0 \<le> rc"
  shows "wait_notify wd p rc now t (l, w) =
    map_option (\<lambda>e. (l, w\<lparr>w_heap := (w_heap w)(t \<mapsto> after_wait clears c now k), w_env := e\<rparr>))
      (if calls_back c now k then eff (the (wt_fn k)) (wt_data k) t (w_env w) else Some (w_env w))"
proof -
  have call: "wd_call wd fn d t (l, w') = do {
      e \<leftarrow> eff fn d t (w_env w');
      (if clears fn then map_option (\<lambda>(rc, w). (l, w)) (waiter_ticket_clear t (w'\<lparr>w_env := e\<rparr>))
       else Some (l, w'\<lparr>w_env := e\<rparr>)) }" for fn d w'
    using assms(1) unfolding callbacks_clear_def by blast
  have triv: "w\<lparr>w_heap := (w_heap w)(t \<mapsto> k)\<rparr> = w" using assms(2) by (cases w) (simp add: fun_upd_idem)
  have cause: "rc \<noteq> 0 \<Longrightarrow> pollset_cause_fd p fd w = Some (c = Some fd)" for fd
    using pollset_cause_fd_eq [OF assms(3,4)] assms(5,7) by simp
  have fresh: "wait_fresh p rc now t w = Some (reported c now k,
      w\<lparr>w_heap := (w_heap w)(t \<mapsto> k\<lparr>wt_start := wt_start (after_wait clears c now k)\<rparr>)\<rparr>)"
    using assms(2,6) cause triv
    by (cases "wt_type k"; cases "rc = 0")
      (simp_all add: wait_fresh_def reported_def fires_def after_wait_def deadline_def)
  show ?thesis
  proof (cases "reported c now k")
    case False
    with fresh assms(2) show ?thesis
      by (simp add: wait_notify_def calls_back_def after_wait_def)
  next
    case True
    with fresh assms(2) show ?thesis
      by (cases "wt_fn k") (auto simp: wait_notify_def calls_back_def after_wait_def call
          waiter_ticket_clear_def waiter_ticket_check_def split: bind_splits)
  qed
qed

lemma wait_notify_fold:
  assumes "callbacks_clear wd clears eff" "distinct xs" "set xs \<subseteq> dom (w_heap w)"
    "pset_at p w = Some ps" "cause_ok ps" "0 < rc \<longrightarrow> cause_of ps = c" "rc = 0 \<longrightarrow> c = None" "0 \<le> rc"
  shows "foldl (\<lambda>r t. Option.bind r (\<lambda>w. map_option snd (wait_notify wd p rc now t (l, w)))) (Some w) xs =
    map_option (\<lambda>e. w\<lparr>w_heap := heap_after (after_wait clears c now) xs (w_heap w), w_env := e\<rparr>)
      (run_calls eff (filter (\<lambda>tk. calls_back c now (snd tk)) (tickets_of w xs)) (w_env w))"
  using assms(2-)
proof (induction xs arbitrary: w)
  case Nil
  then show ?case by (simp add: tickets_of_def)
next
  case (Cons t xs)
  then obtain k where k: "w_heap w t = Some k" by auto
  have none: "foldl (\<lambda>r t. Option.bind r (\<lambda>w. map_option snd (wait_notify wd p rc now t (l, w)))) None ys = None"
    for ys :: "ptr list" by (induction ys) auto
  let ?e = "if calls_back c now k then eff (the (wt_fn k)) (wt_data k) t (w_env w) else Some (w_env w)"
  note n = wait_notify_eq [OF assms(1) k Cons.prems(3-7), of now l]
  show ?case
  proof (cases ?e)
    case None
    then show ?thesis using n none k
      by (simp add: tickets_of_def ticket_at_def split: if_splits)
  next
    case (Some e)
    let ?w = "w\<lparr>w_heap := (w_heap w)(t \<mapsto> after_wait clears c now k), w_env := e\<rparr>"
    have tk: "tickets_of ?w xs = tickets_of w xs"
      using Cons.prems(1) by (auto simp: tickets_of_def ticket_at_def)
    have d: "distinct xs" and sub: "set xs \<subseteq> dom (w_heap ?w)" and pa: "pset_at p ?w = Some ps"
      using Cons.prems(1-3) by (auto simp: pset_at_def)
    from Cons.IH [OF d sub pa Cons.prems(4-7)] tk have ih: "foldl (\<lambda>r t. Option.bind r (\<lambda>w. map_option snd (wait_notify wd p rc now t (l, w))))
        (Some ?w) xs =
      map_option (\<lambda>e. ?w\<lparr>w_heap := heap_after (after_wait clears c now) xs (w_heap ?w), w_env := e\<rparr>)
        (run_calls eff (filter (\<lambda>tk. calls_back c now (snd tk)) (tickets_of w xs)) (w_env ?w))"
      by (simp only: tk)
    have h: "heap_after (after_wait clears c now) xs (w_heap ?w) =
        heap_after (after_wait clears c now) (t # xs) (w_heap w)"
      using heap_after_Cons [of t xs "w_heap w" k] Cons.prems(1) k by simp
    show ?thesis using n Some ih k h
      by (auto simp: tickets_of_def ticket_at_def split: if_splits)
  qed
qed

section \<open>The whole wait\<close>

lemma wait_notify_list:
  assumes "callbacks_clear wd clears eff"
  shows "wait_notify wd p rc now t (l, w) =
    map_option (Pair l) (map_option snd (wait_notify wd p rc now t (l, w)))"
proof -
  have call: "wd_call wd fn d t (l, w') = do {
      e \<leftarrow> eff fn d t (w_env w');
      (if clears fn then map_option (\<lambda>(rc, w). (l, w)) (waiter_ticket_clear t (w'\<lparr>w_env := e\<rparr>))
       else Some (l, w'\<lparr>w_env := e\<rparr>)) }" for fn d w'
    using assms unfolding callbacks_clear_def by blast
  have "fst s' = l" if "wait_notify wd p rc now t (l, w) = Some s'" for s'
    using that by (auto simp: wait_notify_def call split: bind_splits if_splits option.splits)
  then show ?thesis by (cases "wait_notify wd p rc now t (l, w)") auto
qed

definition tickets_in :: "'s waiter \<Rightarrow> ptr list \<Rightarrow> waiter_ticket list" where
  "tickets_in w xs = map (ticket_at w) xs"

lemma tickets_of_in: "map snd (tickets_of w xs) = tickets_in w xs"
  by (simp add: tickets_of_def tickets_in_def)

text \<open>A waiter whose poll set at \<open>p\<close> has room for every descriptor that is waited for.\<close>

definition wait_room :: "ptr \<Rightarrow> pollset \<Rightarrow> 's waiter \<Rightarrow> ptr list \<Rightarrow> bool" where
  "wait_room p ps w xs \<longleftrightarrow> set xs \<subseteq> dom (w_heap w) \<and> w_pollset w = Some p \<and> w_psets w p = Some ps \<and>
     cause_ok ps \<and> length (ticket_fds (tickets_in w xs)) \<le> length (ps_pfd ps) \<and>
     length (ticket_fds (tickets_in w xs)) < 2 ^ 31"

definition wait_result :: "'s world \<Rightarrow> (ptr \<Rightarrow> bool) \<Rightarrow> (ptr \<Rightarrow> ptr \<Rightarrow> ptr \<Rightarrow> 's \<Rightarrow> 's option) \<Rightarrow>
    ptr list \<Rightarrow> 's waiter \<Rightarrow> 's waiter option" where
  "wait_result wd clears eff xs w =
     (case wait_outcome wd (tickets_in w xs) (w_env w) of (rc, c, e) \<Rightarrow>
        if rc < 0 then Some (w\<lparr>w_env := e\<rparr>)
        else (case wd_time wd e of (tv, e) \<Rightarrow>
          map_option (\<lambda>e. w\<lparr>w_heap := heap_after (after_wait clears c (time_ms tv)) xs (w_heap w), w_env := e\<rparr>)
            (run_calls eff (filter (\<lambda>tk. calls_back c (time_ms tv) (snd tk)) (tickets_of w xs)) e)))"

text \<open>Up to the notification, whatever the callbacks do.\<close>

lemma waiter_wait_scanned:
  assumes d: "dll l xs" and n: "length xs \<le> n" and room: "wait_room p ps w xs"
    and o: "wait_outcome wd (tickets_in w xs) (w_env w) = (rc, cs, e)"
  shows "\<exists>ps'. waiter_wait n wd (l, w) =
      (let w = put_pset (Some p) ps' (w\<lparr>w_env := e\<rparr>) in
       if rc < 0 then Some (l, w)
       else let (now, w) = now_ms wd w in
         list_for_each n (wait_notify wd (Some p) rc now) (first_of xs None) (l, w)) \<and>
    cause_ok ps' \<and> length (ps_pfd ps') = length (ps_pfd ps) \<and>
    (0 < rc \<longrightarrow> cause_of ps' = cs) \<and> (rc = 0 \<longrightarrow> cs = None)"
proof -
  let ?ks = "tickets_in w xs"
  from room have dm: "set xs \<subseteq> dom (w_heap w)" and p: "w_pollset w = Some p" "w_psets w p = Some ps"
    and c: "cause_ok ps" and len: "length (ticket_fds ?ks) \<le> length (ps_pfd ps)"
    "length (ticket_fds ?ks) < 2 ^ 31"
    by (simp_all add: wait_room_def)
  have hd: "list_first (snd l) = first_of xs None" using d by (simp add: dll_def list_first_def)
  let ?ps0 = "ps\<lparr>ps_nfds := 0\<rparr>"
  have reset: "pollset_reset (Some p) w = Some (put_pset (Some p) ?ps0 w)"
    using p by (simp add: pollset_reset_def pset_at_def)
  have h0: "holds_fds ?ps0 []" by (simp add: holds_fds_def)
  from wait_scan_fold [OF dm h0, of p wait_forever] len obtain ps1 where
    scan: "foldl (\<lambda>r t. Option.bind r (wait_scan (Some p) t)) (Some (put_pset (Some p) ?ps0 w, wait_forever)) xs =
      Some (put_pset (Some p) ps1 w, first_deadline wait_forever ?ks)"
    and ps1: "holds_fds ps1 (ticket_fds ?ks)" "length (ps_pfd ps1) = length (ps_pfd ps)" "cause_ok ps1"
    using c by (auto simp: tickets_in_def cause_ok_def)
  have loop1: "list_for_each n (\<lambda>t (l, acc). map_option (Pair l) (wait_scan (Some p) t acc)) (first_of xs None)
      (l, (put_pset (Some p) ?ps0 w, wait_forever)) =
    Some (l, (put_pset (Some p) ps1 w, first_deadline wait_forever ?ks))"
    by (subst list_for_each_fold [where ks = "[]" and f = "wait_scan (Some p)"])
      (use d n scan in simp_all)
  let ?w1 = "put_pset (Some p) ps1 w"
  from wait_poll_outcome [OF ps1(1) _ ps1(3), of p ?w1 wd] o obtain ps2 where
    poll: "wait_poll wd (Some p) (first_deadline wait_forever ?ks) ?w1 =
      Some (rc, put_pset (Some p) ps2 (w\<lparr>w_env := e\<rparr>))"
    and ps2: "cause_ok ps2" "length (ps_pfd ps2) = length (ps_pfd ps)"
      "0 < rc \<longrightarrow> cause_of ps2 = cs" "rc = 0 \<longrightarrow> cs = None"
    using ps1(2) by auto
  let ?w2 = "put_pset (Some p) ps2 (w\<lparr>w_env := e\<rparr>)"
  show ?thesis
    using p reset hd loop1 poll ps2 by (intro exI [of _ ps2]) (simp add: waiter_wait_def Let_def)
qed

lemma waiter_wait_fold:
  assumes acts: "callbacks_clear wd clears eff" and d: "dll l xs" and n: "length xs \<le> n"
    and room: "wait_room p ps w xs"
  shows "\<exists>ps'. waiter_wait n wd (l, w) =
      map_option (\<lambda>w. (l, put_pset (Some p) ps' w)) (wait_result wd clears eff xs w) \<and>
    cause_ok ps' \<and> length (ps_pfd ps') = length (ps_pfd ps)"
proof -
  obtain rc cs e where o: "wait_outcome wd (tickets_in w xs) (w_env w) = (rc, cs, e)" by (rule prod_cases3)
  from room have dm: "set xs \<subseteq> dom (w_heap w)" by (simp add: wait_room_def)
  from waiter_wait_scanned [OF d n room o] obtain ps2 where
    start: "waiter_wait n wd (l, w) =
      (let w = put_pset (Some p) ps2 (w\<lparr>w_env := e\<rparr>) in
       if rc < 0 then Some (l, w)
       else let (now, w) = now_ms wd w in
         list_for_each n (wait_notify wd (Some p) rc now) (first_of xs None) (l, w))"
    and ps2: "cause_ok ps2" "length (ps_pfd ps2) = length (ps_pfd ps)"
      "0 < rc \<longrightarrow> cause_of ps2 = cs" "rc = 0 \<longrightarrow> cs = None" by blast
  show ?thesis
  proof (cases "rc < 0")
    case True
    then show ?thesis using start o ps2 by (intro exI [of _ ps2]) (simp add: wait_result_def)
  next
    case False
    obtain tv e' where tv: "wd_time wd e = (tv, e')" by (cases "wd_time wd e")
    let ?now = "time_ms tv" and ?w3 = "put_pset (Some p) ps2 (w\<lparr>w_env := e'\<rparr>)"
    have "list_for_each n (wait_notify wd (Some p) rc ?now) (first_of xs None) (l, ?w3) =
      map_option (Pair l)
        (foldl (\<lambda>r t. Option.bind r (\<lambda>w. map_option snd (wait_notify wd (Some p) rc ?now t (l, w)))) (Some ?w3) xs)"
      by (rule list_for_each_fold [where ks = "[]"])
        (use d n wait_notify_list [OF acts] in simp_all)
    moreover have "tickets_of ?w3 xs = tickets_of w xs" by (simp add: tickets_of_def ticket_at_def)
    ultimately show ?thesis
      using start tv o ps2 False dm
        wait_notify_fold [OF acts, of xs ?w3 "Some p" ps2 rc cs ?now l] d
      by (intro exI [of _ ps2])
        (simp add: wait_result_def now_ms_def dll_def option.map_comp comp_def)
  qed
qed

end
