(* ===== verification/Waiter_Inv.thy ===== *)
theory Waiter_Inv
  imports Waiter_Spec
begin

text \<open>
  The invariant of a waiter, its preservation by every operation, and the reachable waiters. The
  poll set has room for every ticket: it is reallocated when the count passes a multiple of 32,
  and deletions never shrink it.
\<close>

section \<open>Invariant\<close>

definition pset_room :: "'s waiter \<Rightarrow> nat \<Rightarrow> bool" where
  "pset_room w n \<longleftrightarrow> (case w_pollset w of
     None \<Rightarrow> n = 0
   | Some p \<Rightarrow> (case w_psets w p of
       None \<Rightarrow> False
     | Some ps \<Rightarrow> cause_ok ps \<and> 32 * ((n + 31) div 32) < length (ps_pfd ps)))"

definition waiter_ok :: "'s wst \<Rightarrow> ptr list \<Rightarrow> bool" where
  "waiter_ok s xs \<longleftrightarrow> (case s of (l, w) \<Rightarrow>
     dll l xs \<and> dom (fst l) = set xs \<and> dom (w_heap w) = set xs \<and> (\<forall>t \<in> set xs. t < w_brk w) \<and>
     (\<forall>t k. w_heap w t = Some k \<longrightarrow> wt_waiter k) \<and> w_count w = int (length xs) \<and>
     length xs < 2 ^ 31 \<and> dom (w_psets w) = set_option (w_pollset w) \<and> pset_room w (length xs))"

lemma pset_room_Some:
  assumes "pset_room w n" "0 < n"
  obtains p ps where "w_pollset w = Some p" "w_psets w p = Some ps" "cause_ok ps"
    "32 * ((n + 31) div 32) < length (ps_pfd ps)"
  using assms by (auto simp: pset_room_def split: option.splits)

lemma pset_room_less: "pset_room w n \<Longrightarrow> m \<le> n \<Longrightarrow> w_pollset w \<noteq> None \<or> n = m \<Longrightarrow> pset_room w m"
proof -
  assume a: "pset_room w n" "m \<le> n" "w_pollset w \<noteq> None \<or> n = m"
  then have "(m + 31) div 32 \<le> (n + 31) div 32" by (simp add: div_le_mono)
  with a show ?thesis by (auto simp: pset_room_def split: option.splits)
qed

lemma pset_room_cong:
  "w_pollset w' = w_pollset w \<Longrightarrow> w_psets w' = w_psets w \<Longrightarrow> pset_room w' n = pset_room w n"
  by (simp add: pset_room_def cong: option.case_cong)

lemma pset_room_upd [simp]:
  "pset_room (w\<lparr>w_heap := h\<rparr>) n = pset_room w n" "pset_room (w\<lparr>w_env := e\<rparr>) n = pset_room w n"
  "pset_room (w\<lparr>w_count := c\<rparr>) n = pset_room w n" "pset_room (w\<lparr>w_brk := b\<rparr>) n = pset_room w n"
  "pset_room (w\<lparr>w_script := al\<rparr>) n = pset_room w n"
  by (rule pset_room_cong; simp)+

lemma waiter_okI:
  "dll l xs \<Longrightarrow> dom (fst l) = set xs \<Longrightarrow> dom (w_heap w) = set xs \<Longrightarrow> \<forall>t \<in> set xs. t < w_brk w \<Longrightarrow>
    \<forall>t k. w_heap w t = Some k \<longrightarrow> wt_waiter k \<Longrightarrow> w_count w = int (length xs) \<Longrightarrow> length xs < 2 ^ 31 \<Longrightarrow>
    dom (w_psets w) = set_option (w_pollset w) \<Longrightarrow> pset_room w (length xs) \<Longrightarrow> waiter_ok (l, w) xs"
  by (simp add: waiter_ok_def)

lemma waiter_ok_dom:
  "waiter_ok s xs \<Longrightarrow> dom (w_heap (snd s)) = set xs"
  "waiter_ok s xs \<Longrightarrow> w_heap (snd s) t = Some k \<Longrightarrow> wt_waiter k"
  by (cases s; simp add: waiter_ok_def)+

lemma waiter_ok_distinct: "waiter_ok s xs \<Longrightarrow> distinct xs"
  by (auto simp: waiter_ok_def dll_def)

section \<open>Creation\<close>

definition no_waiter :: "'s wst \<Rightarrow> bool" where
  "no_waiter s \<longleftrightarrow> dom (fst (fst s)) = {} \<and> dom (w_heap (snd s)) = {} \<and> dom (w_psets (snd s)) = {}"

lemma waiter_create_ok:
  assumes no: "no_waiter s" and cr: "waiter_create s = (True, s')"
  shows "waiter_ok s' []"
proof -
  obtain h hdr w where s: "s = ((h, hdr), w)" by (metis (no_types) prod.exhaust_sel)
  obtain al where "s' = ((h, list_init hdr), w\<lparr>w_script := al, w_pollset := None, w_count := 0\<rparr>)"
    using cr by (auto simp: waiter_create_def s split: prod.splits bool.splits)
  then show ?thesis using no
    by (simp add: no_waiter_def s waiter_ok_def pset_room_def dll_empty)
qed

section \<open>Adding tickets\<close>

lemma ceil32_Suc:
  assumes "n mod 32 \<noteq> 0"
  shows "(Suc n + 31) div 32 = (n + 31) div (32 :: nat)"
proof -
  define q r where "q = n div 32" and "r = n mod 32"
  have n: "n = 32 * q + r" by (simp add: q_def r_def)
  have r: "0 < r" "r < 32" using assms by (simp_all add: r_def)
  have "Suc n + 31 = r + (q + 1) * 32" "n + 31 = (r - 1) + (q + 1) * 32" using n r by simp_all
  then show ?thesis using r by (simp only: div_mult_self1)
qed

lemma ceil32_mult: "n mod 32 = 0 \<Longrightarrow> 32 * ((Suc n + 31) div 32) = n + (32 :: nat)"
  by (auto simp: mod_eq_0_iff_dvd dvd_def)

lemma cause_ok_new: "cause_ok \<lparr>ps_nfds = m, ps_cause = 0, ps_pfd = replicate n x\<rparr> \<longleftrightarrow> 0 < n"
  by (simp add: cause_ok_def)

text \<open>The outcome of \<open>waiter_add_null\<close> by the scripted allocations.\<close>

lemma waiter_add_null_fails:
  "alloc (w_script w) = (False, al) \<Longrightarrow> waiter_add_null (l, w) = Some (None, (l, w\<lparr>w_script := al\<rparr>))"
  by (cases l) (simp add: waiter_add_null_def)

lemma pollset_grow_eq:
  assumes "dom (w_psets w) = set_option (w_pollset w)" "0 \<le> w_count w"
  shows "pollset_grow w =
    (if w_count w + 33 < 2 ^ 31 then
       Some (case alloc (w_script w) of
         (False, al) \<Rightarrow> w\<lparr>w_pollset := None, w_psets := Map.empty, w_script := al\<rparr>
       | (True, al) \<Rightarrow> w\<lparr>w_pollset := Some (w_brk w), w_brk := w_brk w + 1, w_script := al,
           w_psets := [w_brk w \<mapsto> \<lparr>ps_nfds = 0, ps_cause = 0, ps_pfd = replicate (nat (w_count w + 33))
             \<lparr>pfd_fd = 0, pfd_events = 0, pfd_revents = 0\<rparr>\<rparr>]\<rparr>)
     else None)"
proof -
  have e: "(case w_pollset w of None \<Rightarrow> Some w | Some p \<Rightarrow> pollset_destroy p w) = Some (w\<lparr>w_psets := Map.empty\<rparr>)"
  proof (cases "w_pollset w")
    case None
    with assms(1) have "w_psets w = Map.empty" by simp
    with None show ?thesis by (cases w) simp
  next
    case (Some p)
    then have "(w_psets w)(p := None) = Map.empty" "w_psets w p \<noteq> None"
      using assms(1) by (auto simp: dom_def fun_eq_iff)
    with Some show ?thesis by (simp add: pollset_destroy_def)
  qed
  show ?thesis
    unfolding pollset_grow_def e using assms(2)
    by (auto simp: pollset_create_def int32_def Let_def split: bool.splits prod.splits)
qed

text \<open>A new item at the end of the list, from \<open>calloc\<close> or on the stack.\<close>

lemma append_new_ticket:
  assumes ok: "waiter_ok ((h, hdr), w) xs"
  obtains h' hdr' where "list_append (w_brk w) (h(w_brk w \<mapsto> \<lparr>li_next = None, li_prev = None\<rparr>), hdr) = Some (h', hdr')"
    "dll (h', hdr') (xs @ [w_brk w])" "dom h' = insert (w_brk w) (set xs)"
proof -
  have d: "dll (h, hdr) xs" "dom h = set xs" and new: "w_brk w \<notin> set xs"
    using ok by (auto simp: waiter_ok_def)
  have "dll (h(w_brk w \<mapsto> \<lparr>li_next = None, li_prev = None\<rparr>), hdr) xs" using d new by (simp add: dll_def)
  from list_append_dll [OF this, of "w_brk w"] new d that show thesis by auto
qed

lemma waiter_add_null_spec:
  assumes ok: "waiter_ok (l, w) xs" and len: "length xs + 1 < 2 ^ 31"
    and len': "length xs mod 32 = 0 \<Longrightarrow> length xs + 33 < 2 ^ 31"
    and al: "alloc (w_script w) = (True, al)"
    and al': "length xs mod 32 = 0 \<Longrightarrow> alloc al = (True, al')"
  shows "\<exists>s'. waiter_add_null (l, w) = Some (Some (w_brk w), s') \<and> waiter_ok s' (xs @ [w_brk w]) \<and>
    w_heap (snd s') = (w_heap w)(w_brk w \<mapsto> zero_ticket\<lparr>wt_waiter := True\<rparr>) \<and>
    w_env (snd s') = w_env w \<and>
    w_script (snd s') = (if length xs mod 32 = 0 then al' else al)"
proof -
  obtain h hdr where l: "l = (h, hdr)" by (cases l)
  let ?t = "w_brk w" and ?z = "\<lparr>li_next = None, li_prev = None\<rparr>"
  from ok have d: "dll (h, hdr) xs" "dom h = set xs" and new: "?t \<notin> set xs"
    and cnt: "w_count w = int (length xs)" and ps: "dom (w_psets w) = set_option (w_pollset w)"
    and room: "pset_room w (length xs)"
    by (auto simp: waiter_ok_def l)
  obtain h' hdr' where app: "list_append ?t (h(?t \<mapsto> ?z), hdr) = Some (h', hdr')" "dll (h', hdr') (xs @ [?t])"
    "dom h' = insert ?t (set xs)" by (rule append_new_ticket [OF ok [unfolded l]])
  let ?heap = "(w_heap w)(?t \<mapsto> zero_ticket\<lparr>wt_waiter := True\<rparr>)"
  have z: "(zero_ticket\<lparr>wt_waiter := True\<rparr>)\<lparr>wt_type := WATCH_TYPE_NULL\<rparr> = zero_ticket\<lparr>wt_waiter := True\<rparr>"
    by (simp add: zero_ticket_def)
  have dom: "dom (w_heap w) = set xs" using ok by (simp add: waiter_ok_def l)
  have brk: "\<forall>t \<in> set (xs @ [?t]). t < ?t + 1" "\<forall>t \<in> set (xs @ [?t]). t < ?t + 2"
    using ok by (auto simp: waiter_ok_def l)
  have wt: "\<forall>t k. ?heap t = Some k \<longrightarrow> wt_waiter k"
    using ok by (simp add: waiter_ok_def l)
  show ?thesis
  proof (cases "length xs mod 32 = 0")
    case False
    then have m: "int (length xs) mod 32 \<noteq> 0" by presburger
    let ?w = "w\<lparr>w_script := al, w_brk := ?t + 1, w_heap := ?heap, w_count := int (length xs) + 1\<rparr>"
    have "0 < length xs" using False by (cases xs) auto
    then obtain p qs where "w_pollset w = Some p" "w_psets w p = Some qs" "cause_ok qs"
      "32 * ((length xs + 31) div 32) < length (ps_pfd qs)"
      by (rule pset_room_Some [OF room])
    then have "pset_room ?w (Suc (length xs))"
      using ceil32_Suc [OF False] by (simp add: pset_room_def)
    then have "waiter_ok ((h', hdr'), ?w) (xs @ [?t])"
      using app len ps brk wt by (simp add: waiter_ok_def dom)
    moreover have "waiter_add_null (l, w) = Some (Some ?t, ((h', hdr'), ?w))"
      using al app(1) m cnt len z by (simp add: waiter_add_null_def l Let_def waiter_ticket_set_null_def)
    ultimately show ?thesis using False by simp
  next
    case True
    then have m: "int (length xs) mod 32 = 0" by presburger
    let ?q = "\<lparr>ps_nfds = 0, ps_cause = 0, ps_pfd = replicate (length xs + 33)
        \<lparr>pfd_fd = 0, pfd_events = 0, pfd_revents = 0\<rparr>\<rparr>"
    let ?w = "w\<lparr>w_script := al', w_brk := ?t + 2, w_heap := ?heap, w_psets := [?t + 1 \<mapsto> ?q],
      w_pollset := Some (?t + 1), w_count := int (length xs) + 1\<rparr>"
    have "pset_room ?w (Suc (length xs))"
      using ceil32_mult [OF True] by (simp add: pset_room_def cause_ok_new)
    then have "waiter_ok ((h', hdr'), ?w) (xs @ [?t])"
      using app len brk wt by (simp add: waiter_ok_def dom)
    moreover have "nat (int (length xs) + 33) = length xs + 33" by simp
    then have "waiter_add_null (l, w) = Some (Some ?t, ((h', hdr'), ?w))"
      using al al' [OF True] app(1) m cnt len len' [OF True] z ps
      by (simp add: waiter_add_null_def l Let_def waiter_ticket_set_null_def pollset_grow_eq)
    ultimately show ?thesis using True by simp
  qed
qed

section \<open>Tickets\<close>

lemma waiter_ok_heap:
  assumes "waiter_ok (l, w) xs" "dom h = set xs" "\<And>t k. h t = Some k \<Longrightarrow> wt_waiter k"
  shows "waiter_ok (l, w\<lparr>w_heap := h\<rparr>) xs"
  using assms by (auto simp: waiter_ok_def)

lemma waiter_ok_env: "waiter_ok (l, w\<lparr>w_env := e\<rparr>) xs = waiter_ok (l, w) xs"
  by (simp add: waiter_ok_def)

lemma upd_ticket_ok:
  assumes "waiter_ok (l, w) xs" "upd_ticket t f w = Some w'" "\<And>k. wt_waiter (f k) = wt_waiter k"
  shows "waiter_ok (l, w') xs"
proof -
  from assms(2) obtain k where k: "w_heap w t = Some k" "w' = w\<lparr>w_heap := (w_heap w)(t \<mapsto> f k)\<rparr>"
    by (auto simp: upd_ticket_def)
  have "t \<in> set xs" using assms(1) k(1) by (auto simp: waiter_ok_def)
  then show ?thesis unfolding k(2)
    by (intro waiter_ok_heap [OF assms(1)])
      (use assms(1,3) k(1) in \<open>auto simp: waiter_ok_def split: if_splits\<close>)
qed

lemma set_null_ok:
  "waiter_ok (l, w) xs \<Longrightarrow> waiter_ticket_set_null t w = Some w' \<Longrightarrow> waiter_ok (l, w') xs"
  unfolding waiter_ticket_set_null_def by (erule upd_ticket_ok, assumption) simp

lemma set_fd_ok:
  "waiter_ok (l, w) xs \<Longrightarrow> waiter_ticket_set_fd t fd w = Some w' \<Longrightarrow> waiter_ok (l, w') xs"
  unfolding waiter_ticket_set_fd_def by (erule upd_ticket_ok, assumption) simp

lemma callback_ok:
  "waiter_ok (l, w) xs \<Longrightarrow> waiter_ticket_callback t fn d w = Some w' \<Longrightarrow> waiter_ok (l, w') xs"
  unfolding waiter_ticket_callback_def by (erule upd_ticket_ok, assumption) simp

lemma clear_ok:
  "waiter_ok (l, w) xs \<Longrightarrow> waiter_ticket_clear t w = Some (rc, w') \<Longrightarrow> waiter_ok (l, w') xs"
  by (auto simp: waiter_ticket_clear_def split: bind_splits elim!: upd_ticket_ok [rotated])

lemma set_timeout_ok:
  assumes ok: "waiter_ok (l, w) xs" and st: "waiter_ticket_set_timeout wd t ms w = Some w'"
  shows "waiter_ok (l, w') xs"
proof -
  from st obtain w1 tv e where w1: "upd_ticket t (\<lambda>k. k\<lparr>wt_type := WATCH_TYPE_TIMEOUT, wt_arg := ms\<rparr>) w = Some w1"
    and w': "upd_ticket t (\<lambda>k. k\<lparr>wt_start := time_ms tv\<rparr>) (w1\<lparr>w_env := e\<rparr>) = Some w'"
    by (auto simp: waiter_ticket_set_timeout_def now_ms_def split: bind_splits prod.splits)
  have "waiter_ok (l, w1) xs" by (rule upd_ticket_ok [OF ok w1]) simp
  then have "waiter_ok (l, w1\<lparr>w_env := e\<rparr>) xs" by (simp only: waiter_ok_env)
  from upd_ticket_ok [OF this w'] show ?thesis by simp
qed

section \<open>Deleting a ticket and destroying the waiter\<close>

lemma waiter_ticket_delete_spec:
  assumes ok: "waiter_ok (l, w) xs" and t: "t \<in> set xs"
  shows "\<exists>s'. waiter_ticket_delete t (l, w) = Some s' \<and> waiter_ok s' (remove1 t xs) \<and>
    w_heap (snd s') = (w_heap w)(t := None) \<and> w_psets (snd s') = w_psets w"
proof -
  from ok have d: "dll l xs" and dist: "distinct xs" by (auto simp: waiter_ok_def dll_def)
  from il.remove_repr [OF d t] obtain h hdr where rm: "list_remove t l = Some (h, hdr)"
    "dll (h, hdr) (remove1 t xs)" "dom h = dom (fst l)" by auto
  from ok t have "t \<in> dom (w_heap w)" by (simp add: waiter_ok_def)
  then obtain k where k: "w_heap w t = Some k" by blast
  with ok have wk: "wt_waiter k" by (auto simp: waiter_ok_def)
  have len: "length (remove1 t xs) = length xs - 1" using t by (simp add: length_remove1)
  have pos: "0 < length xs" using t by (cases xs) auto
  from ok have room: "pset_room w (length xs)" by (simp add: waiter_ok_def)
  have nn: "w_pollset w \<noteq> None" using pset_room_Some [OF room pos] by auto
  let ?ys = "remove1 t xs" and ?heap = "(w_heap w)(t := None)"
  have room': "pset_room w (length ?ys)" unfolding len by (rule pset_room_less [OF room]) (use nn in auto)
  have cnt: "int (length xs) - 1 = int (length ?ys)" using pos len by linarith
  have lt: "length ?ys < 2 ^ 31" using len ok by (auto simp: waiter_ok_def)
  have dm: "dom (h(t := None)) = set ?ys" "dom ?heap = set ?ys"
    using rm(3) ok dist by (auto simp: waiter_ok_def)
  have keep: "\<forall>t \<in> set ?ys. t < w_brk w" "\<forall>t' k. ?heap t' = Some k \<longrightarrow> wt_waiter k"
    "dom (w_psets w) = set_option (w_pollset w)"
    using ok dist by (auto simp: waiter_ok_def)
  have dl: "dll (h(t := None), hdr) ?ys" by (rule dll_free [OF rm(2)]) (use dist in simp)
  have "waiter_ok ((h(t := None), hdr), w\<lparr>w_count := int (length xs) - 1, w_heap := ?heap\<rparr>) ?ys"
    unfolding cnt by (rule waiter_okI [OF dl]) (use dm lt keep room' in simp_all)
  moreover have "w_count w = int (length xs)" "length xs < 2 ^ 31" using ok by (simp_all add: waiter_ok_def)
  ultimately show ?thesis using k wk rm(1) by (simp add: waiter_ticket_delete_def free_ticket_def)
qed

lemma destroy_loop:
  assumes "seg h p ys None" "set ys \<subseteq> dom (w_heap w)" "distinct ys" "length ys \<le> n"
  shows "\<exists>h' w'. list_for_each_safe n free_ticket (first_of ys None) ((h, hdr), w) = Some ((h', hdr), w') \<and>
    dom h' = dom h - set ys \<and> dom (w_heap w') = dom (w_heap w) - set ys \<and>
    w_pollset w' = w_pollset w \<and> w_psets w' = w_psets w \<and> w_env w' = w_env w"
  using assms
proof (induction ys arbitrary: h p w n)
  case (Cons y ys)
  then obtain m where n: "n = Suc m" "length ys \<le> m" by (cases n) auto
  from Cons.prems obtain k where k: "w_heap w y = Some k" by auto
  have nx: "get_next h (Some y) = Some (first_of ys None)"
    using Cons.prems(1) by (simp add: get_next_def)
  let ?w = "w\<lparr>w_heap := (w_heap w)(y := None)\<rparr>"
  have "seg (h(y := None)) (Some y) ys None" "set ys \<subseteq> dom (w_heap ?w)"
    using Cons.prems by auto
  from Cons.IH [OF this _ n(2)] Cons.prems(3) have
    "\<exists>h' w'. list_for_each_safe m free_ticket (first_of ys None) ((h(y := None), hdr), ?w) = Some ((h', hdr), w') \<and>
      dom h' = dom (h(y := None)) - set ys \<and> dom (w_heap w') = dom (w_heap ?w) - set ys \<and>
      w_pollset w' = w_pollset ?w \<and> w_psets w' = w_psets ?w \<and> w_env w' = w_env ?w"
    by (simp only: distinct.simps)
  then obtain h' w' where
    loop: "list_for_each_safe m free_ticket (first_of ys None) ((h(y := None), hdr), ?w) = Some ((h', hdr), w')"
    and "dom h' = dom (h(y := None)) - set ys" "dom (w_heap w') = dom (w_heap ?w) - set ys"
      "w_pollset w' = w_pollset ?w" "w_psets w' = w_psets ?w" "w_env w' = w_env ?w" by blast
  moreover have "list_for_each_safe n free_ticket (first_of (y # ys) None) ((h, hdr), w) = Some ((h', hdr), w')"
    using n nx k loop by (simp add: free_ticket_def)
  moreover have "dom (h(y := None)) - set ys = dom h - set (y # ys)"
    "dom (w_heap ?w) - set ys = dom (w_heap w) - set (y # ys)" by auto
  ultimately show ?case by (intro exI [of _ h'] exI [of _ w']) simp
qed (cases n; auto)

lemma waiter_destroy_spec:
  assumes ok: "waiter_ok s xs" and n: "length xs \<le> n"
  shows "\<exists>s'. waiter_destroy n s = Some s' \<and> no_waiter s' \<and> w_env (snd s') = w_env (snd s)"
proof -
  obtain h hdr w where s: "s = ((h, hdr), w)" by (metis (no_types) prod.exhaust_sel)
  from ok have d: "dll (h, hdr) xs" "dom h = set xs" "dom (w_heap w) = set xs"
    "dom (w_psets w) = set_option (w_pollset w)" by (auto simp: waiter_ok_def s)
  then have sg: "seg h None xs None" "distinct xs" "lhead hdr = first_of xs None" by (simp_all add: dll_def)
  from destroy_loop [OF sg(1) _ sg(2) n, of w hdr] d obtain h' w' where
    "list_for_each_safe n free_ticket (first_of xs None) ((h, hdr), w) = Some ((h', hdr), w')"
    "dom h' = {}" "dom (w_heap w') = {}" "w_pollset w' = w_pollset w" "w_psets w' = w_psets w" "w_env w' = w_env w" by auto
  moreover have "(w_psets w)(p := None) = Map.empty" if "w_pollset w = Some p" for p
    using d(4) that by (auto simp: dom_def fun_eq_iff)
  ultimately show ?thesis using sg(3) d(4)
    by (cases "w_pollset w") (auto simp: waiter_destroy_def s list_first_def pollset_destroy_def no_waiter_def)
qed

section \<open>Waiting\<close>

lemma ticket_fds_le: "length (ticket_fds ks) \<le> length ks"
  by (simp add: ticket_fds_def)

lemma heap_after_waiter:
  "(\<And>t k. h t = Some k \<Longrightarrow> wt_waiter k) \<Longrightarrow> heap_after (after_wait clears c now) xs h t = Some k \<Longrightarrow> wt_waiter k"
  by (auto simp: heap_after_def after_wait_def split: if_splits)

lemma wait_result_fields:
  assumes "wait_result wd clears eff xs w = Some w'"
  shows "w_pollset w' = w_pollset w \<and> w_psets w' = w_psets w \<and> w_count w' = w_count w \<and>
    w_brk w' = w_brk w \<and> w_script w' = w_script w \<and> dom (w_heap w') = dom (w_heap w) \<and>
    ((\<forall>t k. w_heap w t = Some k \<longrightarrow> wt_waiter k) \<longrightarrow> (\<forall>t k. w_heap w' t = Some k \<longrightarrow> wt_waiter k))"
proof -
  obtain rc c e where o: "wait_outcome wd (tickets_in w xs) (w_env w) = (rc, c, e)" by (rule prod_cases3)
  obtain tv e' where tv: "wd_time wd e = (tv, e')" by (cases "wd_time wd e")
  show ?thesis
  proof (cases "rc < 0")
    case True
    then show ?thesis using assms o by (auto simp: wait_result_def)
  next
    case False
    then obtain e'' where w': "w' = w\<lparr>w_heap := heap_after (after_wait clears c (time_ms tv)) xs (w_heap w), w_env := e''\<rparr>"
      using assms o tv by (auto simp: wait_result_def)
    show ?thesis unfolding w' using heap_after_waiter [of "w_heap w" clears c "time_ms tv" xs] by simp
  qed
qed

lemma ok_wait_room:
  assumes ok: "waiter_ok (l, w) xs" and p: "w_pollset w \<noteq> None"
  obtains p ps where "wait_room p ps w xs"
proof -
  from ok p obtain p ps where ps: "w_pollset w = Some p" "w_psets w p = Some ps" "cause_ok ps"
    "32 * ((length xs + 31) div 32) < length (ps_pfd ps)"
    by (auto simp: waiter_ok_def pset_room_def split: option.splits)
  have "length xs \<le> 32 * ((length xs + 31) div 32)" by presburger
  moreover have "length (ticket_fds (tickets_in w xs)) \<le> length xs"
    using ticket_fds_le [of "tickets_in w xs"] by (simp add: tickets_in_def)
  ultimately have "wait_room p ps w xs"
    using ok ps by (auto simp: wait_room_def waiter_ok_def)
  then show thesis by (rule that)
qed

lemma waiter_wait_ok:
  assumes acts: "callbacks_clear wd clears eff" and ok: "waiter_ok (l, w) xs"
    and p: "w_pollset w = Some p" and n: "length xs \<le> n"
  shows "\<exists>ps'. waiter_wait n wd (l, w) =
      map_option (\<lambda>w. (l, put_pset (Some p) ps' w)) (wait_result wd clears eff xs w) \<and>
    (\<forall>s'. waiter_wait n wd (l, w) = Some s' \<longrightarrow> waiter_ok s' xs)"
proof -
  from ok_wait_room [OF ok] p obtain q ps where room: "wait_room q ps w xs" by auto
  then have q: "q = p" "w_psets w p = Some ps" using p by (auto simp: wait_room_def)
  from ok have d: "dll l xs" by (simp add: waiter_ok_def)
  from waiter_wait_fold [OF acts d n room] q obtain ps' where
    ps': "waiter_wait n wd (l, w) =
      map_option (\<lambda>w. (l, put_pset (Some p) ps' w)) (wait_result wd clears eff xs w)"
    "cause_ok ps'" "length (ps_pfd ps') = length (ps_pfd ps)" by auto
  have "waiter_ok (l, put_pset (Some p) ps' w') xs"
    if r: "wait_result wd clears eff xs w = Some w'" for w'
    using ok wait_result_fields [OF r] p q ps'(2,3)
    by (auto simp: waiter_ok_def pset_room_def put_pset_def)
  with ps'(1) show ?thesis by auto
qed

end
