(* ===== verification/Waiter_Run.thy ===== *)
theory Waiter_Run
  imports Waiter_Inv
begin

text \<open>
  Synchronising timers, the bounded wait, and the runs of a waiter: what \<open>waiter_synchronize\<close> does
  to the sequence of tickets, the outcome of \<open>waiter_wait_timeout\<close>, and the states that a client
  reaches by any sequence of calls.
\<close>

section \<open>Synchronising timers\<close>

definition same_timer :: "waiter_ticket \<Rightarrow> waiter_ticket \<Rightarrow> bool" where
  "same_timer k o' \<longleftrightarrow> wt_type o' = WATCH_TYPE_TIMEOUT \<and> wt_arg o' = wt_arg k"

fun sync_first :: "waiter_ticket \<Rightarrow> waiter_ticket list \<Rightarrow> waiter_ticket list" where
  "sync_first k [] = []"
| "sync_first k (o' # os) =
     (if same_timer k o' then o'\<lparr>wt_start := wt_start k\<rparr> # os else o' # sync_first k os)"

lemma sync_first_length [simp]: "length (sync_first k ks) = length ks"
  by (induction ks) auto

fun sync_list :: "waiter_ticket list \<Rightarrow> waiter_ticket list" where
  "sync_list [] = []"
| "sync_list (k # ks) =
     k # (if wt_type k = WATCH_TYPE_TIMEOUT then sync_list (sync_first k ks) else sync_list ks)"

text \<open>The start that every timer ends up with: that of the first timer with its interval.\<close>

definition sync_to :: "waiter_ticket list \<Rightarrow> waiter_ticket \<Rightarrow> waiter_ticket" where
  "sync_to ks k = (if wt_type k = WATCH_TYPE_TIMEOUT
     then (case find (same_timer k) ks of None \<Rightarrow> k | Some o' \<Rightarrow> k\<lparr>wt_start := wt_start o'\<rparr>) else k)"

lemma same_timer_cong:
  "wt_type k = wt_type k' \<Longrightarrow> wt_arg k = wt_arg k' \<Longrightarrow> same_timer k = same_timer k'"
  "same_timer k (o'\<lparr>wt_start := x\<rparr>) = same_timer k o'"
  by (auto simp: same_timer_def fun_eq_iff)

lemma find_sync_first:
  "find (same_timer j) (sync_first k ks) =
     (if wt_arg j = wt_arg k then map_option (\<lambda>o'. o'\<lparr>wt_start := wt_start k\<rparr>) (find (same_timer j) ks)
      else find (same_timer j) ks)"
proof (induction ks)
  case (Cons o' os)
  have "same_timer j o' = same_timer k o'" if "wt_arg j = wt_arg k"
    using that by (simp add: same_timer_def)
  moreover have "\<not> (same_timer j o' \<and> same_timer k o')" if "wt_arg j \<noteq> wt_arg k"
    using that by (auto simp: same_timer_def)
  ultimately show ?case using Cons by (auto simp: same_timer_cong(2))
qed simp

lemma sync_list_map: "sync_list ks = map (sync_to ks) ks"
proof (induction "length ks" arbitrary: ks)
  case (Suc n)
  from Suc.hyps(2) obtain k os where ks: "ks = k # os" "n = length os" by (cases ks) auto
  have "k\<lparr>wt_start := wt_start k\<rparr> = k" by (cases k) simp
  then have self: "sync_to ks k = k"
    by (simp add: sync_to_def ks(1) same_timer_def)
  show ?case
  proof (cases "wt_type k = WATCH_TYPE_TIMEOUT")
    case False
    then have "\<not> same_timer j k" for j by (simp add: same_timer_def)
    then have "sync_to ks = sync_to os" by (auto simp: sync_to_def ks(1) fun_eq_iff)
    with Suc.hyps(1) [of os] ks(2) False self show ?thesis by (simp add: ks(1))
  next
    case True
    let ?os = "sync_first k os"
    have other: "sync_to ?os j = sync_to ks j" if "j \<in> set os" for j
    proof (cases "wt_arg j = wt_arg k \<and> wt_type j = WATCH_TYPE_TIMEOUT")
      case True
      then have "same_timer j j" by (simp add: same_timer_def)
      with that obtain o' where o': "find (same_timer j) os = Some o'"
        by (cases "find (same_timer j) os") (auto simp: find_None_iff)
      have "same_timer j k" using True \<open>wt_type k = WATCH_TYPE_TIMEOUT\<close> by (simp add: same_timer_def)
      with o' True show ?thesis by (simp add: sync_to_def ks(1) find_sync_first)
    next
      case False
      then show ?thesis by (auto simp: sync_to_def ks(1) find_sync_first same_timer_def)
    qed
    have upd: "sync_to fs (j\<lparr>wt_start := x\<rparr>) = (if find (same_timer j) fs = None then j\<lparr>wt_start := x\<rparr> else sync_to fs j)"
      if "wt_type j = WATCH_TYPE_TIMEOUT" for fs j x
      using that same_timer_cong(1) [of "j\<lparr>wt_start := x\<rparr>" j]
      by (auto simp: sync_to_def split: option.splits)
    have "map (sync_to ?os) (sync_first k fs) = map (sync_to ?os) fs"
      if "find (same_timer k) ?os \<noteq> None \<or> find (same_timer k) fs = None" for fs
      using that
    proof (induction fs)
      case (Cons f fs)
      show ?case
      proof (cases "same_timer k f")
        case True
        then have "wt_type f = WATCH_TYPE_TIMEOUT" "same_timer f = same_timer k"
          using \<open>wt_type k = WATCH_TYPE_TIMEOUT\<close> by (auto simp: same_timer_def fun_eq_iff)
        moreover from True Cons.prems have "find (same_timer k) ?os \<noteq> None" by auto
        then obtain z where "find (same_timer k) ?os = Some z" by blast
        ultimately show ?thesis using True by (simp add: upd)
      qed (use Cons in simp)
    qed simp
    from this [of os] have "map (sync_to ?os) ?os = map (sync_to ?os) os"
      using find_sync_first [of k k os] by (cases "find (same_timer k) os") simp_all
    with Suc.hyps(1) [of ?os] ks(2) other True self show ?thesis by (simp add: ks(1))
  qed
qed simp

text \<open>Timers of one interval get the start of the first of them and so expire together.\<close>

lemma sync_to_deadline:
  assumes "k \<in> set ks" "wt_type k = WATCH_TYPE_TIMEOUT" "same_timer k j"
  shows "deadline (sync_to ks k) = deadline (sync_to ks j)"
proof -
  have same: "same_timer k = same_timer j" "wt_arg j = wt_arg k" "wt_type j = WATCH_TYPE_TIMEOUT"
    using assms(2,3) by (auto simp: same_timer_def fun_eq_iff)
  have "same_timer k k" using assms(2) by (simp add: same_timer_def)
  then obtain o' where "find (same_timer k) ks = Some o'"
    using assms(1) by (cases "find (same_timer k) ks") (auto simp: find_None_iff)
  then have "sync_to ks k = k\<lparr>wt_start := wt_start o'\<rparr>" "sync_to ks j = j\<lparr>wt_start := wt_start o'\<rparr>"
    using same assms(2) by (simp_all add: sync_to_def)
  then show ?thesis using same(2) by (simp add: deadline_def interval_def)
qed

text \<open>Changes of the tickets \<open>ys\<close> only.\<close>

definition only_tickets :: "ptr list \<Rightarrow> 's waiter \<Rightarrow> 's waiter \<Rightarrow> bool" where
  "only_tickets ys w w' \<longleftrightarrow> w' = w\<lparr>w_heap := w_heap w'\<rparr> \<and> dom (w_heap w') = dom (w_heap w) \<and>
     (\<forall>t. t \<notin> set ys \<longrightarrow> w_heap w' t = w_heap w t)"

lemma only_tickets_refl: "only_tickets ys w w"
  by (simp add: only_tickets_def)

lemma only_tickets_upd: "y \<in> set ys \<Longrightarrow> w_heap w y = Some k \<Longrightarrow> only_tickets ys w (w\<lparr>w_heap := (w_heap w)(y \<mapsto> k')\<rparr>)"
  by (auto simp: only_tickets_def)

lemma only_tickets_trans:
  assumes a: "only_tickets ys w w1" and b: "only_tickets ys w1 w2"
  shows "only_tickets ys w w2"
proof -
  have "w2 = w1\<lparr>w_heap := w_heap w2\<rparr>" "w1 = w\<lparr>w_heap := w_heap w1\<rparr>"
    using a b by (simp_all add: only_tickets_def)
  then have "w2 = w\<lparr>w_heap := w_heap w2\<rparr>" by (cases w2; cases w1; cases w) simp
  with a b show ?thesis by (simp add: only_tickets_def)
qed

lemma only_tickets_mono: "only_tickets ys w w' \<Longrightarrow> set ys \<subseteq> set zs \<Longrightarrow> only_tickets zs w w'"
  unfolding only_tickets_def by blast

lemma only_tickets_at: "only_tickets ys w w' \<Longrightarrow> y \<notin> set ys \<Longrightarrow> ticket_at w' y = ticket_at w y"
  by (simp add: only_tickets_def ticket_at_def)

lemma tickets_in_simps [simp]:
  "tickets_in w [] = []" "tickets_in w (y # ys) = ticket_at w y # tickets_in w ys"
  by (simp_all add: tickets_in_def)

text \<open>The loops of the code compute \<open>sync_list\<close> on the tickets of the list.\<close>

lemma sync_after_spec:
  assumes "dll l (ks @ ys)" "length ys \<le> n" "set ys \<subseteq> dom (w_heap w)"
  shows "\<exists>w'. sync_after n k l (first_of ys None) w = Some w' \<and> only_tickets ys w w' \<and>
    tickets_in w' ys = sync_first k (tickets_in w ys)"
  using assms
proof (induction ys arbitrary: ks n)
  case Nil
  then show ?case by (cases n) (auto simp: only_tickets_refl)
next
  case (Cons y ys)
  then obtain m where n: "n = Suc m" "length ys \<le> m" by (cases n) auto
  from Cons.prems(3) obtain o' where o': "w_heap w y = Some o'" by auto
  then have at: "ticket_at w y = o'" by (simp add: ticket_at_def)
  have y: "y \<notin> set ys" using Cons.prems(1) by (simp add: dll_def)
  show ?case
  proof (cases "same_timer k o'")
    case True
    let ?w = "w\<lparr>w_heap := (w_heap w)(y \<mapsto> o'\<lparr>wt_start := wt_start k\<rparr>)\<rparr>"
    have "sync_after n k l (first_of (y # ys) None) w = Some ?w"
      using True o' n by (simp add: same_timer_def)
    moreover have "tickets_in ?w (y # ys) = sync_first k (tickets_in w (y # ys))"
      using y True at by (simp add: tickets_in_def ticket_at_def)
    moreover have "only_tickets (y # ys) w ?w" by (rule only_tickets_upd) (simp_all add: o')
    ultimately show ?thesis by blast
  next
    case False
    from Cons.IH [of "ks @ [y]" m] Cons.prems n obtain w' where
      w': "sync_after m k l (first_of ys None) w = Some w'" "only_tickets ys w w'"
        "tickets_in w' ys = sync_first k (tickets_in w ys)"
      by auto
    have nx: "get_next (fst l) (Some y) = Some (first_of ys None)" by (rule dll_next [OF Cons.prems(1)])
    have "sync_after n k l (first_of (y # ys) None) w = Some w'"
      using w'(1) nx False o' n by (auto simp: same_timer_def)
    moreover have "tickets_in w' (y # ys) = sync_first k (tickets_in w (y # ys))"
      using w'(3) False at only_tickets_at [OF w'(2) y] by simp
    moreover have "only_tickets (y # ys) w w'" by (rule only_tickets_mono [OF w'(2)]) auto
    ultimately show ?thesis by blast
  qed
qed

lemma sync_fold:
  assumes "dll l (ks @ ys)" "length ys \<le> n" "set ys \<subseteq> dom (w_heap w)"
  shows "\<exists>w'. foldl (\<lambda>r t. Option.bind r (\<lambda>w. map_option snd (sync_ticket n t (l, w)))) (Some w) ys = Some w' \<and>
    only_tickets ys w w' \<and> tickets_in w' ys = sync_list (tickets_in w ys)"
  using assms
proof (induction ys arbitrary: ks w)
  case Nil
  then show ?case by (simp add: only_tickets_refl)
next
  case (Cons y ys)
  from Cons.prems(3) obtain k where k: "w_heap w y = Some k" by auto
  then have at: "ticket_at w y = k" by (simp add: ticket_at_def)
  have y: "y \<notin> set ys" using Cons.prems(1) by (simp add: dll_def)
  have dl: "dll l ((ks @ [y]) @ ys)" and len: "length ys \<le> n" and sub: "set ys \<subseteq> dom (w_heap w)"
    using Cons.prems by simp_all
  have nx: "get_next (fst l) (Some y) = Some (first_of ys None)" by (rule dll_next [OF Cons.prems(1)])
  obtain w1 where w1: "sync_ticket n y (l, w) = Some (l, w1)" "only_tickets ys w w1"
    "tickets_in w1 ys = (if wt_type k = WATCH_TYPE_TIMEOUT then sync_first k (tickets_in w ys) else tickets_in w ys)"
  proof (cases "wt_type k = WATCH_TYPE_TIMEOUT")
    case False
    then show thesis using k by (intro that [of w]) (simp_all add: sync_ticket_def only_tickets_refl)
  next
    case True
    from sync_after_spec [OF dl len sub, of k] obtain w1 where
      "sync_after n k l (first_of ys None) w = Some w1" "only_tickets ys w w1"
      "tickets_in w1 ys = sync_first k (tickets_in w ys)" by blast
    then show thesis using True k nx by (intro that [of w1]) (simp_all add: sync_ticket_def)
  qed
  have sub1: "set ys \<subseteq> dom (w_heap w1)" using sub w1(2) by (simp add: only_tickets_def)
  from Cons.IH [OF dl len sub1] obtain w' where
    w': "foldl (\<lambda>r t. Option.bind r (\<lambda>w. map_option snd (sync_ticket n t (l, w)))) (Some w1) ys = Some w'"
    "only_tickets ys w1 w'" "tickets_in w' ys = sync_list (tickets_in w1 ys)" by blast
  have ot: "only_tickets ys w w'" by (rule only_tickets_trans [OF w1(2) w'(2)])
  have "tickets_in w' (y # ys) = sync_list (tickets_in w (y # ys))"
    using w'(3) w1(3) at only_tickets_at [OF ot y] by simp
  moreover have "only_tickets (y # ys) w w'" by (rule only_tickets_mono [OF ot]) auto
  ultimately show ?case using w'(1) w1(1) by simp
qed

lemma waiter_synchronize_spec:
  assumes ok: "waiter_ok (l, w) xs" and n: "length xs \<le> n"
  shows "\<exists>w'. waiter_synchronize n (l, w) = Some (l, w') \<and> only_tickets xs w w' \<and>
    tickets_in w' xs = map (sync_to (tickets_in w xs)) (tickets_in w xs)"
proof -
  from ok have d: "dll l ([] @ xs)" and dm: "set xs \<subseteq> dom (w_heap w)"
    and hdr: "list_first (snd l) = first_of xs None"
    by (auto simp: waiter_ok_def dll_def list_first_def)
  have body: "sync_ticket n t (l, w) = map_option (Pair l) (map_option snd (sync_ticket n t (l, w)))" for t w
    by (cases "w_heap w t"; cases "sync_ticket n t (l, w)") (auto simp: sync_ticket_def split: bind_splits if_splits)
  have "waiter_synchronize n (l, w) = map_option (Pair l)
      (foldl (\<lambda>r t. Option.bind r (\<lambda>w. map_option snd (sync_ticket n t (l, w)))) (Some w) xs)"
    unfolding waiter_synchronize_def fst_conv hdr
    by (rule list_for_each_fold [OF d n]) (rule body)
  with sync_fold [OF d n dm] show ?thesis by (auto simp: sync_list_map)
qed

section \<open>The bounded wait\<close>

text \<open>The timer on the stack, and the waiter while it is on the list.\<close>

definition stack_ticket :: "u32 \<Rightarrow> u64 \<Rightarrow> waiter_ticket" where
  "stack_ticket ms now = zero_ticket\<lparr>wt_type := WATCH_TYPE_TIMEOUT, wt_arg := ms, wt_start := now\<rparr>"

definition bounded_wait :: "'s world \<Rightarrow> u32 \<Rightarrow> 's waiter \<Rightarrow> 's waiter" where
  "bounded_wait wd ms w = (case wd_time wd (w_env w) of (tv, e) \<Rightarrow>
     w\<lparr>w_brk := w_brk w + 1, w_env := e, w_heap := (w_heap w)(w_brk w \<mapsto> stack_ticket ms (time_ms tv)),
       w_count := w_count w + 1\<rparr>)"

lemma tickets_in_upd: "t \<notin> set xs \<Longrightarrow> w_heap w' = (w_heap w)(t \<mapsto> k) \<Longrightarrow> tickets_in w' xs = tickets_in w xs"
  by (auto simp: tickets_in_def ticket_at_def)

lemma bounded_wait_tickets:
  assumes "w_brk w \<notin> set xs" "wd_time wd (w_env w) = (tv, e)"
  shows "tickets_in (bounded_wait wd ms w) (xs @ [w_brk w]) = tickets_in w xs @ [stack_ticket ms (time_ms tv)]"
  using assms tickets_in_upd [OF assms(1), of "bounded_wait wd ms w" w]
  by (simp add: bounded_wait_def tickets_in_def ticket_at_def)

lemma bounded_wait_room:
  assumes "wait_room p ps w xs" "w_brk w \<notin> set xs"
  shows "wait_room p ps (bounded_wait wd ms w) (xs @ [w_brk w])"
proof -
  obtain tv e where tv: "wd_time wd (w_env w) = (tv, e)" by (cases "wd_time wd (w_env w)")
  have "ticket_fds (tickets_in (bounded_wait wd ms w) (xs @ [w_brk w])) = ticket_fds (tickets_in w xs)"
    using bounded_wait_tickets [OF assms(2) tv] by (simp add: ticket_fds_def stack_ticket_def)
  moreover have "w_pollset (bounded_wait wd ms w) = w_pollset w" "w_psets (bounded_wait wd ms w) = w_psets w"
    "dom (w_heap (bounded_wait wd ms w)) = insert (w_brk w) (dom (w_heap w))"
    using tv by (auto simp: bounded_wait_def)
  ultimately show ?thesis using assms(1) by (auto simp: wait_room_def)
qed

definition bounded_result :: "'s waiter \<Rightarrow> ptr \<Rightarrow> int" where
  "bounded_result w t = (if wt_updated (ticket_at w t) = 0 then 0 else - 1)"

lemma waiter_wait_timeout_eq:
  assumes acts: "callbacks_clear wd clears eff" and ok: "waiter_ok (l, w) xs"
    and p: "w_pollset w = Some p" and n: "length xs < n" and len: "length xs + 1 < 2 ^ 31"
  shows "\<exists>ps' l'. waiter_wait_timeout n wd ms (l, w) =
      map_option (\<lambda>w'. (bounded_result w' (w_brk w), (l', (put_pset (Some p) ps' w')
          \<lparr>w_count := w_count w, w_heap := (w_heap w')(w_brk w := None)\<rparr>)))
        (wait_result wd clears eff (xs @ [w_brk w]) (bounded_wait wd ms w)) \<and>
    dll l' xs \<and> dom (fst l') = set xs \<and> cause_ok ps' \<and>
    (\<forall>ps. w_psets w p = Some ps \<longrightarrow> length (ps_pfd ps') = length (ps_pfd ps))"
proof -
  obtain h hdr where l: "l = (h, hdr)" by (cases l)
  obtain tv e where tv: "wd_time wd (w_env w) = (tv, e)" by (cases "wd_time wd (w_env w)")
  let ?t = "w_brk w" and ?z = "\<lparr>li_next = None, li_prev = None\<rparr>"
  from ok have d: "dll (h, hdr) xs" "dom h = set xs" and new: "?t \<notin> set xs"
    and cnt: "w_count w = int (length xs)"
    by (auto simp: waiter_ok_def l)
  obtain l1 where app: "list_append ?t (h(?t \<mapsto> ?z), hdr) = Some l1" "dll l1 (xs @ [?t])"
    "dom (fst l1) = insert ?t (set xs)" by (rule append_new_ticket [OF ok [unfolded l]]) (metis fst_conv)
  from il.remove_repr [OF app(2), of ?t] new app(3) obtain h2 hdr2 where
    rem: "list_remove ?t l1 = Some (h2, hdr2)" "dll (h2, hdr2) xs" "dom h2 = insert ?t (set xs)"
    by (auto simp: remove1_append)
  from ok_wait_room [OF ok] p obtain q ps where room0: "wait_room q ps w xs" by auto
  then have q: "q = p" "w_psets w p = Some ps" using p by (auto simp: wait_room_def)
  let ?w1 = "bounded_wait wd ms w"
  have room: "wait_room p ps ?w1 (xs @ [?t])"
    by (rule bounded_wait_room) (use room0 q new in auto)
  have n': "length (xs @ [?t]) \<le> n" using n by simp
  from waiter_wait_fold [OF acts app(2) n' room] obtain ps' where
    ww: "waiter_wait n wd (l1, ?w1) =
      map_option (\<lambda>w. (l1, put_pset (Some p) ps' w)) (wait_result wd clears eff (xs @ [?t]) ?w1)"
    "cause_ok ps'" "length (ps_pfd ps') = length (ps_pfd ps)" by blast
  let ?k = "zero_ticket\<lparr>wt_type := WATCH_TYPE_TIMEOUT, wt_arg := ms\<rparr>"
  have st: "stack_ticket ms (time_ms tv) = ?k\<lparr>wt_start := time_ms tv\<rparr>"
    by (simp add: stack_ticket_def zero_ticket_def)
  have "waiter_wait_timeout n wd ms (l, w) = do {
      (l, w) \<leftarrow> waiter_wait n wd (l1, ?w1);
      rc \<leftarrow> waiter_ticket_check ?t w;
      (h, l) \<leftarrow> list_remove ?t l;
      c \<leftarrow> int32 (w_count w - 1);
      Some (- (if rc = 0 then 1 else 0), ((h(?t := None), l), w\<lparr>w_count := c, w_heap := (w_heap w)(?t := None)\<rparr>)) }"
    using app(1) tv cnt len st
    by (simp add: waiter_wait_timeout_def l Let_def waiter_ticket_set_timeout_def now_ms_def bounded_wait_def)
  also have "\<dots> = map_option (\<lambda>w'. (bounded_result w' ?t, ((h2(?t := None), hdr2), (put_pset (Some p) ps' w')
          \<lparr>w_count := w_count w, w_heap := (w_heap w')(?t := None)\<rparr>)))
        (wait_result wd clears eff (xs @ [?t]) ?w1)"
  proof (cases "wait_result wd clears eff (xs @ [?t]) ?w1")
    case None
    then show ?thesis using ww by simp
  next
    case (Some w2)
    note f = wait_result_fields [OF Some]
    have "?t \<in> dom (w_heap w2)" using f tv by (auto simp: bounded_wait_def)
    then obtain k where k: "w_heap w2 ?t = Some k" by auto
    have "w_count w2 = int (length xs) + 1" using f tv cnt by (simp add: bounded_wait_def)
    then show ?thesis using ww Some k rem(1) len cnt
      by (simp add: waiter_ticket_check_def bounded_result_def ticket_at_def)
  qed
  finally have eq: "waiter_wait_timeout n wd ms (l, w) = \<dots>" .
  have "dll (h2(?t := None), hdr2) xs" by (rule dll_free [OF rem(2) new])
  moreover have "dom (fst (h2(?t := None), hdr2)) = set xs" using rem(3) new by auto
  ultimately show ?thesis using eq ww q by (intro exI [of _ ps'] exI [of _ "(h2(?t := None), hdr2)"]) auto
qed

lemma waiter_wait_timeout_ok:
  assumes acts: "callbacks_clear wd clears eff" and ok: "waiter_ok (l, w) xs"
    and p: "w_pollset w = Some p" and n: "length xs < n" and len: "length xs + 1 < 2 ^ 31"
    and r: "waiter_wait_timeout n wd ms (l, w) = Some (rc, s')"
  shows "waiter_ok s' xs"
proof -
  obtain tv e where tv: "wd_time wd (w_env w) = (tv, e)" by (cases "wd_time wd (w_env w)")
  let ?t = "w_brk w"
  from waiter_wait_timeout_eq [OF acts ok p n len, of ms] obtain ps' l' where
    eq: "waiter_wait_timeout n wd ms (l, w) =
      map_option (\<lambda>w'. (bounded_result w' ?t, (l', (put_pset (Some p) ps' w')
          \<lparr>w_count := w_count w, w_heap := (w_heap w')(?t := None)\<rparr>)))
        (wait_result wd clears eff (xs @ [?t]) (bounded_wait wd ms w))"
    and l': "dll l' xs" "dom (fst l') = set xs"
    and ps': "cause_ok ps'" "\<forall>ps. w_psets w p = Some ps \<longrightarrow> length (ps_pfd ps') = length (ps_pfd ps)"
    by blast
  from r [unfolded eq] obtain w' where
    w': "wait_result wd clears eff (xs @ [?t]) (bounded_wait wd ms w) = Some w'"
    and s': "s' = (l', (put_pset (Some p) ps' w')\<lparr>w_count := w_count w, w_heap := (w_heap w')(?t := None)\<rparr>)"
    by auto
  from ok have new: "?t \<notin> set xs" by (auto simp: waiter_ok_def)
  let ?w1 = "bounded_wait wd ms w" and ?heap = "(w_heap w')(?t := None)"
  note f = wait_result_fields [OF w']
  have dm1: "dom (w_heap ?w1) = insert ?t (set xs)" using ok tv by (simp add: bounded_wait_def waiter_ok_def)
  have "\<forall>t k. w_heap w' t = Some k \<longrightarrow> t \<noteq> ?t \<longrightarrow> wt_waiter k"
  proof -
    have "heap_after (after_wait clears c now) (xs @ [?t]) (w_heap ?w1) t = Some k \<Longrightarrow> t \<noteq> ?t \<Longrightarrow> wt_waiter k"
      for c now t k
      using ok tv by (auto simp: heap_after_def after_wait_def bounded_wait_def waiter_ok_def split: if_splits)
    then show ?thesis using w' ok tv
      by (auto simp: wait_result_def bounded_wait_def waiter_ok_def split: prod.splits if_splits)
  qed
  then have wt: "\<forall>t k. ?heap t = Some k \<longrightarrow> wt_waiter k" by simp
  have dm: "dom ?heap = set xs" using f dm1 new by auto
  from ok p obtain ps where ps: "w_psets w p = Some ps" "32 * ((length xs + 31) div 32) < length (ps_pfd ps)"
    by (auto simp: waiter_ok_def pset_room_def split: option.splits)
  have pl: "w_pollset w' = Some p" "w_psets w' = w_psets w" "w_brk w' = ?t + 1"
    using f p tv by (simp_all add: bounded_wait_def)
  have "pset_room ((put_pset (Some p) ps' w')\<lparr>w_count := w_count w, w_heap := ?heap\<rparr>) (length xs)"
    using ps ps' pl by (simp add: pset_room_def put_pset_def)
  moreover have "\<forall>t \<in> set xs. t < ?t + 1" using ok by (auto simp: waiter_ok_def)
  moreover have "w_count w = int (length xs)" "length xs < 2 ^ 31" "dom ((w_psets w)(p \<mapsto> ps')) = {p}"
    using ok p by (auto simp: waiter_ok_def)
  ultimately show ?thesis unfolding s' using l' dm wt pl
    by (intro waiter_okI) (simp_all add: put_pset_def del: dom_fun_upd fun_upd_apply)
qed

section \<open>Runs\<close>

text \<open>
  What a client may do with a waiter: every call that returns, with whatever it returns, and time
  passing in between. The iteration bound of a traversal is at least the number of tickets. A step
  is labelled: true if it is a call of one of the \<open>add\<close> functions that allocated its ticket but not
  the poll set for it, and therefore returned null with the ticket already on the list.
\<close>

definition ticket_count :: "'s wst \<Rightarrow> nat" where
  "ticket_count s = card (dom (w_heap (snd s)))"

definition poll_set_failed :: "ptr option \<Rightarrow> 's wst \<Rightarrow> 's wst \<Rightarrow> bool" where
  "poll_set_failed tk s s' \<longleftrightarrow> tk = None \<and> w_heap (snd s') \<noteq> w_heap (snd s)"

inductive waiter_step :: "'s world \<Rightarrow> bool \<Rightarrow> 's wst \<Rightarrow> 's wst \<Rightarrow> bool" for wd where
  step_env: "waiter_step wd False (l, w) (l, w\<lparr>w_env := e\<rparr>)"
| step_null: "waiter_add_null s = Some (tk, s') \<Longrightarrow> waiter_step wd (poll_set_failed tk s s') s s'"
| step_fd: "waiter_add_fd fd s = Some (tk, s') \<Longrightarrow> waiter_step wd (poll_set_failed tk s s') s s'"
| step_timeout: "waiter_add_timeout wd ms s = Some (tk, s') \<Longrightarrow> waiter_step wd (poll_set_failed tk s s') s s'"
| step_delete: "waiter_ticket_delete t s = Some s' \<Longrightarrow> waiter_step wd False s s'"
| step_set_null: "waiter_ticket_set_null t w = Some w' \<Longrightarrow> waiter_step wd False (l, w) (l, w')"
| step_set_fd: "waiter_ticket_set_fd t fd w = Some w' \<Longrightarrow> waiter_step wd False (l, w) (l, w')"
| step_set_timeout: "waiter_ticket_set_timeout wd t ms w = Some w' \<Longrightarrow> waiter_step wd False (l, w) (l, w')"
| step_callback: "waiter_ticket_callback t fn d w = Some w' \<Longrightarrow> waiter_step wd False (l, w) (l, w')"
| step_clear: "waiter_ticket_clear t w = Some (rc, w') \<Longrightarrow> waiter_step wd False (l, w) (l, w')"
| step_synchronize: "waiter_synchronize n s = Some s' \<Longrightarrow> ticket_count s \<le> n \<Longrightarrow> waiter_step wd False s s'"
| step_wait: "waiter_wait n wd s = Some s' \<Longrightarrow> ticket_count s \<le> n \<Longrightarrow> waiter_step wd False s s'"
| step_wait_timeout: "waiter_wait_timeout n wd ms s = Some (rc, s') \<Longrightarrow> ticket_count s < n \<Longrightarrow>
    waiter_step wd False s s'"

inductive_cases waiter_stepE: "waiter_step wd failed s s'"

lemma ticket_count_ok: "waiter_ok s xs \<Longrightarrow> ticket_count s = length xs"
  by (auto simp: ticket_count_def waiter_ok_def dll_def distinct_card)

text \<open>An \<open>add\<close> that returns a ticket had the allocations it needed.\<close>

lemma waiter_add_null_inv:
  assumes ok: "waiter_ok (l, w) xs" and r: "waiter_add_null (l, w) = Some (Some t, s')"
  shows "waiter_ok s' (xs @ [t]) \<and> w_heap (snd s') = (w_heap w)(t \<mapsto> zero_ticket\<lparr>wt_waiter := True\<rparr>)"
proof -
  obtain h hdr where l: "l = (h, hdr)" by (cases l)
  have cnt: "w_count w = int (length xs)" and ps: "dom (w_psets w) = set_option (w_pollset w)"
    using ok by (simp_all add: waiter_ok_def)
  obtain al where al: "alloc (w_script w) = (True, al)"
    using r by (cases "alloc (w_script w)") (auto simp: waiter_add_null_def l split: bool.splits)
  obtain al' where al': "length xs mod 32 = 0 \<Longrightarrow> alloc al = (True, al') \<and> length xs + 33 < 2 ^ 31"
  proof (cases "length xs mod 32 = 0")
    case True
    then have m: "int (length xs) mod 32 = 0" by presburger
    show thesis
      using r al m cnt ps
      by (cases "alloc al"; intro that [of "snd (alloc al)"])
        (auto simp: waiter_add_null_def l Let_def pollset_grow_eq split: bind_splits bool.splits if_splits)
  qed auto
  have len: "length xs + 1 < 2 ^ 31"
  proof (cases "length xs mod 32 = 0")
    case False
    then have m: "int (length xs) mod 32 \<noteq> 0" by presburger
    show ?thesis using r al m cnt
      by (auto simp: waiter_add_null_def l Let_def split: bind_splits)
  qed (use al' in auto)
  have a: "length xs mod 32 = 0 \<Longrightarrow> alloc al = (True, al')" and b: "length xs mod 32 = 0 \<Longrightarrow> length xs + 33 < 2 ^ 31"
    using al' by auto
  from waiter_add_null_spec [OF ok len b al a] obtain s'' where
    "waiter_add_null (l, w) = Some (Some (w_brk w), s'')" "waiter_ok s'' (xs @ [w_brk w])"
    "w_heap (snd s'') = (w_heap w)(w_brk w \<mapsto> zero_ticket\<lparr>wt_waiter := True\<rparr>)" by blast
  with r show ?thesis by simp
qed

lemma waiter_add_null_ok:
  "waiter_ok s xs \<Longrightarrow> waiter_add_null s = Some (Some t, s') \<Longrightarrow> waiter_ok s' (xs @ [t])"
  by (cases s) (use waiter_add_null_inv in blast)

lemma waiter_add_fd_ok:
  assumes ok: "waiter_ok s xs" and r: "waiter_add_fd fd s = Some (Some t, s')"
  shows "waiter_ok s' (xs @ [t])"
proof -
  from r obtain l w w' where a: "waiter_add_null s = Some (Some t, (l, w))"
    and b: "waiter_ticket_set_fd t fd w = Some w'" "s' = (l, w')"
    by (auto simp: waiter_add_fd_def split: bind_splits option.splits)
  from set_fd_ok [OF waiter_add_null_ok [OF ok a] b(1)] b(2) show ?thesis by simp
qed

lemma waiter_add_timeout_ok:
  assumes ok: "waiter_ok s xs" and r: "waiter_add_timeout wd ms s = Some (Some t, s')"
  shows "waiter_ok s' (xs @ [t])"
proof -
  from r obtain l w w' where a: "waiter_add_null s = Some (Some t, (l, w))"
    and b: "waiter_ticket_set_timeout wd t ms w = Some w'" "s' = (l, w')"
    by (auto simp: waiter_add_timeout_def split: bind_splits option.splits)
  from set_timeout_ok [OF waiter_add_null_ok [OF ok a] b(1)] b(2) show ?thesis by simp
qed

lemma waiter_synchronize_ok:
  assumes ok: "waiter_ok s xs" and n: "length xs \<le> n" and r: "waiter_synchronize n s = Some s'"
  shows "waiter_ok s' xs"
proof -
  obtain l w where s: "s = (l, w)" by (cases s)
  from waiter_synchronize_spec [OF ok [unfolded s] n] r s obtain w' where
    w': "s' = (l, w')" "only_tickets xs w w'" "tickets_in w' xs = map (sync_to (tickets_in w xs)) (tickets_in w xs)"
    by auto
  have wt: "wt_waiter k" if "w_heap w' t = Some k" for t k
  proof -
    have t: "t \<in> set xs" using that w'(2) ok s by (auto simp: only_tickets_def waiter_ok_def)
    then have "ticket_at w' t = k" "w_heap w t \<noteq> None" using that ok s by (auto simp: ticket_at_def waiter_ok_def)
    with w'(3) t have "k = sync_to (tickets_in w xs) (ticket_at w t)" by (auto simp: tickets_in_def)
    moreover have "wt_waiter (ticket_at w t)"
      using ok s \<open>w_heap w t \<noteq> None\<close> by (auto simp: ticket_at_def waiter_ok_def)
    ultimately show ?thesis by (auto simp: sync_to_def split: option.splits)
  qed
  have "w' = w\<lparr>w_heap := w_heap w'\<rparr>" "dom (w_heap w') = set xs"
    using w'(2) ok s by (auto simp: only_tickets_def waiter_ok_def)
  then show ?thesis using waiter_ok_heap [OF ok [unfolded s], of "w_heap w'"] wt w'(1) by metis
qed

text \<open>A bounded wait that is defined had a poll set and room for one more ticket.\<close>

lemma waiter_wait_timeout_defined:
  assumes ok: "waiter_ok (l, w) xs" and r: "waiter_wait_timeout n wd ms (l, w) = Some r"
  shows "(\<exists>p. w_pollset w = Some p) \<and> length xs + 1 < 2 ^ 31"
proof
  obtain h hdr where l: "l = (h, hdr)" by (cases l)
  show "\<exists>p. w_pollset w = Some p"
    using r l
    by (auto simp: waiter_wait_timeout_def waiter_ticket_set_timeout_def now_ms_def waiter_wait_def Let_def
        pollset_reset_def pset_at_def upd_ticket_def split: bind_splits prod.splits)
  show "length xs + 1 < 2 ^ 31"
    using r l ok
    by (auto simp: waiter_wait_timeout_def waiter_ticket_set_timeout_def now_ms_def Let_def waiter_ok_def
        upd_ticket_def split: bind_splits prod.splits)
qed

lemma waiter_add_fd_none: "waiter_add_fd fd s = Some (None, s') \<longleftrightarrow> waiter_add_null s = Some (None, s')"
  by (auto simp: waiter_add_fd_def split: bind_splits option.splits)

lemma waiter_add_timeout_none:
  "waiter_add_timeout wd ms s = Some (None, s') \<longleftrightarrow> waiter_add_null s = Some (None, s')"
  by (auto simp: waiter_add_timeout_def split: bind_splits option.splits)

text \<open>
  An \<open>add\<close> that returns null has either found no memory for the ticket and changed nothing, or has
  put the ticket on the list, not counted it, and left the waiter without a poll set.
\<close>

lemma waiter_add_null_none:
  assumes ok: "waiter_ok (l, w) xs" and r: "waiter_add_null (l, w) = Some (None, s')"
  shows "(\<exists>al. s' = (l, w\<lparr>w_script := al\<rparr>)) \<or>
    (dll (fst s') (xs @ [w_brk w]) \<and> ticket_count s' = length xs + 1 \<and>
     w_count (snd s') = w_count w \<and> w_pollset (snd s') = None)"
proof -
  obtain h hdr where l: "l = (h, hdr)" by (cases l)
  obtain got al where al: "alloc (w_script w) = (got, al)" by fastforce
  show ?thesis
  proof (cases got)
    case False
    then show ?thesis using r al by (auto simp: waiter_add_null_def l)
  next
    case True
    let ?t = "w_brk w" and ?z = "\<lparr>li_next = None, li_prev = None\<rparr>"
    have new: "?t \<notin> set xs" and dm: "dom (w_heap w) = set xs" and cnt: "w_count w = int (length xs)"
      and ps: "dom (w_psets w) = set_option (w_pollset w)" and dl: "distinct xs"
      using ok by (auto simp: waiter_ok_def dll_def)
    obtain h' hdr' where app: "list_append ?t (h(?t \<mapsto> ?z), hdr) = Some (h', hdr')" "dll (h', hdr') (xs @ [?t])"
      by (rule append_new_ticket [OF ok [unfolded l]])
    have "card (insert ?t (set xs)) = length xs + 1" using new dl by (simp add: distinct_card)
    then have "ticket_count (l', w'\<lparr>w_heap := (w_heap w)(?t \<mapsto> k)\<rparr>) = length xs + 1" for l' w' k
      using dm by (simp add: ticket_count_def)
    then show ?thesis using r True al app cnt ps dm new dl
      by (auto simp: waiter_add_null_def l Let_def pollset_grow_eq ticket_count_def distinct_card
          split: bind_splits bool.splits prod.splits if_split_asm)
  qed
qed

lemma waiter_add_refused_ok:
  assumes ok: "waiter_ok s xs" and r: "waiter_add_null s = Some (None, s')" and "\<not> poll_set_failed None s s'"
  shows "waiter_ok s' xs"
proof -
  obtain l w where s: "s = (l, w)" by (cases s)
  from assms(3) have same: "w_heap (snd s') = w_heap w" by (simp add: poll_set_failed_def s)
  then have "ticket_count s' = length xs"
    using ticket_count_ok [OF ok] by (simp add: ticket_count_def s)
  then obtain al where "s' = (l, w\<lparr>w_script := al\<rparr>)" using waiter_add_null_none [OF ok [unfolded s] r [unfolded s]] by auto
  then show ?thesis using ok s by (simp add: waiter_ok_def)
qed

lemma waiter_step_ok:
  assumes acts: "callbacks_clear wd clears eff" and st: "waiter_step wd failed s s'" "\<not> failed" and ok: "waiter_ok s xs"
  shows "\<exists>xs'. waiter_ok s' xs'"
  using st ok
proof (cases rule: waiter_step.cases)
  case (step_env l w e)
  then show ?thesis using ok by (intro exI [of _ xs]) (simp add: waiter_ok_env)
next
  case (step_null tk)
  then show ?thesis using waiter_add_refused_ok [OF ok] st(2)
    by (cases tk) (auto dest: waiter_add_null_ok [OF ok])
next
  case (step_fd fd tk)
  then show ?thesis using waiter_add_refused_ok [OF ok] st(2)
    by (cases tk) (auto simp: waiter_add_fd_none dest: waiter_add_fd_ok [OF ok])
next
  case (step_timeout ms tk)
  then show ?thesis using waiter_add_refused_ok [OF ok] st(2)
    by (cases tk) (auto simp: waiter_add_timeout_none dest: waiter_add_timeout_ok [OF ok])
next
  case (step_delete t)
  obtain l w where s: "s = (l, w)" by (cases s)
  with step_delete have "t \<in> dom (w_heap w)" by (auto simp: waiter_ticket_delete_def split: bind_splits)
  then have t: "t \<in> set xs" using ok by (simp add: s waiter_ok_def)
  then show ?thesis using waiter_ticket_delete_spec [OF ok [unfolded s] t] step_delete s by auto
next
  case (step_synchronize n)
  then have "length xs \<le> n" using ticket_count_ok [OF ok] by simp
  with step_synchronize show ?thesis using waiter_synchronize_ok [OF ok] by blast
next
  case (step_wait n)
  obtain l w where s: "s = (l, w)" by (cases s)
  with step_wait obtain p where "w_pollset w = Some p"
    by (auto simp: waiter_wait_def Let_def pollset_reset_def pset_at_def split: bind_splits)
  note p = this
  have len: "length xs \<le> n" using step_wait ticket_count_ok [OF ok] by simp
  from waiter_wait_ok [OF acts ok [unfolded s] p len] step_wait(2) s show ?thesis by blast
next
  case (step_wait_timeout n ms rc)
  obtain l w where s: "s = (l, w)" by (cases s)
  obtain p where p: "w_pollset w = Some p" and len: "length xs + 1 < 2 ^ 31"
    using waiter_wait_timeout_defined [OF ok [unfolded s]] step_wait_timeout(2) s by blast
  have n: "length xs < n" using step_wait_timeout ticket_count_ok [OF ok] by simp
  from waiter_wait_timeout_ok [OF acts ok [unfolded s] p n len] step_wait_timeout(2) s show ?thesis by blast
qed (auto dest: set_null_ok set_fd_ok set_timeout_ok callback_ok clear_ok)

text \<open>
  The waiters that a client reaches, and whether one of the calls on the way could not allocate a
  poll set.
\<close>

inductive waiter_reachable :: "'s world \<Rightarrow> bool \<Rightarrow> 's wst \<Rightarrow> bool" for wd where
  reach_create: "no_waiter s0 \<Longrightarrow> waiter_create s0 = (True, s) \<Longrightarrow> waiter_reachable wd False s"
| reach_step: "waiter_reachable wd lost s \<Longrightarrow> waiter_step wd failed s s' \<Longrightarrow> waiter_reachable wd (lost \<or> failed) s'"

lemma waiter_reachable_ok:
  assumes "callbacks_clear wd clears eff" "waiter_reachable wd lost s" "\<not> lost"
  shows "\<exists>xs. waiter_ok s xs"
  using assms(2,3)
proof (induction rule: waiter_reachable.induct)
  case (reach_create s0 s)
  then show ?case using waiter_create_ok by blast
next
  case (reach_step lost s failed s')
  then show ?case using waiter_step_ok [OF assms(1)] by blast
qed

end
