(* ===== verification/Waiter_Props.thy ===== *)
theory Waiter_Props
  imports Waiter_Run
begin

text \<open>
  The claims about the event waiter of \<open>src/waiter.c\<close>, for callbacks that may clear their own
  ticket and otherwise act on the environment only.
\<close>

section \<open>Example waiters\<close>

text \<open>
  A clock that shows ten seconds at every reading, a \<open>poll\<close> that times out, callbacks that log
  their ticket; a waiter with one timer of 5 ms, started five seconds ago.
\<close>

definition ten_seconds :: timeval where "ten_seconds = \<lparr>tv_sec = 10, tv_usec = 0\<rparr>"

definition demo_world :: "ptr list world" where
  "demo_world = world_of (\<lambda>e. (ten_seconds, e)) (\<lambda>fds ms e. (0, \<lambda>_. 0, e)) (\<lambda>_. True)
     (\<lambda>fn d t e. Some (e @ [t]))"

definition demo_start :: "ptr list wst" where
  "demo_start = ((Map.empty, \<lparr>lhead = None, ltail = None\<rparr>),
     \<lparr>w_pollset = None, w_count = 0, w_heap = Map.empty, w_psets = Map.empty, w_brk = 4, w_script = [],
      w_env = []\<rparr>)"

definition demo_empty :: "ptr list wst" where "demo_empty = snd (waiter_create demo_start)"

definition demo_timer :: "ptr list wst" where
  "demo_timer = snd (the (waiter_add_timeout demo_world 5 demo_empty))"

lemma time_ms_ten [simp]: "time_ms ten_seconds = 10000"
  by (simp add: ten_seconds_def time_ms_def)

lemma demo_time [simp]: "wd_time demo_world e = (ten_seconds, e)"
  by (simp add: demo_world_def world_of_def)

lemma demo_clears: "callbacks_clear demo_world (\<lambda>_. True) (\<lambda>fn d t e. Some (e @ [t]))"
  unfolding demo_world_def by (rule world_of_clears)

lemma demo_empty_created: "no_waiter demo_start" "waiter_create demo_start = (True, demo_empty)"
  by (simp_all add: no_waiter_def demo_start_def demo_empty_def waiter_create_def)

lemma demo_empty_eq: "demo_empty = demo_start"
  by (simp add: demo_empty_def demo_start_def waiter_create_def list_init_def)

lemma demo_timer_added: "waiter_add_timeout demo_world 5 demo_empty = Some (Some 4, demo_timer)"
  by (simp add: demo_timer_def demo_empty_eq demo_start_def waiter_add_timeout_def waiter_add_null_def
      pollset_grow_def pollset_create_def list_append_def list_field_defs waiter_ticket_set_null_def
      waiter_ticket_set_timeout_def now_ms_def Let_def)

lemma demo_empty_ok: "waiter_ok demo_empty []"
  by (rule waiter_create_ok [OF demo_empty_created])

lemma demo_timer_ok: "waiter_ok demo_timer [4]"
  using waiter_add_timeout_ok [OF demo_empty_ok demo_timer_added] by simp

lemma demo_timer_reachable: "waiter_reachable demo_world False demo_timer"
  using reach_step [OF reach_create [OF demo_empty_created] step_timeout [OF demo_timer_added]]
  by (simp add: poll_set_failed_def)

lemma demo_timer_ticket:
  "w_heap (snd demo_timer) 4 = Some \<lparr>wt_type = WATCH_TYPE_TIMEOUT, wt_arg = 5, wt_fn = None, wt_data = 0,
     wt_start = 10000, wt_updated = 0, wt_waiter = True\<rparr>"
  "w_pollset (snd demo_timer) = Some 5" "w_env (snd demo_timer) = []"
  using demo_timer_added
  by (simp_all add: demo_timer_def demo_empty_eq demo_start_def waiter_add_timeout_def waiter_add_null_def
      pollset_grow_def pollset_create_def list_append_def list_field_defs waiter_ticket_set_null_def
      waiter_ticket_set_timeout_def now_ms_def Let_def zero_ticket_def)

section \<open>Reachable waiters\<close>

lemma run_calls_total: "(\<And>fn d t e. eff fn d t e \<noteq> None) \<Longrightarrow> run_calls eff tks e \<noteq> None"
proof (induction tks arbitrary: e)
  case (Cons tk tks)
  obtain t k where tk: "tk = (t, k)" by (cases tk)
  from Cons.prems obtain e' where "eff (the (wt_fn k)) (wt_data k) t e = Some e'" by blast
  with Cons.IH [OF Cons.prems, of e'] show ?case by (simp add: tk)
qed simp

lemma wait_result_total:
  assumes "\<And>fn d t e. eff fn d t e \<noteq> None"
  shows "wait_result wd clears eff xs w \<noteq> None"
  using run_calls_total [OF assms] by (auto simp: wait_result_def split: prod.splits)

lemma ok_pollset: "waiter_ok (l, w) xs \<Longrightarrow> xs \<noteq> [] \<Longrightarrow> \<exists>p. w_pollset w = Some p"
  by (auto simp: waiter_ok_def pset_room_def split: option.splits)

lemma wait_without_poll_set: "w_pollset w = None \<Longrightarrow> waiter_wait n wd (l, w) = None"
  by (simp add: waiter_wait_def Let_def pollset_reset_def pset_at_def)

text \<open>Claim C15: In every waiter that a client reaches, by any sequence of calls (with whatever they
  return), waits and callbacks that only clear their own ticket, as long as no call has allocated a
  ticket and then failed to allocate the poll set, \<open>count\<close> is the number of tickets, the poll set has an
  entry for every ticket, and therefore waiting (with and without a timeout) is defined once there is a
  ticket; destroying the waiter frees every ticket and the poll set exactly once. A call of
  \<open>waiter_add_null\<close> that returns null then either found no memory for the ticket and changed nothing,
  or is the exception: the new ticket stays on the list without being counted, the poll set is gone,
  and the next wait follows a null pointer.\<close>
theorem reachable_waiter_safe:
  assumes acts: "callbacks_clear wd clears eff" and total: "\<And>fn d t e. eff fn d t e \<noteq> None"
    and reach: "waiter_reachable wd lost s" "\<not> lost" and n: "0 < ticket_count s" "ticket_count s < n"
    and len: "ticket_count s + 1 < 2 ^ 31"
  shows "w_count (snd s) = int (ticket_count s) \<and>
    (\<exists>p ps. w_pollset (snd s) = Some p \<and> w_psets (snd s) p = Some ps \<and> ticket_count s < length (ps_pfd ps)) \<and>
    waiter_wait n wd s \<noteq> None \<and> waiter_wait_timeout n wd ms s \<noteq> None \<and>
    (\<exists>s'. waiter_destroy n s = Some s' \<and> no_waiter s') \<and>
    (\<forall>s'. waiter_add_null s = Some (None, s') \<longrightarrow>
      (\<exists>al. s' = (fst s, (snd s)\<lparr>w_script := al\<rparr>)) \<or>
      (ticket_count s' = ticket_count s + 1 \<and> w_count (snd s') = w_count (snd s) \<and>
        w_pollset (snd s') = None \<and> waiter_wait n wd s' = None))"
proof -
  obtain l w where s: "s = (l, w)" by (cases s)
  from waiter_reachable_ok [OF acts reach] obtain xs where ok: "waiter_ok (l, w) xs" by (auto simp: s)
  have tc: "ticket_count s = length xs" using ticket_count_ok [OF ok] s by simp
  with n ok_pollset [OF ok] obtain p where p: "w_pollset w = Some p" by auto
  have len': "length xs \<le> n" "length xs < n" "length xs + 1 < 2 ^ 31" using n len tc by simp_all
  have "waiter_wait n wd (l, w) \<noteq> None"
    using waiter_wait_ok [OF acts ok p len'(1)] wait_result_total [of eff wd clears xs w, OF total] by auto
  moreover have "waiter_wait_timeout n wd ms (l, w) \<noteq> None"
    using waiter_wait_timeout_eq [OF acts ok p len'(2,3), of ms]
      wait_result_total [of eff wd clears "xs @ [w_brk w]" "bounded_wait wd ms w", OF total] by auto
  moreover have "\<exists>s'. waiter_destroy n (l, w) = Some s' \<and> no_waiter s'"
    using waiter_destroy_spec [OF ok len'(1)] by blast
  moreover have "w_count w = int (length xs)" using ok by (simp add: waiter_ok_def)
  moreover have "\<exists>ps. w_psets w p = Some ps \<and> length xs < length (ps_pfd ps)"
  proof -
    have "length xs \<le> 32 * ((length xs + 31) div 32)" by presburger
    then show ?thesis using ok p by (auto simp: waiter_ok_def pset_room_def split: option.splits)
  qed
  moreover have "(\<exists>al. s' = (l, w\<lparr>w_script := al\<rparr>)) \<or> (ticket_count s' = length xs + 1 \<and>
      w_count (snd s') = w_count w \<and> w_pollset (snd s') = None \<and> waiter_wait n wd s' = None)"
    if "waiter_add_null (l, w) = Some (None, s')" for s'
    using waiter_add_null_none [OF ok that] wait_without_poll_set [of "snd s'" n wd "fst s'"] by auto
  ultimately show ?thesis using s tc p by auto
qed

theorem reachable_waiter_safe_witness:
  "w_count (snd demo_timer) = int (ticket_count demo_timer) \<and>
    (\<exists>p ps. w_pollset (snd demo_timer) = Some p \<and> w_psets (snd demo_timer) p = Some ps \<and>
      ticket_count demo_timer < length (ps_pfd ps)) \<and>
    waiter_wait 9 demo_world demo_timer \<noteq> None \<and> waiter_wait_timeout 9 demo_world 7 demo_timer \<noteq> None \<and>
    (\<exists>s'. waiter_destroy 9 demo_timer = Some s' \<and> no_waiter s')"
  using reachable_waiter_safe [OF demo_clears _ demo_timer_reachable, of 9 7]
  by (simp add: ticket_count_ok [OF demo_timer_ok])

section \<open>Waiting\<close>

text \<open>Claim C16: \<open>waiter_wait\<close> computes the abstract wait on the sequence of tickets: \<open>poll\<close> gets the
  descriptors of the descriptor tickets and the time to the first deadline (or no timeout, or is
  skipped when a deadline has passed); if it fails nothing changes; otherwise exactly the tickets
  that fire and are not yet marked are marked, expired timers restart, and the callbacks of the
  newly marked tickets run once each, in list order.\<close>
theorem waiter_wait_refines:
  assumes acts: "callbacks_clear wd clears eff" and ok: "waiter_ok (l, w) xs"
    and p: "w_pollset w = Some p" and n: "length xs \<le> n"
  shows "\<exists>ps'. waiter_wait n wd (l, w) =
    (case wait_outcome wd (tickets_in w xs) (w_env w) of (rc, c, e) \<Rightarrow>
       if rc < 0 then Some (l, put_pset (Some p) ps' (w\<lparr>w_env := e\<rparr>))
       else (case wd_time wd e of (tv, e) \<Rightarrow>
         map_option (\<lambda>e. (l, put_pset (Some p) ps'
             (w\<lparr>w_heap := heap_after (after_wait clears c (time_ms tv)) xs (w_heap w), w_env := e\<rparr>)))
           (run_calls eff (filter (\<lambda>tk. calls_back c (time_ms tv) (snd tk)) (tickets_of w xs)) e)))"
proof -
  from waiter_wait_ok [OF acts ok p n] obtain ps' where
    "waiter_wait n wd (l, w) = map_option (\<lambda>w. (l, put_pset (Some p) ps' w)) (wait_result wd clears eff xs w)"
    by blast
  then show ?thesis
    by (intro exI [of _ ps']) (simp add: wait_result_def option.map_comp comp_def split: prod.split)
qed

theorem waiter_wait_refines_witness:
  "\<exists>ps'. waiter_wait 1 demo_world (fst demo_timer, snd demo_timer) =
    (case wait_outcome demo_world (tickets_in (snd demo_timer) [4]) (w_env (snd demo_timer)) of (rc, c, e) \<Rightarrow>
       if rc < 0 then Some (fst demo_timer, put_pset (Some 5) ps' (snd demo_timer\<lparr>w_env := e\<rparr>))
       else (case wd_time demo_world e of (tv, e) \<Rightarrow>
         map_option (\<lambda>e. (fst demo_timer, put_pset (Some 5) ps'
             (snd demo_timer\<lparr>w_heap := heap_after (after_wait (\<lambda>_. True) c (time_ms tv)) [4] (w_heap (snd demo_timer)),
               w_env := e\<rparr>)))
           (run_calls (\<lambda>fn d t e. Some (e @ [t]))
             (filter (\<lambda>tk. calls_back c (time_ms tv) (snd tk)) (tickets_of (snd demo_timer) [4])) e)))"
  by (rule waiter_wait_refines [OF demo_clears]) (simp_all add: demo_timer_ok demo_timer_ticket)

text \<open>The first deadline is not later than that of any timer.\<close>

lemma first_deadline_le: "first_deadline d ks \<le> d"
proof (induction ks arbitrary: d)
  case (Cons k ks)
  have "first_deadline (if wt_type k = WATCH_TYPE_TIMEOUT \<and> deadline k < d then deadline k else d) ks \<le>
      (if wt_type k = WATCH_TYPE_TIMEOUT \<and> deadline k < d then deadline k else d)" by (rule Cons)
  also have "\<dots> \<le> d" by (simp add: less_imp_le)
  finally show ?case by simp
qed simp

lemma first_deadline_timer:
  "k \<in> set ks \<Longrightarrow> wt_type k = WATCH_TYPE_TIMEOUT \<Longrightarrow> first_deadline d ks \<le> deadline k"
proof (induction ks arbitrary: d)
  case (Cons j ks)
  show ?case
  proof (cases "j = k")
    case True
    let ?d = "if deadline k < d then deadline k else d"
    have "first_deadline ?d ks \<le> ?d" by (rule first_deadline_le)
    also have "\<dots> \<le> deadline k" by (simp add: not_less)
    finally show ?thesis using True Cons.prems by simp
  qed (use Cons in auto)
qed simp

text \<open>Claim C17: An expired timer is always reported: if its deadline has passed when the wait reads the
  clock and the clock does not go back, \<open>waiter_wait\<close> does not call \<open>poll\<close> at all, restarts the
  timer at the second reading, and marks it, or runs its callback, unless it was already marked.\<close>
theorem expired_timer_reported:
  assumes acts: "callbacks_clear wd clears eff" and total: "\<And>fn d t e. eff fn d t e \<noteq> None"
    and ok: "waiter_ok (l, w) xs" and n: "length xs \<le> n"
    and t: "t \<in> set xs" "wt_type (ticket_at w t) = WATCH_TYPE_TIMEOUT" "wt_updated (ticket_at w t) = 0"
    and now: "wd_time wd (w_env w) = (tv, e)" "deadline (ticket_at w t) \<le> time_ms tv" "time_ms tv < wait_forever"
    and later: "wd_time wd e = (tv', e')" "time_ms tv \<le> time_ms tv'"
  shows "\<exists>w'. waiter_wait n wd (l, w) = Some (l, w') \<and>
    w_pollset w' = w_pollset w \<and>
    wt_start (ticket_at w' t) = time_ms tv' \<and>
    (wt_fn (ticket_at w t) = None \<longrightarrow> wt_updated (ticket_at w' t) = 1) \<and>
    (\<exists>tks. run_calls eff tks e' = Some (w_env w') \<and> (\<forall>(u, k) \<in> set tks. wt_fn k \<noteq> None) \<and>
      (wt_fn (ticket_at w t) \<noteq> None \<longrightarrow> (t, ticket_at w t) \<in> set tks))"
proof -
  from t(1) have "xs \<noteq> []" by auto
  with ok_pollset [OF ok] obtain p where p: "w_pollset w = Some p" by blast
  let ?k = "ticket_at w t" and ?ks = "tickets_in w xs" and ?now = "time_ms tv'"
  have "?k \<in> set ?ks" using t(1) by (simp add: tickets_in_def)
  from first_deadline_timer [OF this t(2), of wait_forever] now(2) have
    d: "first_deadline wait_forever ?ks \<le> time_ms tv" by simp
  have out: "wait_outcome wd ?ks (w_env w) = (0, None, e)"
    using d now(1,3) by (auto simp: wait_outcome_def Let_def)
  let ?tks = "filter (\<lambda>tk. calls_back None ?now (snd tk)) (tickets_of w xs)"
  obtain e'' where run: "run_calls eff ?tks e' = Some e''" using run_calls_total [of eff, OF total] by blast
  from waiter_wait_ok [OF acts ok p n] obtain ps' where
    "waiter_wait n wd (l, w) = map_option (\<lambda>w. (l, put_pset (Some p) ps' w)) (wait_result wd clears eff xs w)"
    by blast
  with out later(1) run have ww: "waiter_wait n wd (l, w) = Some (l, put_pset (Some p) ps'
      (w\<lparr>w_heap := heap_after (after_wait clears None ?now) xs (w_heap w), w_env := e''\<rparr>))"
    by (simp add: wait_result_def)
  have "deadline ?k \<le> ?now" using now(2) later(2) by simp
  then have f: "reported None ?now ?k" using t by (simp add: reported_def fires_def)
  have "t \<in> dom (w_heap w)" using ok t(1) by (simp add: waiter_ok_def)
  then have at: "the (heap_after (after_wait clears None ?now) xs (w_heap w) t) = after_wait clears None ?now ?k"
    using t(1) by (auto simp: heap_after_def ticket_at_def)
  have mem: "(t, ?k) \<in> set ?tks" if "wt_fn ?k \<noteq> None"
    using that f t(1) by (simp add: calls_back_def tickets_of_def)
  have fn: "\<forall>(u, k) \<in> set ?tks. wt_fn k \<noteq> None" by (auto simp: calls_back_def)
  show ?thesis
  proof (intro exI conjI, rule ww)
    show "run_calls eff ?tks e' = Some (w_env (put_pset (Some p) ps'
        (w\<lparr>w_heap := heap_after (after_wait clears None ?now) xs (w_heap w), w_env := e''\<rparr>)))"
      using run by simp
  qed (use at f t(2) mem fn in \<open>simp_all add: ticket_at_def after_wait_def reported_def\<close>)
qed

text \<open>The demo timer once more, with its callback 42 and its start five seconds in the past.\<close>

definition demo_expired :: "ptr list waiter" where
  "demo_expired = (snd demo_timer)\<lparr>w_heap := (w_heap (snd demo_timer))(4 \<mapsto>
     \<lparr>wt_type = WATCH_TYPE_TIMEOUT, wt_arg = 5, wt_fn = Some 42, wt_data = 0,
      wt_start = 5000, wt_updated = 0, wt_waiter = True\<rparr>)\<rparr>"

lemma demo_expired_ok: "waiter_ok (fst demo_timer, demo_expired) [4]"
  unfolding demo_expired_def
proof (rule waiter_ok_heap)
  show "waiter_ok (fst demo_timer, snd demo_timer) [4]" using demo_timer_ok by simp
  have dm: "dom (w_heap (snd demo_timer)) = {4}" using waiter_ok_dom(1) [OF demo_timer_ok] by simp
  then show "dom ((w_heap (snd demo_timer))(4 \<mapsto> \<lparr>wt_type = WATCH_TYPE_TIMEOUT, wt_arg = 5, wt_fn = Some 42,
      wt_data = 0, wt_start = 5000, wt_updated = 0, wt_waiter = True\<rparr>)) = set [4]"
    by simp
next
  fix t k
  assume "((w_heap (snd demo_timer))(4 \<mapsto> \<lparr>wt_type = WATCH_TYPE_TIMEOUT, wt_arg = 5, wt_fn = Some 42,
      wt_data = 0, wt_start = 5000, wt_updated = 0, wt_waiter = True\<rparr>)) t = Some k"
  then show "wt_waiter k" using waiter_ok_dom(2) [OF demo_timer_ok] by (auto split: if_splits)
qed

theorem expired_timer_reported_witness:
  "\<exists>w'. waiter_wait 1 demo_world (fst demo_timer, demo_expired) = Some (fst demo_timer, w') \<and>
    w_pollset w' = w_pollset demo_expired \<and>
    wt_start (ticket_at w' 4) = time_ms ten_seconds \<and>
    (wt_fn (ticket_at demo_expired 4) = None \<longrightarrow> wt_updated (ticket_at w' 4) = 1) \<and>
    (\<exists>tks. run_calls (\<lambda>fn d t e. Some (e @ [t])) tks (w_env demo_expired) = Some (w_env w') \<and>
      (\<forall>(u, k) \<in> set tks. wt_fn k \<noteq> None) \<and>
      (wt_fn (ticket_at demo_expired 4) \<noteq> None \<longrightarrow> (4, ticket_at demo_expired 4) \<in> set tks))"
  by (rule expired_timer_reported [OF demo_clears _ demo_expired_ok _ _ _ _ demo_time _ _ demo_time])
    (simp_all add: ticket_at_def demo_expired_def demo_timer_ticket deadline_def interval_def wait_forever_def)

text \<open>Claim C18: \<open>waiter_wait_timeout\<close> leaves the tickets of the waiter and the count as it found them
  (its own timer is gone from the list). It returns -1 if \<open>poll\<close> did not fail and the given time has
  passed at the second reading of the clock, and 0 in all other cases: when the time has not passed,
  and also when \<open>poll\<close> failed, even if the time has passed by then and no ticket was marked, where the
  comment in \<open>waiter.h\<close> promises a nonzero result.\<close>
theorem waiter_wait_timeout_result:
  assumes acts: "callbacks_clear wd clears eff" and ok: "waiter_ok (l, w) xs" and p: "w_pollset w \<noteq> None"
    and n: "length xs < n" and len: "length xs + 1 < 2 ^ 31"
    and r: "waiter_wait_timeout n wd ms (l, w) = Some (r, (l', w'))"
    and t0: "wd_time wd (w_env w) = (tv, e)"
    and out: "wait_outcome wd (tickets_in w xs @ [stack_ticket ms (time_ms tv)]) e = (rc, c, e1)"
    and t1: "wd_time wd e1 = (tv1, e2)"
  shows "waiter_ok (l', w') xs \<and> w_count w' = w_count w \<and> w_pollset w' = w_pollset w \<and>
    r = (if 0 \<le> rc \<and> time_ms tv + ucast ms \<le> time_ms tv1 then - 1 else 0)"
proof -
  from p obtain p where p: "w_pollset w = Some p" by auto
  let ?t = "w_brk w" and ?w1 = "bounded_wait wd ms w"
  from ok have new: "?t \<notin> set xs" by (auto simp: waiter_ok_def)
  from waiter_wait_timeout_eq [OF acts ok p n len, of ms] obtain ps' l2 where
    eq: "waiter_wait_timeout n wd ms (l, w) =
      map_option (\<lambda>w'. (bounded_result w' ?t, (l2, (put_pset (Some p) ps' w')
          \<lparr>w_count := w_count w, w_heap := (w_heap w')(?t := None)\<rparr>)))
        (wait_result wd clears eff (xs @ [?t]) ?w1)" by blast
  from r [unfolded eq] obtain w2 where w2: "wait_result wd clears eff (xs @ [?t]) ?w1 = Some w2"
    "r = bounded_result w2 ?t" "w' = (put_pset (Some p) ps' w2)\<lparr>w_count := w_count w, w_heap := (w_heap w2)(?t := None)\<rparr>"
    by auto
  note tk = bounded_wait_tickets [OF new t0, of ms]
  have env: "w_env ?w1 = e" and at: "w_heap ?w1 ?t = Some (stack_ticket ms (time_ms tv))"
    using t0 by (simp_all add: bounded_wait_def)
  have "r = (if 0 \<le> rc \<and> time_ms tv + ucast ms \<le> time_ms tv1 then - 1 else 0)"
  proof (cases "rc < 0")
    case True
    then have "ticket_at w2 ?t = stack_ticket ms (time_ms tv)"
      using w2(1) tk env out at by (auto simp: wait_result_def ticket_at_def)
    with True w2(2) show ?thesis by (simp add: bounded_result_def stack_ticket_def zero_ticket_def)
  next
    case False
    then have "ticket_at w2 ?t = after_wait clears c (time_ms tv1) (stack_ticket ms (time_ms tv))"
      using w2(1) tk env out at t1 by (auto simp: wait_result_def ticket_at_def heap_after_def)
    with False w2(2) show ?thesis
      by (simp add: bounded_result_def after_wait_def reported_def fires_def deadline_def interval_def
          stack_ticket_def zero_ticket_def)
  qed
  moreover have "w_pollset w' = w_pollset w"
    using w2(3) wait_result_fields [OF w2(1)] t0 by (simp add: bounded_wait_def)
  ultimately show ?thesis
    using waiter_wait_timeout_ok [OF acts ok p n len r] w2(3) by simp
qed

theorem waiter_wait_timeout_result_witness:
  "\<exists>r l' w'. waiter_wait_timeout 2 demo_world 7 (fst demo_timer, demo_expired) = Some (r, (l', w')) \<and>
    waiter_ok (l', w') [4] \<and> w_count w' = w_count demo_expired \<and> w_pollset w' = w_pollset demo_expired \<and>
    r = (if 0 \<le> (0::int) \<and> time_ms ten_seconds + ucast (7::u32) \<le> time_ms ten_seconds then - 1 else 0)"
proof -
  have p: "w_pollset demo_expired = Some 5" "w_env demo_expired = []"
    by (simp_all add: demo_expired_def demo_timer_ticket)
  have len: "length [4::ptr] < 2" "length [4::ptr] + 1 < 2 ^ 31" by simp_all
  have "waiter_wait_timeout 2 demo_world 7 (fst demo_timer, demo_expired) \<noteq> None"
    using waiter_wait_timeout_eq [OF demo_clears demo_expired_ok p(1) len, of 7]
      wait_result_total [of "\<lambda>fn d t e. Some (e @ [t])" demo_world "\<lambda>_. True"
        "[4] @ [w_brk demo_expired]" "bounded_wait demo_world 7 demo_expired"] by auto
  then obtain r l' w' where
    r: "waiter_wait_timeout 2 demo_world 7 (fst demo_timer, demo_expired) = Some (r, (l', w'))" by auto
  have at: "ticket_at demo_expired 4 = \<lparr>wt_type = WATCH_TYPE_TIMEOUT, wt_arg = 5, wt_fn = Some 42, wt_data = 0,
      wt_start = 5000, wt_updated = 0, wt_waiter = True\<rparr>"
    by (simp add: demo_expired_def ticket_at_def)
  have out: "wait_outcome demo_world (tickets_in demo_expired [4] @ [stack_ticket 7 (time_ms ten_seconds)]) [] =
      (0, None, [])"
    by (simp add: wait_outcome_def at deadline_def interval_def stack_ticket_def wait_forever_def)
  have pn: "w_pollset demo_expired \<noteq> None" using p by simp
  from waiter_wait_timeout_result [OF demo_clears demo_expired_ok pn len r _ out demo_time] demo_time p(2) r
  show ?thesis by auto
qed

section \<open>Synchronising timers\<close>

text \<open>Claim C19: After \<open>waiter_synchronize\<close> every timer starts when the first timer of the list with its
  interval starts, so timers with equal intervals expire together; tickets, their order and
  everything but the start of timers stay the same.\<close>
theorem waiter_synchronize_aligns:
  assumes ok: "waiter_ok (l, w) xs" and n: "length xs \<le> n"
  shows "\<exists>w'. waiter_synchronize n (l, w) = Some (l, w') \<and> waiter_ok (l, w') xs \<and>
    (\<forall>t \<in> set xs. ticket_at w' t = (ticket_at w t)\<lparr>wt_start := wt_start (ticket_at w' t)\<rparr> \<and>
      (wt_type (ticket_at w t) \<noteq> WATCH_TYPE_TIMEOUT \<longrightarrow> ticket_at w' t = ticket_at w t)) \<and>
    (\<forall>t \<in> set xs. \<forall>u \<in> set xs. wt_type (ticket_at w t) = WATCH_TYPE_TIMEOUT \<longrightarrow>
      same_timer (ticket_at w t) (ticket_at w u) \<longrightarrow>
      deadline (ticket_at w' t) = deadline (ticket_at w' u))"
proof -
  from waiter_synchronize_spec [OF ok n] obtain w' where
    w': "waiter_synchronize n (l, w) = Some (l, w')" "only_tickets xs w w'"
      "tickets_in w' xs = map (sync_to (tickets_in w xs)) (tickets_in w xs)" by blast
  let ?ks = "tickets_in w xs"
  have at: "ticket_at w' t = sync_to ?ks (ticket_at w t)" if "t \<in> set xs" for t
    using w'(3) that by (auto simp: tickets_in_def)
  have start: "sync_to ?ks k = k\<lparr>wt_start := wt_start (sync_to ?ks k)\<rparr>" for k
    by (cases k) (auto simp: sync_to_def split: option.splits)
  have ok': "waiter_ok (l, w') xs" by (rule waiter_synchronize_ok [OF ok n w'(1)])
  have dl: "deadline (ticket_at w' t) = deadline (ticket_at w' u)"
    if "t \<in> set xs" "u \<in> set xs" "wt_type (ticket_at w t) = WATCH_TYPE_TIMEOUT"
      "same_timer (ticket_at w t) (ticket_at w u)" for t u
    using sync_to_deadline [of "ticket_at w t" ?ks "ticket_at w u"] that at by (simp add: tickets_in_def)
  have "ticket_at w' t = ticket_at w t" if "t \<in> set xs" "wt_type (ticket_at w t) \<noteq> WATCH_TYPE_TIMEOUT" for t
    using at that by (simp add: sync_to_def)
  with w'(1) ok' dl at start show ?thesis by metis
qed

theorem waiter_synchronize_aligns_witness:
  "\<exists>w'. waiter_synchronize 1 (fst demo_timer, demo_expired) = Some (fst demo_timer, w') \<and>
    waiter_ok (fst demo_timer, w') [4] \<and>
    (\<forall>t \<in> set [4]. ticket_at w' t = (ticket_at demo_expired t)\<lparr>wt_start := wt_start (ticket_at w' t)\<rparr> \<and>
      (wt_type (ticket_at demo_expired t) \<noteq> WATCH_TYPE_TIMEOUT \<longrightarrow> ticket_at w' t = ticket_at demo_expired t)) \<and>
    (\<forall>t \<in> set [4]. \<forall>u \<in> set [4]. wt_type (ticket_at demo_expired t) = WATCH_TYPE_TIMEOUT \<longrightarrow>
      same_timer (ticket_at demo_expired t) (ticket_at demo_expired u) \<longrightarrow>
      deadline (ticket_at w' t) = deadline (ticket_at w' u))"
  by (rule waiter_synchronize_aligns [OF demo_expired_ok]) simp

section \<open>What the waiter does not survive\<close>

text \<open>Waiting on a waiter without a poll set follows a null pointer: a fresh waiter has none,
  and \<open>waiter_add_null\<close> whose second allocation fails returns null but leaves the new ticket on the
  list, the count unchanged and the waiter without a poll set.\<close>
lemma null_poll_set:
  assumes no: "no_waiter s0" and cr: "waiter_create s0 = (True, s)"
    and al: "alloc (w_script (snd s)) = (True, al)" "alloc al = (False, al')"
  shows "waiter_wait n wd s = None \<and>
    (\<exists>s'. waiter_add_null s = Some (None, s') \<and> w_count (snd s') = 0 \<and>
      dll (fst s') [w_brk (snd s)] \<and> waiter_wait n wd s' = None)"
proof -
  obtain l w where s: "s = (l, w)" by (cases s)
  from cr have p: "w_pollset w = None" "w_count w = 0"
    by (auto simp: waiter_create_def s split: prod.splits bool.splits)
  from waiter_create_ok [OF no cr] have ok: "waiter_ok s []" .
  obtain h hdr where l: "l = (h, hdr)" by (cases l)
  let ?t = "w_brk w" and ?z = "\<lparr>li_next = None, li_prev = None\<rparr>"
  have "dll (h(?t \<mapsto> ?z), hdr) []" using ok by (simp add: s l waiter_ok_def dll_def)
  from list_append_dll [OF this, of ?t] obtain h' hdr' where
    app: "list_append ?t (h(?t \<mapsto> ?z), hdr) = Some (h', hdr')" "dll (h', hdr') [?t]" by auto
  have "dom (w_psets w) = set_option (w_pollset w)" using ok by (simp add: s waiter_ok_def)
  then show ?thesis using app al p by (simp add: s l wait_without_poll_set waiter_add_null_def Let_def pollset_grow_eq)
qed

text \<open>A callback must not delete its own ticket: after the call the traversal reads the next
  pointer of the ticket, which is freed memory.\<close>
lemma deleting_callback:
  assumes ok: "waiter_ok (l, w) (t # xs)" and n: "length (t # xs) \<le> n"
    and call: "\<And>s. wd_call wd fn d t s = waiter_ticket_delete t s"
    and tick: "wt_type (ticket_at w t) = WATCH_TYPE_TIMEOUT" "wt_updated (ticket_at w t) = 0"
      "wt_fn (ticket_at w t) = Some fn" "wt_data (ticket_at w t) = d"
    and out: "wait_outcome wd (tickets_in w (t # xs)) (w_env w) = (rc, c, e)" "0 \<le> rc"
    and now: "wd_time wd e = (tv, e')" "deadline (ticket_at w t) \<le> time_ms tv"
  shows "waiter_wait n wd (l, w) = None"
proof -
  obtain m where m: "n = Suc m" using n by (cases n) auto
  from ok have dl: "dll l (t # xs)" by (simp add: waiter_ok_def)
  have "\<exists>p. w_pollset w = Some p" by (rule ok_pollset [OF ok]) simp
  then obtain p ps where room: "wait_room p ps w (t # xs)" using ok_wait_room [OF ok] by auto
  from waiter_wait_scanned [OF dl n room out(1)] obtain ps' where
    ww: "waiter_wait n wd (l, w) = list_for_each n (wait_notify wd (Some p) rc (time_ms tv)) (Some t)
      (l, put_pset (Some p) ps' (w\<lparr>w_env := e'\<rparr>))"
    using out(2) now(1) by (auto simp: Let_def now_ms_def)
  have "t \<in> dom (w_heap w)" using ok by (simp add: waiter_ok_def)
  then have k: "w_heap w t = Some (ticket_at w t)" by (auto simp: ticket_at_def)
  let ?k = "(ticket_at w t)\<lparr>wt_start := time_ms tv, wt_updated := 1\<rparr>"
  let ?w = "put_pset (Some p) ps' (w\<lparr>w_env := e'\<rparr>)"
  let ?d = "waiter_ticket_delete t (l, ?w\<lparr>w_heap := (w_heap w)(t \<mapsto> ?k)\<rparr>)"
  have "wait_notify wd (Some p) rc (time_ms tv) t (l, ?w) = ?d"
    using k tick now(2) call by (simp add: wait_notify_def wait_fresh_def deadline_def)
  moreover have "get_next (fst (fst s')) (Some t) = None" if "?d = Some s'" for s'
    using that by (auto simp: waiter_ticket_delete_def free_ticket_def get_next_def split: bind_splits if_splits)
  ultimately show ?thesis using m ww by (cases ?d) simp_all
qed

end
