(* ===== verification/Event_Loop.thy ===== *)
theory Event_Loop
  imports Waiter_Run Name_Server_Run
begin

text \<open>
  The main loop of \<open>src/ns.c\<close> on top of the event waiter: \<open>main\<close> adds the control socket to a
  waiter, registers \<open>ctrl_port_fn\<close> as the callback of the ticket and waits until the socket is
  closed. The environment of the waiter is the state of the name server with the datagrams that
  wait in the socket.
\<close>

section \<open>The loop\<close>

type_synonym ns_env = "ns_state \<times> rx list"

text \<open>
  The callback: \<open>qrtr_recvfrom\<close> takes the first datagram (on an empty queue it would block), and
  the ticket is cleared at the end (the \<open>clears\<close> of \<open>world_of\<close>).
\<close>

definition ctrl_port_cb :: "ptr \<Rightarrow> ptr \<Rightarrow> ptr \<Rightarrow> ns_env \<Rightarrow> ns_env option" where
  "ctrl_port_cb fn d t e = (case e of
     (s, []) \<Rightarrow> None
   | (s, r # rs) \<Rightarrow> map_option (\<lambda>(rc, s). (s, rs)) (ctrl_port_fn r s))"

definition ns_world :: "(ns_env \<Rightarrow> timeval) \<Rightarrow>
    ((int \<times> u16) list \<Rightarrow> int \<Rightarrow> ns_env \<Rightarrow> int \<times> (nat \<Rightarrow> u16) \<times> ns_env) \<Rightarrow> ns_env world" where
  "ns_world clock poll = world_of (\<lambda>e. (clock e, e)) poll (\<lambda>fn. True) ctrl_port_cb"

text \<open>
  \<open>main\<close> hands the ticket to \<open>waiter_ticket_callback\<close> without a check; \<open>fn\<close> and \<open>ctx\<close> are the
  addresses of \<open>ctrl_port_fn\<close> and of the context.
\<close>

definition ns_main_waiter :: "ptr \<Rightarrow> ptr \<Rightarrow> int \<Rightarrow> ns_env wst \<Rightarrow> ns_env wst option" where
  "ns_main_waiter fn ctx sock st = do {
     (tkt, st) \<leftarrow> waiter_add_fd sock st;
     t \<leftarrow> tkt;
     w \<leftarrow> waiter_ticket_callback t (Some fn) ctx (snd st);
     Some (fst st, w) }"

text \<open>The first \<open>k\<close> iterations of the loop; the waiter has one ticket.\<close>

fun ns_main_waits :: "nat \<Rightarrow> ns_env world \<Rightarrow> ns_env wst \<Rightarrow> ns_env wst option" where
  "ns_main_waits 0 wd st = Some st"
| "ns_main_waits (Suc k) wd st =
     (if ctx_sock (fst (w_env (snd st))) \<ge> 0 then do { st \<leftarrow> waiter_wait 1 wd st; ns_main_waits k wd st }
      else Some st)"

section \<open>The loop handles every datagram once, in order\<close>

text \<open>The ticket of the control socket, ready to fire again.\<close>

definition ctrl_ticket :: "ptr \<Rightarrow> ptr \<Rightarrow> int \<Rightarrow> waiter_ticket" where
  "ctrl_ticket fn ctx sock = zero_ticket\<lparr>wt_waiter := True, wt_type := WATCH_TYPE_FD,
     wt_arg := word_of_int sock, wt_fn := Some fn, wt_data := ctx\<rparr>"

definition listening :: "ptr \<Rightarrow> ptr \<Rightarrow> int \<Rightarrow> ptr \<Rightarrow> ns_env wst \<Rightarrow> bool" where
  "listening fn ctx sock t st \<longleftrightarrow> waiter_ok st [t] \<and> w_heap (snd st) t = Some (ctrl_ticket fn ctx sock)"

text \<open>
  \<open>poll\<close> as documented: it reports the control socket readable when a datagram is waiting, and
  touches nothing else.
\<close>

definition polls_socket :: "((int \<times> u16) list \<Rightarrow> int \<Rightarrow> ns_env \<Rightarrow> int \<times> (nat \<Rightarrow> u16) \<times> ns_env) \<Rightarrow> int \<Rightarrow> bool" where
  "polls_socket poll sock \<longleftrightarrow> (\<forall>ms s r rs. \<exists>rc rv.
     poll [(sock, poll_events)] ms (s, r # rs) = (rc, rv, (s, r # rs)) \<and> 0 < rc \<and> and (rv 0) poll_events \<noteq> 0)"

lemma ns_main_waiter_listening:
  assumes ok: "waiter_ok (l, w) []" and al: "alloc_all (w_script w)"
  shows "\<exists>st t. ns_main_waiter fn ctx sock (l, w) = Some st \<and> listening fn ctx sock t st \<and>
    w_env (snd st) = w_env w"
proof -
  obtain al1 where al1: "alloc (w_script w) = (True, al1)" "alloc_all al1"
    using alloc_all_alloc [OF al] by (cases "alloc (w_script w)") auto
  obtain al2 where al2: "alloc al1 = (True, al2)"
    using alloc_all_alloc [OF al1(2)] by (cases "alloc al1") auto
  let ?t = "w_brk w"
  from waiter_add_null_spec [OF ok _ _ al1(1) al2] obtain l1 w1 where
    add: "waiter_add_null (l, w) = Some (Some ?t, (l1, w1))" "waiter_ok (l1, w1) [?t]"
      "w_heap w1 = (w_heap w)(?t \<mapsto> zero_ticket\<lparr>wt_waiter := True\<rparr>)" "w_env w1 = w_env w"
    by auto
  let ?w2 = "w1\<lparr>w_heap := (w_heap w)(?t \<mapsto> ctrl_ticket fn ctx sock)\<rparr>"
  have "waiter_ok (l1, ?w2) [?t]"
  proof (rule waiter_ok_heap [OF add(2)])
    have "dom (w_heap w) = {}" using waiter_ok_dom(1) [OF ok] by simp
    then show "dom ((w_heap w)(?t \<mapsto> ctrl_ticket fn ctx sock)) = set [?t]" by simp
    fix t k
    assume "((w_heap w)(?t \<mapsto> ctrl_ticket fn ctx sock)) t = Some k"
    then show "wt_waiter k"
      using \<open>dom (w_heap w) = {}\<close> by (auto simp: ctrl_ticket_def split: if_splits)
  qed
  moreover have "ns_main_waiter fn ctx sock (l, w) = Some (l1, ?w2)"
    using add by (simp add: ns_main_waiter_def waiter_add_fd_def waiter_ticket_set_fd_def
        waiter_ticket_callback_def ctrl_ticket_def)
  ultimately show ?thesis using add(4)
    by (intro exI [of _ "(l1, ?w2)"] exI [of _ ?t]) (simp add: listening_def)
qed

lemma ns_wait_step:
  assumes li: "listening fn ctx sock t (l, w)" and poll: "polls_socket poll sock"
    and sock: "- (2 ^ 31) \<le> sock" "sock < 2 ^ 31"
    and env: "w_env w = (s, r # rs)"
  shows "case ctrl_port_fn r s of
      None \<Rightarrow> waiter_wait 1 (ns_world clock poll) (l, w) = None
    | Some (rc, s') \<Rightarrow> \<exists>w'. waiter_wait 1 (ns_world clock poll) (l, w) = Some (l, w') \<and>
        listening fn ctx sock t (l, w') \<and> w_env w' = (s', rs)"
proof -
  let ?wd = "ns_world clock poll" and ?k = "ctrl_ticket fn ctx sock"
  have acts: "callbacks_clear ?wd (\<lambda>fn. True) ctrl_port_cb"
    unfolding ns_world_def by (rule world_of_clears)
  from li have ok: "waiter_ok (l, w) [t]" and hp: "w_heap w t = Some ?k"
    by (simp_all add: listening_def)
  then have ks: "tickets_in w [t] = [?k]" "tickets_of w [t] = [(t, ?k)]"
    by (simp_all add: tickets_in_def tickets_of_def ticket_at_def)
  have fd: "filedes ?k = sock"
    using sock by (simp add: filedes_def ctrl_ticket_def sint_sbintrunc' signed_take_bit_int_eq_self)
  obtain rc rv where p: "poll [(sock, poll_events)] (- 1) (s, r # rs) = (rc, rv, (s, r # rs))" "0 < rc"
    "and (rv 0) poll_events \<noteq> 0" using poll unfolding polls_socket_def by blast
  have "wt_type ?k = WATCH_TYPE_FD" by (simp add: ctrl_ticket_def)
  then have "ticket_fds [?k] = [sock]" using fd by (simp add: ticket_fds_def)
  moreover have "first_deadline wait_forever [?k] = wait_forever" by (simp add: ctrl_ticket_def)
  ultimately have out: "wait_outcome ?wd [?k] (s, r # rs) = (rc, Some sock, (s, r # rs))"
    using p by (simp add: wait_outcome_def poll_outcome_def ns_world_def world_of_def upt_rec)
  have cb: "calls_back (Some sock) now ?k" for now
    using fd by (simp add: calls_back_def reported_def fires_def) (simp add: ctrl_ticket_def zero_ticket_def)
  have same: "after_wait (\<lambda>fn. True) (Some sock) now ?k = ?k" for now
    using cb [of now]
    by (simp add: after_wait_def calls_back_def reported_def) (simp add: ctrl_ticket_def zero_ticket_def)
  have heap: "heap_after (after_wait (\<lambda>fn. True) (Some sock) now) [t] (w_heap w) = w_heap w" for now
    using hp same by (auto simp: heap_after_def)
  obtain q where q: "w_pollset w = Some q" using ok by (auto simp: waiter_ok_def pset_room_def split: option.splits)
  have len: "length [t] \<le> 1" by simp
  from waiter_wait_ok [OF acts ok q len] obtain ps' where
    ww: "waiter_wait 1 ?wd (l, w) =
      map_option (\<lambda>w. (l, put_pset (Some q) ps' w)) (wait_result ?wd (\<lambda>fn. True) ctrl_port_cb [t] w)"
    and keep: "\<forall>s'. waiter_wait 1 ?wd (l, w) = Some s' \<longrightarrow> waiter_ok s' [t]" by blast
  have "wait_result ?wd (\<lambda>fn. True) ctrl_port_cb [t] w =
      map_option (\<lambda>e. w\<lparr>w_env := e\<rparr>) (ctrl_port_cb fn ctx t (s, r # rs))"
  proof -
    have k: "wt_fn ?k = Some fn" "wt_data ?k = ctx" by (simp_all add: ctrl_ticket_def zero_ticket_def)
    have "wd_time ?wd e = (clock e, e)" for e by (simp add: ns_world_def world_of_def)
    moreover have "w\<lparr>w_heap := w_heap w, w_env := e\<rparr> = w\<lparr>w_env := e\<rparr>" for e by (cases w) simp
    ultimately show ?thesis
      using out ks env p(2) cb heap k by (cases "ctrl_port_cb fn ctx t (s, r # rs)") (simp_all add: wait_result_def)
  qed
  with ww keep hp show ?thesis
    by (cases "ctrl_port_fn r s") (auto simp: ctrl_port_cb_def listening_def)
qed

lemma ns_main_waits_listening:
  assumes "listening fn ctx sock t (l, w)" "polls_socket poll sock" "- (2 ^ 31) \<le> sock" "sock < 2 ^ 31"
    "w_env w = (s, rs)"
  shows "case ns_main_loop rs s of
      None \<Rightarrow> ns_main_waits (length rs) (ns_world clock poll) (l, w) = None
    | Some s' \<Rightarrow> \<exists>w'. ns_main_waits (length rs) (ns_world clock poll) (l, w) = Some (l, w') \<and>
        listening fn ctx sock t (l, w') \<and> fst (w_env w') = s'"
  using assms
proof (induction rs arbitrary: w s)
  case (Cons r rs)
  show ?case
  proof (cases "ctx_sock s \<ge> 0")
    case True
    note st = ns_wait_step [OF Cons.prems, of clock]
    show ?thesis
    proof (cases "ctrl_port_fn r s")
      case None
      with st True Cons.prems(5) show ?thesis by simp
    next
      case (Some res)
      then obtain rc s' w' where "ctrl_port_fn r s = Some (rc, s')"
        "waiter_wait 1 (ns_world clock poll) (l, w) = Some (l, w')"
        "listening fn ctx sock t (l, w')" "w_env w' = (s', rs)"
        using st by (cases res) auto
      then have eqs: "ns_main_loop (r # rs) s = ns_main_loop rs s'"
        "ns_main_waits (length (r # rs)) (ns_world clock poll) (l, w) = ns_main_waits (length rs) (ns_world clock poll) (l, w')"
        using Cons.prems(5) True by simp_all
      from \<open>listening fn ctx sock t (l, w')\<close> Cons.prems(2-4) \<open>w_env w' = (s', rs)\<close> show ?thesis unfolding eqs by (rule Cons.IH)
    qed
  qed (use Cons.prems in simp)
qed simp

lemma ns_main_waits_loop:
  assumes "listening fn ctx sock t (l, w)" "polls_socket poll sock" "- (2 ^ 31) \<le> sock" "sock < 2 ^ 31"
    "w_env w = (s, rs)"
  shows "map_option (\<lambda>st. fst (w_env (snd st))) (ns_main_waits (length rs) (ns_world clock poll) (l, w)) =
    ns_main_loop rs s"
  using ns_main_waits_listening [OF assms, of clock] by (auto split: option.splits)

end
