(* ===== verification/Qmi.thy ===== *)
theory Qmi
  imports Util Wire Qrtr_Client
begin

text \<open>
  The QMI codec \<open>src/lib/qmi.c\<close>, driven by descriptors (\<open>struct qmi_elem_info\<close> of
  \<open>include/libqrtr.h\<close>). Messages and C structs are byte lists, pointers into them are positions;
  reading or writing outside a list is undefined (\<open>None\<close>), and so is looking past the end of a
  descriptor array. A pointer to an element of a descriptor array is the rest of the array from
  that element on. Results are the C return values: negative errno values or byte counts, with
  \<open>uint32_t\<close> arithmetic on words. \<open>be\<close> is the byte order of the host. Logging is left out.
\<close>

section \<open>Descriptors\<close>

datatype qmi_elem_type = QMI_EOTI | QMI_OPT_FLAG | QMI_DATA_LEN | QMI_UNSIGNED_1_BYTE
  | QMI_UNSIGNED_2_BYTE | QMI_UNSIGNED_4_BYTE | QMI_UNSIGNED_8_BYTE | QMI_SIGNED_1_BYTE_ENUM
  | QMI_SIGNED_2_BYTE_ENUM | QMI_SIGNED_4_BYTE_ENUM | QMI_STRUCT | QMI_STRING

datatype qmi_array_type = NO_ARRAY | STATIC_ARRAY | VAR_LEN_ARRAY

datatype qmi_elem_info = Elem (data_type: qmi_elem_type) (elem_len: u32) (elem_size: u32)
  (array_type: qmi_array_type) (tlv_type: u8) (offset: nat) (ei_array: "qmi_elem_info list option")

definition basic_type :: "qmi_elem_type \<Rightarrow> bool" where
  "basic_type t \<longleftrightarrow> t \<in> {QMI_UNSIGNED_1_BYTE, QMI_UNSIGNED_2_BYTE, QMI_UNSIGNED_4_BYTE,
     QMI_UNSIGNED_8_BYTE, QMI_SIGNED_1_BYTE_ENUM, QMI_SIGNED_2_BYTE_ENUM, QMI_SIGNED_4_BYTE_ENUM}"

abbreviation ei_size :: "qmi_elem_info list \<Rightarrow> nat" where
  "ei_size \<equiv> size_list size"

lemma ei_array_smaller: "ei_array e = Some a \<Longrightarrow> ei_size a < size e"
  by (cases e) simp

lemma ei_array_less: "size e + k < n \<Longrightarrow> (case ei_array e of None \<Rightarrow> 0 | Some a \<Rightarrow> ei_size a) < n"
  by (cases "ei_array e") (auto dest: ei_array_smaller)

lemma elem_pos: "0 < size (e :: qmi_elem_info)"
  by (cases e) simp

section \<open>Memory\<close>

definition mem_copy :: "u8 list \<Rightarrow> nat \<Rightarrow> u8 list \<Rightarrow> nat \<Rightarrow> nat \<Rightarrow> u8 list option" where
  "mem_copy dst d src s n =
     (if d + n \<le> length dst \<and> s + n \<le> length src
      then Some (take d dst @ take n (drop s src) @ drop (d + n) dst) else None)"

definition mem_put :: "u8 list \<Rightarrow> nat \<Rightarrow> u8 list \<Rightarrow> u8 list option" where
  "mem_put dst d bs = mem_copy dst d bs 0 (length bs)"

text \<open>\<open>strlen\<close>: undefined when there is no terminating zero in the memory.\<close>

fun c_strlen :: "u8 list \<Rightarrow> nat option" where
  "c_strlen [] = None"
| "c_strlen (b # bs) = (if b = 0 then Some 0 else map_option Suc (c_strlen bs))"

definition strlen_at :: "u8 list \<Rightarrow> nat \<Rightarrow> nat option" where
  "strlen_at src s = (if s < length src then c_strlen (drop s src) else None)"

text \<open>The bytes of a 16-bit and of a local 32-bit variable in the memory of the host.\<close>

definition half_bytes :: "bool \<Rightarrow> u16 \<Rightarrow> u8 list" where
  "half_bytes be x = (if be then [ucast (drop_bit 8 x), ucast x] else [ucast x, ucast (drop_bit 8 x)])"

definition half_word :: "bool \<Rightarrow> u8 \<Rightarrow> u8 \<Rightarrow> u16" where
  "half_word be b0 b1 = (if be then or (push_bit 8 (ucast b0)) (ucast b1) else or (ucast b0) (push_bit 8 (ucast b1)))"

text \<open>A pointer advanced by a result that is not negative.\<close>

definition advance :: "nat \<Rightarrow> int \<Rightarrow> nat option" where
  "advance p rc = (if rc < 0 then None else Some (p + nat rc))"

section \<open>Walking descriptors\<close>

fun skip_same :: "u8 \<Rightarrow> qmi_elem_info list \<Rightarrow> qmi_elem_info list option" where
  "skip_same ty [] = None"
| "skip_same ty (e # es) = (if tlv_type e = ty then skip_same ty es else Some (e # es))"

definition skip_to_next_elem :: "qmi_elem_info list \<Rightarrow> nat \<Rightarrow> qmi_elem_info list option" where
  "skip_to_next_elem ei level = (case ei of
     [] \<Rightarrow> None
   | e # es \<Rightarrow> if level > 1 then Some es else skip_same (tlv_type e) es)"

lemma skip_same_size: "skip_same ty es = Some r \<Longrightarrow> ei_size r \<le> ei_size es"
  by (induction es) (auto split: if_splits)

lemma skip_to_next_elem_size: "skip_to_next_elem (e # es) level = Some r \<Longrightarrow> ei_size r \<le> ei_size es"
  by (auto simp: skip_to_next_elem_def skip_same_size split: if_splits)

fun find_ei :: "qmi_elem_info list \<Rightarrow> u32 \<Rightarrow> qmi_elem_info list option option" where
  "find_ei [] ty = None"
| "find_ei (e # es) ty =
     (if data_type e = QMI_EOTI then Some None
      else if tlv_type e = ucast ty then Some (Some (e # es))
      else find_ei es ty)"

text \<open>
  The minimum length of a message; \<open>int\<close> and \<open>uint32_t\<close> are mixed in the code, so the sum is kept
  modulo \<open>2 ^ 32\<close> and read as signed at the end.
\<close>

definition len_size :: "u32 \<Rightarrow> u32" where
  "len_size sz = (if sz = 1 then 1 else 2)"

definition string_len_size :: "u32 \<Rightarrow> u32" where
  "string_len_size n = (if n \<le> 256 then 1 else 2)"

function calc_min_loop :: "nat \<Rightarrow> qmi_elem_info list \<Rightarrow> u32 \<Rightarrow> u32 option" where
  "calc_min_loop level [] acc = None"
| "calc_min_loop level (e # es) acc =
     (let hdr = (if level = 1 then 3 else 0) in
      if data_type e = QMI_EOTI then Some acc
      else if data_type e = QMI_OPT_FLAG then
        do { next \<leftarrow> skip_to_next_elem (e # es) level; calc_min_loop level next acc }
      else if data_type e = QMI_DATA_LEN then calc_min_loop level es (acc + len_size (elem_size e))
      else if data_type e = QMI_STRUCT then
        (case ei_array e of
           None \<Rightarrow> calc_min_loop level es (acc + hdr)
         | Some a \<Rightarrow> do { m \<leftarrow> calc_min_loop (Suc level) a 0; calc_min_loop level es (acc + m + hdr) })
      else if data_type e = QMI_STRING then
        calc_min_loop level es (acc + (if level > 1 then string_len_size (elem_len e) else 0) +
          elem_len e * elem_size e + hdr)
      else calc_min_loop level es (acc + elem_len e * elem_size e + hdr))"
  by pat_completeness auto
termination
proof (relation "measure (\<lambda>(level, ei, acc). ei_size ei)", goal_cases)
  case (2 level e es acc hdr nxt)
  then show ?case using skip_to_next_elem_size [of e es level nxt] elem_pos [of e] by simp
next
  case (5 level e es acc hdr a)
  then show ?case using ei_array_smaller [of e a] by simp
qed (simp_all add: elem_pos)

definition qmi_calc_min_msg_len :: "qmi_elem_info list option \<Rightarrow> nat \<Rightarrow> int option" where
  "qmi_calc_min_msg_len ei level = (case ei of
     None \<Rightarrow> Some 0
   | Some a \<Rightarrow> map_option sint (calc_min_loop level a 0))"

section \<open>Encoding\<close>

text \<open>\<open>qmi_encode_basic_elem\<close> and \<open>qmi_decode_basic_elem\<close> have the same body.\<close>

fun copy_elems :: "nat \<Rightarrow> nat \<Rightarrow> u8 list \<Rightarrow> nat \<Rightarrow> u8 list \<Rightarrow> nat \<Rightarrow> u8 list option" where
  "copy_elems 0 sz dst d src s = Some dst"
| "copy_elems (Suc n) sz dst d src s = do {
     dst \<leftarrow> mem_copy dst d src s sz;
     copy_elems n sz dst (d + sz) src (s + sz) }"

definition qmi_encode_basic_elem ::
  "u8 list \<Rightarrow> nat \<Rightarrow> u8 list \<Rightarrow> nat \<Rightarrow> u32 \<Rightarrow> u32 \<Rightarrow> (int \<times> u8 list) option" where
  "qmi_encode_basic_elem dst d src s len sz =
     map_option (Pair (sint (len * sz))) (copy_elems (unat len) (unat sz) dst d src s)"

text \<open>
  The local variables of \<open>qmi_encode\<close>: the output memory, \<open>buf_dst\<close>, \<open>tlv_pointer\<close>, \<open>tlv_len\<close>,
  \<open>encoded_bytes\<close>, \<open>data_len_value\<close> and \<open>encode_tlv\<close>.
\<close>

record enc =
  en_mem :: "u8 list"
  en_dst :: nat
  en_tlvp :: nat
  en_tlv_len :: u32
  en_bytes :: u32
  en_dlen :: u32
  en_tlv :: bool

definition enc_init :: "nat \<Rightarrow> u8 list \<Rightarrow> nat \<Rightarrow> enc" where
  "enc_init level mem d = \<lparr>en_mem = mem, en_dst = (if level = 1 then d + 3 else d), en_tlvp = d,
     en_tlv_len = 0, en_bytes = 0, en_dlen = 0, en_tlv = False\<rparr>"

definition update_encode :: "int \<Rightarrow> u8 list \<Rightarrow> enc \<Rightarrow> enc option" where
  "update_encode rc mem st = do {
     d \<leftarrow> advance (en_dst st) rc;
     Some (st\<lparr>en_mem := mem, en_dst := d, en_bytes := en_bytes st + word_of_int rc,
       en_tlv_len := en_tlv_len st + word_of_int rc, en_tlv := True\<rparr>) }"

text \<open>The number of elements; \<open>None\<close> is the invalid length.\<close>

definition enc_count :: "qmi_elem_info \<Rightarrow> u32 \<Rightarrow> u32 option" where
  "enc_count e dlen = (case array_type e of
     NO_ARRAY \<Rightarrow> Some 1
   | STATIC_ARRAY \<Rightarrow> Some (elem_len e)
   | VAR_LEN_ARRAY \<Rightarrow> if dlen = 0 \<or> elem_len e < dlen then None else Some dlen)"

definition qmi_encode_string_elem :: "bool \<Rightarrow> qmi_elem_info \<Rightarrow> u8 list \<Rightarrow> nat \<Rightarrow> u8 list \<Rightarrow> nat \<Rightarrow> u32 \<Rightarrow> nat \<Rightarrow>
    (int \<times> u8 list) option" where
  "qmi_encode_string_elem be e dst d src s out_len level = do {
     n \<leftarrow> strlen_at src s;
     let string_len = (of_nat n :: u32);
     let string_len_sz = string_len_size (elem_len e);
     (if string_len > elem_len e then Some (- EINVAL, dst)
      else if level = 1 then
        (if unat string_len + 3 > unat out_len then Some (- EINVAL, dst)
         else qmi_encode_basic_elem dst d src s string_len (elem_size e))
      else if string_len + string_len_sz > out_len then Some (- EINVAL, dst)
      else do {
        (rc, dst) \<leftarrow> qmi_encode_basic_elem dst d (mem_bytes be string_len) 0 1 string_len_sz;
        d' \<leftarrow> advance d rc;
        (rc', dst) \<leftarrow> qmi_encode_basic_elem dst d' src s string_len (elem_size e);
        rc'' \<leftarrow> int32 (rc + rc');
        Some (rc'', dst) }) }"

text \<open>
  The cases of the switch other than \<open>QMI_STRUCT\<close>: an early return, or the next element and the
  updated variables.
\<close>

definition enc_data_len :: "bool \<Rightarrow> u8 list \<Rightarrow> nat \<Rightarrow> u32 \<Rightarrow> nat \<Rightarrow> qmi_elem_info \<Rightarrow> qmi_elem_info list \<Rightarrow> enc \<Rightarrow>
    ((int \<times> u8 list) + (qmi_elem_info list \<times> enc)) option" where
  "enc_data_len be src s out_len level e es st = do {
     var \<leftarrow> mem_copy (mem_bytes be (en_dlen st)) 0 src s (unat (elem_size e));
     let dlen = mem_word be var;
     let data_len_sz = len_size (elem_size e);
     let st = st\<lparr>en_dlen := dlen\<rparr>;
     (if unat (data_len_sz + en_bytes st) + 3 > unat out_len then Some (Inl (- EINVAL, en_mem st))
      else do {
        (rc, mem) \<leftarrow> qmi_encode_basic_elem (en_mem st) (en_dst st) var 0 1 data_len_sz;
        st \<leftarrow> update_encode rc mem st;
        (if dlen = 0 then do { next \<leftarrow> skip_to_next_elem es level; Some (Inr (next, st)) }
         else Some (Inr (es, st\<lparr>en_tlv := False\<rparr>))) }) }"

definition enc_elem :: "bool \<Rightarrow> u8 list \<Rightarrow> nat \<Rightarrow> u32 \<Rightarrow> nat \<Rightarrow> qmi_elem_info \<Rightarrow> qmi_elem_info list \<Rightarrow> enc \<Rightarrow>
    ((int \<times> u8 list) + (qmi_elem_info list \<times> enc)) option" where
  "enc_elem be src s out_len level e es st =
     (if data_type e = QMI_OPT_FLAG then do {
        flag \<leftarrow> array_at src s;
        next \<leftarrow> (if flag \<noteq> 0 then Some es else skip_to_next_elem (e # es) level);
        Some (Inr (next, st)) }
      else if data_type e = QMI_DATA_LEN then enc_data_len be src s out_len level e es st
      else if basic_type (data_type e) then
        (if unat (en_dlen st * elem_size e + en_bytes st) + 3 > unat out_len
         then Some (Inl (- EINVAL, en_mem st))
         else do {
           (rc, mem) \<leftarrow> qmi_encode_basic_elem (en_mem st) (en_dst st) src s (en_dlen st) (elem_size e);
           st \<leftarrow> update_encode rc mem st;
           Some (Inr (es, st)) })
      else if data_type e = QMI_STRING then do {
        (rc, mem) \<leftarrow> qmi_encode_string_elem be e (en_mem st) (en_dst st) src s (out_len - en_bytes st) level;
        (if rc < 0 then Some (Inl (rc, mem))
         else do { st \<leftarrow> update_encode rc mem st; Some (Inr (es, st)) }) }
      else Some (Inl (- EINVAL, en_mem st)))"

text \<open>Writing the type and length of a finished TLV at the top level.\<close>

definition enc_tlv :: "nat \<Rightarrow> u8 \<Rightarrow> enc \<Rightarrow> enc option" where
  "enc_tlv level ty st =
     (if en_tlv st \<and> level = 1 then do {
        mem \<leftarrow> mem_put (en_mem st) (en_tlvp st) [ty, ucast (en_tlv_len st), ucast (drop_bit 8 (en_tlv_len st))];
        Some (st\<lparr>en_mem := mem, en_bytes := en_bytes st + 3, en_tlvp := en_dst st, en_tlv_len := 0,
          en_dst := en_dst st + 3, en_tlv := False\<rparr>) }
      else Some st)"

lemma enc_elem_size:
  assumes "enc_elem be src s out_len level e es st = Some (Inr (r, st'))"
  shows "ei_size r \<le> ei_size es"
proof -
  have tl: "skip_to_next_elem es level = Some r \<Longrightarrow> ei_size r \<le> ei_size es" for r
    by (cases es) (auto simp: skip_to_next_elem_def dest: skip_to_next_elem_size skip_same_size split: if_splits)
  show ?thesis
    using assms by (auto simp: enc_elem_def enc_data_len_def Let_def split: if_splits bind_splits
        dest: tl skip_to_next_elem_size)
qed

text \<open>
  \<open>qmi_encode\<close> from the loop on, and the loop of \<open>qmi_encode_struct_elem\<close> with the number of
  elements that are left and the bytes so far.
\<close>

function enc_loop :: "bool \<Rightarrow> u8 list \<Rightarrow> nat \<Rightarrow> u32 \<Rightarrow> nat \<Rightarrow> qmi_elem_info list \<Rightarrow> enc \<Rightarrow> (int \<times> u8 list) option"
  and enc_structs :: "bool \<Rightarrow> u8 list \<Rightarrow> nat \<Rightarrow> u32 \<Rightarrow> nat \<Rightarrow> qmi_elem_info list option \<Rightarrow> nat \<Rightarrow> nat \<Rightarrow> u8 list \<Rightarrow> nat \<Rightarrow>
    int \<Rightarrow> (int \<times> u8 list) option" where
  "enc_loop be src base out_len level [] st = None"
| "enc_loop be src base out_len level (e # es) st =
     (if data_type e = QMI_EOTI then Some (sint (en_bytes st), en_mem st)
      else case enc_count e (en_dlen st) of
        None \<Rightarrow> Some (- EINVAL, en_mem st)
      | Some n \<Rightarrow>
          let st = st\<lparr>en_dlen := n\<rparr> in
          if data_type e = QMI_STRUCT then do {
            (rc, mem) \<leftarrow> enc_structs be src (base + offset e) (out_len - en_bytes st) (Suc level) (ei_array e)
              (unat (elem_size e)) (unat n) (en_mem st) (en_dst st) 0;
            (if rc < 0 then Some (rc, mem)
             else do {
               st \<leftarrow> update_encode rc mem st;
               st \<leftarrow> enc_tlv level (tlv_type e) st;
               enc_loop be src base out_len level es st }) }
          else do {
            r \<leftarrow> enc_elem be src (base + offset e) out_len level e es st;
            (case r of
               Inl res \<Rightarrow> Some res
             | Inr (next, st) \<Rightarrow> do {
                 st \<leftarrow> enc_tlv level (tlv_type e) st;
                 enc_loop be src base out_len level next st }) })"
| "enc_structs be src s out_len level arr sz 0 mem d bytes = Some (bytes, mem)"
| "enc_structs be src s out_len level arr sz (Suc n) mem d bytes = do {
     (rc, mem) \<leftarrow> (case arr of
        None \<Rightarrow> Some (0, mem)
      | Some a \<Rightarrow> enc_loop be src s (out_len - word_of_int bytes) level a (enc_init level mem d));
     (if rc < 0 then Some (rc, mem)
      else do {
        bytes \<leftarrow> int32 (bytes + rc);
        enc_structs be src (s + sz) out_len level arr sz n mem (d + nat rc) bytes }) }"
  by pat_completeness auto
termination
proof (relation "inv_image (less_than <*lex*> less_than) (\<lambda>x. case x of
    Inl (be, src, base, out_len, level, es, st) \<Rightarrow> (ei_size es, 0)
  | Inr (be, src, s, out_len, level, arr, sz, n, mem, d, bytes) \<Rightarrow>
      (case arr of None \<Rightarrow> 0 | Some a \<Rightarrow> ei_size a, Suc n))", goal_cases)
  case (2 be src base out_len level e es st n st')
  then show ?case using ei_array_smaller [of e] elem_pos [of e] by (auto split: option.splits)
next
  case (4 be src base out_len level e)
  then show ?case using elem_pos [of e] by (auto dest!: enc_elem_size)
qed (auto simp: elem_pos)

definition qmi_encode :: "bool \<Rightarrow> qmi_elem_info list option \<Rightarrow> u8 list \<Rightarrow> nat \<Rightarrow> u8 list \<Rightarrow> nat \<Rightarrow> u32 \<Rightarrow> nat \<Rightarrow>
    (int \<times> u8 list) option" where
  "qmi_encode be ei dst d src s out_len level = (case ei of
     None \<Rightarrow> Some (0, dst)
   | Some a \<Rightarrow> enc_loop be src s out_len level a (enc_init level dst d))"

definition qmi_encode_struct_elem :: "bool \<Rightarrow> qmi_elem_info \<Rightarrow> u8 list \<Rightarrow> nat \<Rightarrow> u8 list \<Rightarrow> nat \<Rightarrow> u32 \<Rightarrow> u32 \<Rightarrow> nat \<Rightarrow>
    (int \<times> u8 list) option" where
  "qmi_encode_struct_elem be e dst d src s n out_len level =
     enc_structs be src s out_len level (ei_array e) (unat (elem_size e)) (unat n) dst d 0"

section \<open>Decoding\<close>

definition qmi_decode_basic_elem ::
  "u8 list \<Rightarrow> nat \<Rightarrow> u8 list \<Rightarrow> nat \<Rightarrow> u32 \<Rightarrow> u32 \<Rightarrow> (int \<times> u8 list) option" where
  "qmi_decode_basic_elem dst d src s len sz =
     map_option (Pair (sint (len * sz))) (copy_elems (unat len) (unat sz) dst d src s)"

text \<open>
  The local variables of \<open>qmi_decode\<close>: the C struct, the position \<open>buf_src\<close>, \<open>decoded_bytes\<close> and
  \<open>data_len_value\<close>.
\<close>

record dec =
  de_out :: "u8 list"
  de_pos :: nat
  de_bytes :: u32
  de_dlen :: u32

definition update_decode :: "int \<Rightarrow> dec \<Rightarrow> dec option" where
  "update_decode rc st = do {
     p \<leftarrow> advance (de_pos st) rc;
     Some (st\<lparr>de_pos := p, de_bytes := de_bytes st + word_of_int rc\<rparr>) }"

definition decode_tlv :: "u8 list \<Rightarrow> nat \<Rightarrow> (u32 \<times> u32) option" where
  "decode_tlv inb p = do {
     t \<leftarrow> array_at inb p;
     l0 \<leftarrow> array_at inb (p + 1);
     l1 \<leftarrow> array_at inb (p + 2);
     Some (ucast t, or (ucast l0) (push_bit 8 (ucast l1))) }"

text \<open>
  The beginning of an iteration: \<open>Dec_Return\<close> leaves the function, \<open>Dec_Skip\<close> is an optional TLV
  that the descriptor does not know, \<open>Dec_Elem\<close> goes on with an element and its TLV length.
\<close>

datatype dec_go = Dec_Return int | Dec_Skip dec | Dec_Elem "qmi_elem_info list" u32 dec

definition dec_start :: "u8 list \<Rightarrow> u32 \<Rightarrow> nat \<Rightarrow> qmi_elem_info list \<Rightarrow> qmi_elem_info list \<Rightarrow> dec \<Rightarrow> dec_go option" where
  "dec_start inb in_len level ei temp st =
     (if level = 1 then do {
        (ty, len) \<leftarrow> decode_tlv inb (de_pos st);
        let st = st\<lparr>de_pos := de_pos st + 3, de_bytes := de_bytes st + 3\<rparr>;
        t \<leftarrow> find_ei ei ty;
        (case t of
           None \<Rightarrow>
             if ty < 16 then Some (Dec_Return (- EINVAL))
             else Some (Dec_Skip (st\<lparr>de_pos := de_pos st + unat len, de_bytes := de_bytes st + len\<rparr>))
         | Some es \<Rightarrow> Some (Dec_Elem es len st)) }
      else (case temp of
          [] \<Rightarrow> None
        | e # es \<Rightarrow>
            if data_type e = QMI_EOTI then Some (Dec_Return (sint (de_bytes st)))
            else Some (Dec_Elem temp (in_len - de_bytes st) st)))"

text \<open>The flag of an optional element and the length of an array come before the element itself.\<close>

definition dec_flag :: "nat \<Rightarrow> qmi_elem_info list \<Rightarrow> dec \<Rightarrow> (qmi_elem_info list \<times> dec) option" where
  "dec_flag base t st = (case t of
     [] \<Rightarrow> None
   | e # es \<Rightarrow>
       if data_type e = QMI_OPT_FLAG
       then do { out \<leftarrow> mem_put (de_out st) (base + offset e) [1]; Some (es, st\<lparr>de_out := out\<rparr>) }
       else Some (t, st))"

definition dec_data_len :: "bool \<Rightarrow> u8 list \<Rightarrow> nat \<Rightarrow> qmi_elem_info list \<Rightarrow> u32 \<Rightarrow> dec \<Rightarrow>
    (qmi_elem_info list \<times> u32 \<times> dec) option" where
  "dec_data_len be inb base t len st = (case t of
     [] \<Rightarrow> None
   | e # es \<Rightarrow>
       if data_type e = QMI_DATA_LEN then do {
         let sz = len_size (elem_size e);
         (rc, var) \<leftarrow> qmi_decode_basic_elem (mem_bytes be (de_dlen st)) 0 inb (de_pos st) 1 sz;
         let dlen = mem_word be var;
         out \<leftarrow> mem_put (de_out st) (base + offset e) (mem_bytes be dlen);
         st \<leftarrow> update_decode rc (st\<lparr>de_out := out, de_dlen := dlen\<rparr>);
         Some (es, len - sz, st) }
       else Some (t, len, st))"

definition dec_count :: "qmi_elem_info \<Rightarrow> u32 \<Rightarrow> u32 option" where
  "dec_count e dlen = (case array_type e of
     NO_ARRAY \<Rightarrow> Some 1
   | STATIC_ARRAY \<Rightarrow> Some (elem_len e)
   | VAR_LEN_ARRAY \<Rightarrow> if dlen > elem_len e then None else Some dlen)"

definition qmi_decode_string_elem :: "bool \<Rightarrow> qmi_elem_info \<Rightarrow> u8 list \<Rightarrow> nat \<Rightarrow> u8 list \<Rightarrow> nat \<Rightarrow> u32 \<Rightarrow> nat \<Rightarrow>
    (int \<times> u8 list) option" where
  "qmi_decode_string_elem be e dst d src s tlv_len level = do {
     (string_len, decoded) \<leftarrow>
       (if level = 1 then Some (tlv_len, 0)
        else do {
          (rc, var) \<leftarrow> qmi_decode_basic_elem (mem_bytes be 0) 0 src s 1 (string_len_size (elem_len e));
          Some (mem_word be var, rc) });
     (if string_len > elem_len e then Some (- EINVAL, dst)
      else if string_len > tlv_len then Some (- EFAULT, dst)
      else do {
        s' \<leftarrow> advance s decoded;
        (rc, dst) \<leftarrow> qmi_decode_basic_elem dst d src s' string_len (elem_size e);
        dst \<leftarrow> mem_put dst (d + unat string_len) [0];
        bytes \<leftarrow> int32 (decoded + rc);
        Some (bytes, dst) }) }"

text \<open>The cases of the switch other than \<open>QMI_STRUCT\<close>.\<close>

definition dec_elem :: "bool \<Rightarrow> u8 list \<Rightarrow> nat \<Rightarrow> nat \<Rightarrow> qmi_elem_info \<Rightarrow> u32 \<Rightarrow> dec \<Rightarrow> (int \<times> u8 list + dec) option" where
  "dec_elem be inb base level e len st =
     (if basic_type (data_type e) then do {
        (rc, out) \<leftarrow> qmi_decode_basic_elem (de_out st) (base + offset e) inb (de_pos st) (de_dlen st) (elem_size e);
        st \<leftarrow> update_decode rc (st\<lparr>de_out := out\<rparr>);
        Some (Inr st) }
      else if data_type e = QMI_STRING then do {
        (rc, out) \<leftarrow> qmi_decode_string_elem be e (de_out st) (base + offset e) inb (de_pos st) len level;
        (if rc < 0 then Some (Inl (rc, out))
         else do { st \<leftarrow> update_decode rc (st\<lparr>de_out := out\<rparr>); Some (Inr st) }) }
      else Some (Inl (- EINVAL, de_out st)))"

text \<open>What precedes the switch: an early return, or the element, its TLV length and the count.\<close>

definition dec_prepare :: "bool \<Rightarrow> u8 list \<Rightarrow> nat \<Rightarrow> qmi_elem_info list \<Rightarrow> u32 \<Rightarrow> dec \<Rightarrow>
    ((int \<times> u8 list) + (qmi_elem_info \<times> qmi_elem_info list \<times> u32 \<times> dec)) option" where
  "dec_prepare be inb base t len st = do {
     (t, st) \<leftarrow> dec_flag base t st;
     (t, len, st) \<leftarrow> dec_data_len be inb base t len st;
     (case t of
        [] \<Rightarrow> None
      | e # es \<Rightarrow>
          (case dec_count e (de_dlen st) of
             None \<Rightarrow> Some (Inl (- EINVAL, de_out st))
           | Some n \<Rightarrow> Some (Inr (e, es, len, st\<lparr>de_dlen := n\<rparr>)))) }"

lemma dec_prepare_size:
  assumes "dec_prepare be inb base t len st = Some (Inr (e, es, len', st'))"
  shows "size e + ei_size es < ei_size t"
  using assms by (auto simp: dec_prepare_def dec_flag_def dec_data_len_def Let_def
      split: bind_splits list.splits option.splits if_splits)

lemma dec_prepare_pos:
  assumes "dec_prepare be inb base t len st = Some (Inr (e, es, len', st'))"
  shows "de_pos st \<le> de_pos st'"
  using assms by (auto simp: dec_prepare_def dec_flag_def dec_data_len_def Let_def update_decode_def advance_def
      split: bind_splits list.splits option.splits if_splits)

lemma find_ei_size: "find_ei ei ty = Some (Some t) \<Longrightarrow> ei_size t \<le> ei_size ei"
  by (induction ei ty rule: find_ei.induct) (auto split: if_splits)

lemma dec_start_elem:
  assumes "dec_start inb in_len level ei temp st = Some (Dec_Elem t len st')"
  shows "level = 1 \<Longrightarrow> ei_size t \<le> ei_size ei \<and> de_pos st' = de_pos st + 3 \<and> de_pos st + 2 < length inb"
    and "level \<noteq> 1 \<Longrightarrow> t = temp \<and> st' = st"
  using assms by (auto simp: dec_start_def decode_tlv_def Let_def find_ei_size
      split: bind_splits option.splits if_splits list.splits)

lemma dec_start_skip:
  assumes "dec_start inb in_len level ei temp st = Some (Dec_Skip st')"
  shows "level = 1 \<and> de_pos st + 3 \<le> de_pos st' \<and> de_pos st + 2 < length inb"
  using assms by (auto simp: dec_start_def decode_tlv_def Let_def
      split: bind_splits option.splits if_splits list.splits)

lemma dec_elem_pos:
  "dec_elem be inb base level e len st = Some (Inr st') \<Longrightarrow> de_pos st \<le> de_pos st'"
  by (auto simp: dec_elem_def update_decode_def advance_def split: if_splits bind_splits)

lemma dec_sub:
  assumes "dec_start inb in_len level ei temp st = Some (Dec_Elem t len st1)"
    and "dec_prepare be inb base t len st1 = Some (Inr (e, es, len', st2))"
  shows "(level = 1 \<longrightarrow> size e + ei_size es < ei_size ei \<and> de_pos st + 3 \<le> de_pos st2 \<and> de_pos st < length inb) \<and>
    (level \<noteq> 1 \<longrightarrow> size e + ei_size es < ei_size temp)"
  using dec_start_elem [OF assms(1)] dec_prepare_size [OF assms(2)] dec_prepare_pos [OF assms(2)] by auto

lemma dec_sub_array:
  assumes "dec_start inb in_len level ei temp st = Some (Dec_Elem t len st1)"
    and "dec_prepare be inb base t len st1 = Some (Inr (e, es, len', st2))"
  shows "(case ei_array e of None \<Rightarrow> 0 | Some a \<Rightarrow> ei_size a) < ei_size (if level = 1 then ei else temp)"
  using dec_sub [OF assms] by (intro ei_array_less [where k = "ei_size es"]) (auto split: if_split)

lemma update_decode_pos: "update_decode rc st = Some st' \<Longrightarrow> de_pos st \<le> de_pos st'"
  by (auto simp: update_decode_def advance_def split: bind_splits if_splits)

text \<open>
  The checks of \<open>qmi_decode_struct_elem\<close> after its loop, with the number \<open>left\<close> of elements that
  were not decoded.
\<close>

definition dec_structs_end :: "u32 \<Rightarrow> nat \<Rightarrow> nat \<Rightarrow> int \<Rightarrow> int" where
  "dec_structs_end tlv_len level left bytes =
     (if level \<le> 2 \<and> word_of_int bytes \<noteq> tlv_len \<or>
         level > 2 \<and> (0 < left \<or> tlv_len < word_of_int bytes)
      then - EFAULT else bytes)"

function dec_loop :: "bool \<Rightarrow> u8 list \<Rightarrow> nat \<Rightarrow> u32 \<Rightarrow> nat \<Rightarrow> qmi_elem_info list \<Rightarrow> qmi_elem_info list \<Rightarrow> dec \<Rightarrow>
    (int \<times> u8 list) option"
  and dec_structs :: "bool \<Rightarrow> u8 list \<Rightarrow> u32 \<Rightarrow> nat \<Rightarrow> qmi_elem_info list option \<Rightarrow> nat \<Rightarrow> nat \<Rightarrow> u8 list \<Rightarrow> nat \<Rightarrow> nat \<Rightarrow>
    int \<Rightarrow> (int \<times> u8 list) option" where
  "dec_loop be inb base in_len level ei temp st =
     (if \<not> de_bytes st < in_len then Some (sint (de_bytes st), de_out st)
      else do {
        go \<leftarrow> dec_start inb in_len level ei temp st;
        (case go of
           Dec_Return rc \<Rightarrow> Some (rc, de_out st)
         | Dec_Skip st \<Rightarrow> dec_loop be inb base in_len level ei temp st
         | Dec_Elem t len st \<Rightarrow> do {
             r \<leftarrow> dec_prepare be inb base t len st;
             (case r of
                Inl res \<Rightarrow> Some res
              | Inr (e, es, len, st) \<Rightarrow>
                  if data_type e = QMI_STRUCT then do {
                    (rc, out) \<leftarrow> dec_structs be inb len (Suc level) (ei_array e) (unat (elem_size e))
                      (unat (de_dlen st)) (de_out st) (base + offset e) (de_pos st) 0;
                    (if rc < 0 then Some (rc, out)
                     else do {
                       st \<leftarrow> update_decode rc (st\<lparr>de_out := out\<rparr>);
                       dec_loop be inb base in_len level ei es st }) }
                  else do {
                    r \<leftarrow> dec_elem be inb base level e len st;
                    (case r of
                       Inl res \<Rightarrow> Some res
                     | Inr st \<Rightarrow> dec_loop be inb base in_len level ei es st) }) }) })"
| "dec_structs be inb tlv_len level arr sz n out d p bytes =
     (if n = 0 \<or> \<not> (word_of_int bytes < tlv_len) then Some (dec_structs_end tlv_len level n bytes, out)
      else do {
        a \<leftarrow> arr;
        (rc, out) \<leftarrow> dec_loop be inb d (tlv_len - word_of_int bytes) level a a
          \<lparr>de_out = out, de_pos = p, de_bytes = 0, de_dlen = 0\<rparr>;
        (if rc < 0 then Some (rc, out)
         else do {
           bytes \<leftarrow> int32 (bytes + rc);
           dec_structs be inb tlv_len level arr sz (n - 1) out (d + sz) (p + nat rc) bytes }) })"
  by pat_completeness auto
termination
proof (relation "inv_image (less_than <*lex*> less_than) (\<lambda>x. case x of
    Inl (be, inb, base, in_len, level, ei, temp, st) \<Rightarrow>
      if level = 1 then (ei_size ei, length inb - de_pos st) else (ei_size temp, 0)
  | Inr (be, inb, tlv_len, level, arr, sz, n, out, d, p, bytes) \<Rightarrow>
      (case arr of None \<Rightarrow> 0 | Some a \<Rightarrow> ei_size a, length inb + n))", goal_cases)
  case 1
  show ?case by (intro wf_inv_image wf_lex_prod wf_less_than)
next
  case 2
  then show ?case
    by - (clarify, drule dec_start_skip, simp, linarith)
next
  case 3
  then show ?case
    by - (clarify, drule (1) dec_sub_array, simp split: if_splits)
next
  case 4
  then show ?case
    by - (clarify, drule (1) dec_sub, drule update_decode_pos, simp split: if_splits, linarith+)
next
  case 5
  then show ?case
    by - (clarify, drule (1) dec_sub, drule dec_elem_pos, simp split: if_splits, linarith+)
next
  case 6
  then show ?case by (simp, linarith)
next
  case 7
  then show ?case by simp
qed

text \<open>
  The function itself and the decoding of structs. The first descriptor array is never a null
  pointer at the top level; the array of a nested element may be one.
\<close>

definition qmi_decode :: "bool \<Rightarrow> qmi_elem_info list option \<Rightarrow> u8 list \<Rightarrow> nat \<Rightarrow> u8 list \<Rightarrow> nat \<Rightarrow> u32 \<Rightarrow> nat \<Rightarrow>
    (int \<times> u8 list) option" where
  "qmi_decode be ei out d inb p in_len level =
     (if in_len = 0 then Some (0, out)
      else do { a \<leftarrow> ei;
        dec_loop be inb d in_len level a a \<lparr>de_out = out, de_pos = p, de_bytes = 0, de_dlen = 0\<rparr> })"

definition qmi_decode_struct_elem :: "bool \<Rightarrow> qmi_elem_info \<Rightarrow> u8 list \<Rightarrow> nat \<Rightarrow> u8 list \<Rightarrow> nat \<Rightarrow> u32 \<Rightarrow> u32 \<Rightarrow> nat \<Rightarrow>
    (int \<times> u8 list) option" where
  "qmi_decode_struct_elem be e out d inb p n tlv_len level =
     dec_structs be inb tlv_len level (ei_array e) (unat (elem_size e)) (unat n) out d p 0"

section \<open>Messages\<close>

text \<open>
  The header has seven bytes: type, transaction id, message id and length, the last three as
  16-bit values of the host. \<open>get_half\<close> and the writes need the bytes to be there.
\<close>

definition get_half :: "bool \<Rightarrow> u8 list \<Rightarrow> nat \<Rightarrow> u16 option" where
  "get_half be bs p = do { b0 \<leftarrow> array_at bs p; b1 \<leftarrow> array_at bs (p + 1); Some (half_word be b0 b1) }"

definition qmi_header_bytes :: "bool \<Rightarrow> u8 \<Rightarrow> u16 \<Rightarrow> u16 \<Rightarrow> u16 \<Rightarrow> u8 list" where
  "qmi_header_bytes be ty txn mid len = ty # half_bytes be txn @ half_bytes be mid @ half_bytes be len"

definition qmi_encode_message :: "bool \<Rightarrow> qrtr_packet \<Rightarrow> int \<Rightarrow> int \<Rightarrow> int \<Rightarrow> u8 list option \<Rightarrow>
    qmi_elem_info list option \<Rightarrow> (int \<times> qrtr_packet) option" where
  "qmi_encode_message be pkt type msg_id txn_id c_struct ei = do {
     ret \<leftarrow> (if c_struct = None then qmi_calc_min_msg_len ei 1 else Some 0);
     (if ret \<noteq> 0 then Some (- EINVAL, pkt)
      else if qp_data_len pkt < 7 then Some (- EMSGSIZE, pkt)
      else do {
        (msglen, mem) \<leftarrow> (case c_struct of
           None \<Rightarrow> Some (0, qp_data pkt)
         | Some src \<Rightarrow> qmi_encode be ei (qp_data pkt) 7 src 0 (of_nat (qp_data_len pkt - 7)) 1);
        (if msglen < 0 then Some (msglen, pkt\<lparr>qp_data := mem\<rparr>)
         else do {
           mem \<leftarrow> mem_put mem 0 (qmi_header_bytes be (word_of_int type) (word_of_int txn_id)
             (word_of_int msg_id) (word_of_int msglen));
           Some (7 + msglen, pkt\<lparr>qp_data := mem, qp_type := QRTR_TYPE_DATA, qp_data_len := 7 + nat msglen\<rparr>) }) }) }"

text \<open>
  \<open>data_len - sizeof(*qmi)\<close> is computed in \<open>size_t\<close> and wraps below seven. \<open>Inr\<close> carries the
  message id that is stored through the pointer.
\<close>

definition sub7 :: "nat \<Rightarrow> u64" where
  "sub7 n = of_nat n - 7"

definition qmi_decode_header :: "bool \<Rightarrow> qrtr_packet \<Rightarrow> (int + u32) option" where
  "qmi_decode_header be pkt = do {
     msg_len \<leftarrow> get_half be (qp_data pkt) 5;
     (if ucast msg_len \<noteq> sub7 (qp_data_len pkt) then Some (Inl (- EINVAL))
      else do { msg_id \<leftarrow> get_half be (qp_data pkt) 3; Some (Inr (ucast msg_id)) }) }"

text \<open>
  The result is the return value, the C struct and, unless the header does not match, the
  transaction id. \<open>data\<close> is the packet's buffer, or \<open>None\<close> for a null pointer.
\<close>

definition qmi_decode_message :: "bool \<Rightarrow> u8 list option \<Rightarrow> u8 list option \<Rightarrow> nat \<Rightarrow> int \<Rightarrow> int \<Rightarrow>
    qmi_elem_info list option \<Rightarrow> (int \<times> u8 list option \<times> u16 option) option" where
  "qmi_decode_message be c_struct data data_len type mid ei =
     (case (ei, c_struct, data) of
        (Some a, Some out, Some bs) \<Rightarrow>
          if data_len = 0 then Some (- EINVAL, c_struct, None)
          else do {
            ty \<leftarrow> array_at bs 0;
            (if uint ty \<noteq> type then Some (- EINVAL, c_struct, None)
             else do {
               m \<leftarrow> get_half be bs 3;
               (if uint m \<noteq> mid then Some (- EINVAL, c_struct, None)
                else do {
                  txn \<leftarrow> get_half be bs 1;
                  (rc, out) \<leftarrow> qmi_decode be ei out 0 bs 7 (ucast (sub7 data_len)) 1;
                  Some (rc, Some out, Some txn) }) }) }
      | _ \<Rightarrow> Some (- EINVAL, c_struct, None))"

section \<open>The common response\<close>

definition QMI_REQUEST :: int where "QMI_REQUEST = 0"
definition QMI_RESPONSE :: int where "QMI_RESPONSE = 2"
definition QMI_INDICATION :: int where "QMI_INDICATION = 4"

definition QMI_RESULT_SUCCESS_V01 :: u16 where "QMI_RESULT_SUCCESS_V01 = 0"
definition QMI_RESULT_FAILURE_V01 :: u16 where "QMI_RESULT_FAILURE_V01 = 1"

definition QMI_ERR_NONE_V01 :: u16 where "QMI_ERR_NONE_V01 = 0"
definition QMI_ERR_MALFORMED_MSG_V01 :: u16 where "QMI_ERR_MALFORMED_MSG_V01 = 1"
definition QMI_ERR_NO_MEMORY_V01 :: u16 where "QMI_ERR_NO_MEMORY_V01 = 2"
definition QMI_ERR_INTERNAL_V01 :: u16 where "QMI_ERR_INTERNAL_V01 = 3"
definition QMI_ERR_CLIENT_IDS_EXHAUSTED_V01 :: u16 where "QMI_ERR_CLIENT_IDS_EXHAUSTED_V01 = 5"
definition QMI_ERR_INVALID_ID_V01 :: u16 where "QMI_ERR_INVALID_ID_V01 = 41"
definition QMI_ERR_ENCODING_V01 :: u16 where "QMI_ERR_ENCODING_V01 = 58"
definition QMI_ERR_INCOMPATIBLE_STATE_V01 :: u16 where "QMI_ERR_INCOMPATIBLE_STATE_V01 = 90"
definition QMI_ERR_NOT_SUPPORTED_V01 :: u16 where "QMI_ERR_NOT_SUPPORTED_V01 = 94"

text \<open>The C struct and its four bytes in memory.\<close>

record qmi_response_type_v01 =
  rsp_result :: u16
  rsp_error :: u16

definition response_bytes :: "bool \<Rightarrow> qmi_response_type_v01 \<Rightarrow> u8 list" where
  "response_bytes be r = half_bytes be (rsp_result r) @ half_bytes be (rsp_error r)"

definition qmi_response_type_v01_ei :: "qmi_elem_info list" where
  "qmi_response_type_v01_ei =
     [Elem QMI_SIGNED_2_BYTE_ENUM 1 2 NO_ARRAY 0 0 None,
      Elem QMI_SIGNED_2_BYTE_ENUM 1 2 NO_ARRAY 0 2 None,
      Elem QMI_EOTI 0 0 NO_ARRAY 0 0 None]"

end
