(* ===== verification/Qmi_Memory.thy ===== *)
theory Qmi_Memory
  imports Qmi
begin

text \<open>
  Facts on the byte memories of the QMI codec: overwriting a part of a memory (\<open>blit\<close>), parts of
  memories (\<open>slice\<close>), what a write leaves alone, and the copy loops and scalar conversions of the
  code in terms of these.
\<close>

section \<open>Parts of memories\<close>

definition slice :: "'a list \<Rightarrow> nat \<Rightarrow> nat \<Rightarrow> 'a list" where
  "slice xs s n = take n (drop s xs)"

definition blit :: "'a list \<Rightarrow> nat \<Rightarrow> 'a list \<Rightarrow> 'a list" where
  "blit mem d bs = take d mem @ bs @ drop (d + length bs) mem"

lemma length_slice [simp]: "s + n \<le> length xs \<Longrightarrow> length (slice xs s n) = n"
  by (simp add: slice_def)

lemma slice_0 [simp]: "slice xs s 0 = []"
  by (simp add: slice_def)

lemma slice_nth [simp]: "i < n \<Longrightarrow> s + n \<le> length xs \<Longrightarrow> slice xs s n ! i = xs ! (s + i)"
  by (simp add: slice_def)

lemma slice_add: "slice xs s (m + n) = slice xs s m @ slice xs (s + m) n"
  by (simp add: slice_def take_add add.commute)

lemma slice_1: "s < length xs \<Longrightarrow> slice xs s 1 = [xs ! s]"
  by (simp add: slice_def take_Suc_conv_app_nth hd_drop_conv_nth take_Suc)

lemma length_blit [simp]: "d + length bs \<le> length mem \<Longrightarrow> length (blit mem d bs) = length mem"
  by (simp add: blit_def)

lemma blit_Nil [simp]: "blit mem d [] = mem"
  by (simp add: blit_def)

lemma blit_nth:
  assumes "d + length bs \<le> length mem" "i < length mem"
  shows "blit mem d bs ! i = (if d \<le> i \<and> i < d + length bs then bs ! (i - d) else mem ! i)"
  using assms by (auto simp: blit_def nth_append)

lemma blit_append:
  assumes "d + length xs + length ys \<le> length mem"
  shows "blit (blit mem d xs) (d + length xs) ys = blit mem d (xs @ ys)"
  using assms by (intro nth_equalityI) (auto simp: blit_nth nth_append)

lemma blit_before:
  assumes "d + length xs + length ys \<le> length mem"
  shows "blit (blit mem (d + length xs) ys) d xs = blit mem d (xs @ ys)"
  using assms by (intro nth_equalityI) (auto simp: blit_nth nth_append)

lemma blit_slice [simp]: "d + length bs \<le> length mem \<Longrightarrow> slice (blit mem d bs) d (length bs) = bs"
  by (simp add: slice_def blit_def)

text \<open>A memory that differs only inside \<open>n\<close> bytes from \<open>d\<close> on.\<close>

definition inside :: "'a list \<Rightarrow> nat \<Rightarrow> nat \<Rightarrow> 'a list \<Rightarrow> bool" where
  "inside mem d n mem' \<longleftrightarrow> length mem' = length mem \<and>
     (\<forall>i < length mem. \<not> (d \<le> i \<and> i < d + n) \<longrightarrow> mem' ! i = mem ! i)"

lemma inside_refl [simp]: "inside mem d n mem"
  by (simp add: inside_def)

lemma inside_trans: "inside m1 d n m2 \<Longrightarrow> inside m2 d n m3 \<Longrightarrow> inside m1 d n m3"
  by (simp add: inside_def)

lemma inside_blit: "a \<le> d \<Longrightarrow> d + length bs \<le> a + n \<Longrightarrow> a + n \<le> length mem \<Longrightarrow> inside mem a n (blit mem d bs)"
  by (auto simp: inside_def blit_nth)

section \<open>Copying\<close>

lemma mem_copy_eq:
  "d + n \<le> length dst \<Longrightarrow> s + n \<le> length src \<Longrightarrow> mem_copy dst d src s n = Some (blit dst d (slice src s n))"
  by (simp add: mem_copy_def blit_def slice_def)

lemma mem_put_eq: "d + length bs \<le> length dst \<Longrightarrow> mem_put dst d bs = Some (blit dst d bs)"
  by (simp add: mem_put_def mem_copy_eq slice_def)

lemma copy_elems_eq:
  "d + n * sz \<le> length dst \<Longrightarrow> s + n * sz \<le> length src \<Longrightarrow>
    copy_elems n sz dst d src s = Some (blit dst d (slice src s (n * sz)))"
proof (induction n arbitrary: dst d s)
  case (Suc n)
  have "mem_copy dst d src s sz = Some (blit dst d (slice src s sz))"
    using Suc.prems by (intro mem_copy_eq) auto
  moreover have "copy_elems n sz (blit dst d (slice src s sz)) (d + sz) src (s + sz) =
      Some (blit (blit dst d (slice src s sz)) (d + sz) (slice src (s + sz) (n * sz)))"
    using Suc.prems by (intro Suc.IH) (simp_all add: add.commute add.left_commute)
  moreover have "blit (blit dst d (slice src s sz)) (d + sz) (slice src (s + sz) (n * sz)) =
      blit dst d (slice src s (sz + n * sz))"
    using blit_append [of d "slice src s sz" "slice src (s + sz) (n * sz)" dst] Suc.prems
    by (simp add: slice_add algebra_simps)
  ultimately show ?case by simp
qed simp

lemma sint_small:
  assumes "unat (w :: u32) < 2 ^ 31"
  shows "sint w = int (unat w)"
proof -
  from assms have "int (unat w) < int (2 ^ 31)" by (simp only: of_nat_less_iff)
  then have u: "uint w < 2 ^ 31" by simp
  have z: "- (2 ^ 31) \<le> uint w" by (rule order_trans [OF _ uint_ge_0]) simp
  have "signed_take_bit 31 (uint w) = uint w" by (rule signed_take_bit_int_eq_self [OF z u])
  then show ?thesis by (simp add: sint_uint)
qed

lemma unat_mult_small: "unat a * unat b < 2 ^ 32 \<Longrightarrow> unat (a * b :: u32) = unat a * unat b"
  by (simp add: unat_word_ariths)

lemma encode_basic_eq:
  assumes "unat len * unat sz < 2 ^ 31" "d + unat len * unat sz \<le> length dst" "s + unat len * unat sz \<le> length src"
  shows "qmi_encode_basic_elem dst d src s len sz =
    Some (int (unat len * unat sz), blit dst d (slice src s (unat len * unat sz)))"
  using assms copy_elems_eq [of d "unat len" "unat sz" dst s src]
  by (simp add: qmi_encode_basic_elem_def sint_small unat_mult_small)

lemma decode_basic_eq:
  assumes "unat len * unat sz < 2 ^ 31" "d + unat len * unat sz \<le> length dst" "s + unat len * unat sz \<le> length src"
  shows "qmi_decode_basic_elem dst d src s len sz =
    Some (int (unat len * unat sz), blit dst d (slice src s (unat len * unat sz)))"
  using encode_basic_eq [OF assms] by (simp add: qmi_encode_basic_elem_def qmi_decode_basic_elem_def)

section \<open>Strings\<close>

definition c_string :: "u8 list \<Rightarrow> nat \<Rightarrow> u8 list" where
  "c_string src s = takeWhile (\<lambda>b. b \<noteq> 0) (drop s src)"

lemma c_strlen_eq: "0 \<in> set bs \<Longrightarrow> c_strlen bs = Some (length (takeWhile (\<lambda>b. b \<noteq> 0) bs))"
  by (induction bs) auto

lemma strlen_at_eq: "0 \<in> set (drop s src) \<Longrightarrow> strlen_at src s = Some (length (c_string src s))"
  by (cases "s < length src") (auto simp: strlen_at_def c_string_def c_strlen_eq)

lemma takeWhile_length_less: "0 \<in> set bs \<Longrightarrow> length (takeWhile (\<lambda>b. b \<noteq> (0::u8)) bs) < length bs"
  by (induction bs) auto

lemma takeWhile_nth_end: "0 \<in> set bs \<Longrightarrow> bs ! length (takeWhile (\<lambda>b. b \<noteq> (0::u8)) bs) = 0"
  by (induction bs) auto

lemma c_string_end:
  assumes "0 \<in> set (drop s src)"
  shows "s + length (c_string src s) < length src" "src ! (s + length (c_string src s)) = 0"
    "c_string src s = slice src s (length (c_string src s))"
proof -
  have *: "s < length src" using assms by (cases "s < length src") auto
  from takeWhile_length_less [OF assms] * show "s + length (c_string src s) < length src"
    by (simp add: c_string_def)
  from takeWhile_nth_end [OF assms] * show "src ! (s + length (c_string src s)) = 0"
    by (simp add: c_string_def)
  show "c_string src s = slice src s (length (c_string src s))"
    unfolding c_string_def slice_def by (rule takeWhile_eq_take)
qed

section \<open>Scalars of a little-endian host\<close>

lemma mem_bytes_1: "mem_bytes False 1 = [1, 0, 0, 0]" and mem_bytes_0: "mem_bytes False 0 = [0, 0, 0, 0]"
  by (simp_all add: mem_bytes_def le_bytes_def)

text \<open>The value of the length field as the encoder reads it.\<close>

definition len_value :: "u8 list \<Rightarrow> nat \<Rightarrow> nat \<Rightarrow> u32" where
  "len_value src p sz = (if sz = 1 then ucast (src ! p) else or (ucast (src ! p)) (push_bit 8 (ucast (src ! (p + 1)))))"

lemma mem_word_4: "mem_word False [a, b, 0, 0] = or (ucast a) (push_bit 8 (ucast b))"
  by (simp add: mem_word_def)

lemma slice_2: "s + 1 < length xs \<Longrightarrow> slice xs s 2 = [xs ! s, xs ! (s + 1)]"
  using slice_add [of xs s 1 1] slice_1 [of s xs] slice_1 [of "s + 1" xs] by (simp add: numeral_2_eq_2)

lemma len_field_read:
  assumes "sz = 1 \<or> sz = 2" "p + sz \<le> length src"
  shows "mem_word False (blit [1, 0, 0, 0] 0 (slice src p sz)) = len_value src p sz"
    "take sz (blit [1, 0, 0, 0] 0 (slice src p sz)) = slice src p sz"
    "length (blit [1, 0, 0, 0 :: u8] 0 (slice src p sz)) = 4"
  using assms slice_1 [of p src] slice_2 [of p src]
  by (auto simp: blit_def mem_word_4 len_value_def numeral_2_eq_2)

end
