(* ===== verification/C_Text.thy ===== *)
theory C_Text
  imports Qrtr_Prelude
begin

text \<open>
  What the command line tools use of the C library on text: \<open>strtoul\<close> on a 64-bit host (value,
  the rest of the string behind \<open>endptr\<close>, and whether \<open>errno\<close> became \<open>ERANGE\<close>), and the decimal
  conversions, field widths and size limits of the \<open>printf\<close> family. A C string is a HOL string
  without its terminating zero. That \<open>strtoul\<close> reads back printed numbers is proved here.
\<close>

section \<open>Printing\<close>

definition digit_char :: "nat \<Rightarrow> char" where
  "digit_char d = char_of (48 + d)"

fun show_decimal :: "nat \<Rightarrow> string" where
  "show_decimal n = (if n < 10 then [digit_char n] else show_decimal (n div 10) @ [digit_char (n mod 10)])"

declare show_decimal.simps [simp del]

text \<open>\<open>%u\<close> with a minimum field width.\<close>

definition pad_left :: "nat \<Rightarrow> string \<Rightarrow> string" where
  "pad_left w s = replicate (w - length s) CHR '' '' @ s"

definition format_u :: "nat \<Rightarrow> u32 \<Rightarrow> string" where
  "format_u w n = pad_left w (show_decimal (unat n))"

text \<open>\<open>%08x\<close> of a 32-bit value: always eight lower-case digits.\<close>

definition hex_digit :: "nat \<Rightarrow> char" where
  "hex_digit d = char_of (if d < 10 then 48 + d else 87 + d)"

definition format_08x :: "u32 \<Rightarrow> string" where
  "format_08x n = map (\<lambda>i. hex_digit (unat (drop_bit (4 * i) n) mod 16)) [7, 6, 5, 4, 3, 2, 1, 0]"

text \<open>The part of a formatted text that \<open>snprintf\<close> stores in a buffer of \<open>sz\<close> bytes.\<close>

definition snprintf_text :: "nat \<Rightarrow> string \<Rightarrow> string" where
  "snprintf_text sz s = take (sz - 1) s"

lemma length_pad_left [simp]: "length (pad_left w s) = max w (length s)"
  by (simp add: pad_left_def)

section \<open>Reading\<close>

definition is_space :: "char \<Rightarrow> bool" where
  "is_space c \<longleftrightarrow> (let n = of_char c :: nat in n = 32 \<or> 9 \<le> n \<and> n \<le> 13)"

text \<open>The value of a character as a digit; 36 and more are no digits.\<close>

definition digit_value :: "char \<Rightarrow> nat" where
  "digit_value c = (let n = of_char c :: nat in
     if 48 \<le> n \<and> n \<le> 57 then n - 48
     else if 97 \<le> n \<and> n \<le> 122 then n - 87
     else if 65 \<le> n \<and> n \<le> 90 then n - 55
     else 36)"

definition take_sign :: "string \<Rightarrow> bool \<times> string" where
  "take_sign s = (case s of
     [] \<Rightarrow> (False, [])
   | c # cs \<Rightarrow> if c = CHR ''-'' then (True, cs) else if c = CHR ''+'' then (False, cs) else (False, s))"

text \<open>The base and the digits behind a prefix; \<open>0x\<close> is a prefix only if a hexadecimal digit follows.\<close>

definition take_base :: "nat \<Rightarrow> string \<Rightarrow> nat \<times> string" where
  "take_base base s =
     (if base \<noteq> 0 then (base, s)
      else case s of
        z # x # h # r \<Rightarrow>
          if z = CHR ''0'' \<and> (x = CHR ''x'' \<or> x = CHR ''X'') \<and> digit_value h < 16 then (16, h # r)
          else if z = CHR ''0'' then (8, s) else (10, s)
      | z # _ \<Rightarrow> if z = CHR ''0'' then (8, s) else (10, s)
      | [] \<Rightarrow> (10, s))"

definition number :: "nat \<Rightarrow> string \<Rightarrow> nat" where
  "number base = foldl (\<lambda>n c. n * base + digit_value c) 0"

definition ULONG_MAX :: u64 where
  "ULONG_MAX = - 1"

definition strtoul :: "nat \<Rightarrow> string \<Rightarrow> u64 \<times> string \<times> bool" where
  "strtoul base str =
     (let (neg, s) = take_sign (dropWhile is_space str);
          (b, s) = take_base base s;
          ds = takeWhile (\<lambda>c. digit_value c < b) s;
          n = number b ds in
      if ds = [] then (0, str, False)
      else if n \<ge> 2 ^ 64 then (ULONG_MAX, dropWhile (\<lambda>c. digit_value c < b) s, True)
      else (if neg then - of_nat n else of_nat n, dropWhile (\<lambda>c. digit_value c < b) s, False))"

section \<open>Reading what was printed\<close>

lemma digit_value_char [simp]: "d < 10 \<Longrightarrow> digit_value (digit_char d) = d"
  by (simp add: digit_value_def digit_char_def Let_def)

lemma char_48: "char_of (48 :: nat) = CHR ''0''"
  by code_simp

lemma digit_char_zero: "d < 10 \<Longrightarrow> digit_char d = CHR ''0'' \<longleftrightarrow> d = 0"
proof
  assume d: "d < 10" "digit_char d = CHR ''0''"
  have "digit_value (CHR ''0'') = 0" by (simp add: digit_value_def)
  with d show "d = 0" using digit_value_char [OF d(1)] by simp
qed (simp add: digit_char_def char_48)

lemma digit_char_plain: "d < 10 \<Longrightarrow> \<not> is_space (digit_char d) \<and> digit_char d \<noteq> CHR ''-'' \<and> digit_char d \<noteq> CHR ''+''"
proof -
  assume d: "d < 10"
  have v: "digit_value (CHR ''-'') = 36" "digit_value (CHR ''+'') = 36" by (simp_all add: digit_value_def)
  have "(of_char (digit_char d) :: nat) = 48 + d" using d by (simp add: digit_char_def)
  then have "\<not> is_space (digit_char d)" using d by (simp add: is_space_def)
  moreover have "digit_value (digit_char d) \<noteq> 36" using d by simp
  ultimately show ?thesis using v by metis
qed

lemma show_decimal_digits: "set (show_decimal n) \<subseteq> digit_char ` {..<10}"
proof (induction n rule: less_induct)
  case (less n)
  show ?case
  proof (cases "n < 10")
    case False
    then have "set (show_decimal (n div 10)) \<subseteq> digit_char ` {..<10}" by (intro less) simp
    then show ?thesis using False by (subst show_decimal.simps) auto
  qed (subst show_decimal.simps, auto)
qed

lemma show_decimal_nonempty [simp]: "show_decimal n \<noteq> []"
  by (subst show_decimal.simps) simp

lemma number_append: "number b (s @ [c]) = number b s * b + digit_value c"
  by (simp add: number_def)

lemma number_show_decimal [simp]: "number 10 (show_decimal n) = n"
proof (induction n rule: less_induct)
  case (less n)
  show ?case
  proof (cases "n < 10")
    case True
    then show ?thesis by (subst show_decimal.simps) (simp add: number_def)
  next
    case False
    then have "number 10 (show_decimal (n div 10)) = n div 10" by (intro less) simp
    then show ?thesis using False by (subst show_decimal.simps) (simp add: number_append)
  qed
qed

lemma show_decimal_hd: "0 < n \<Longrightarrow> hd (show_decimal n) \<noteq> CHR ''0''"
proof (induction n rule: less_induct)
  case (less n)
  show ?case
  proof (cases "n < 10")
    case True
    then show ?thesis using less.prems by (subst show_decimal.simps) (simp add: digit_char_zero)
  next
    case False
    then have "hd (show_decimal (n div 10)) \<noteq> CHR ''0''" by (intro less) simp_all
    then show ?thesis using False by (subst show_decimal.simps) simp
  qed
qed

lemma show_decimal_Cons:
  obtains d cs where "show_decimal n = digit_char d # cs" "d < 10" "0 < n \<longrightarrow> d \<noteq> 0"
proof -
  obtain c cs where c: "show_decimal n = c # cs" by (cases "show_decimal n") auto
  then obtain d where d: "c = digit_char d" "d < 10" using show_decimal_digits [of n] by auto
  have "0 < n \<longrightarrow> d \<noteq> 0" using show_decimal_hd [of n] c d digit_char_zero by auto
  with c d show thesis by (intro that) auto
qed

lemma take_show_decimal:
  assumes "junk = [] \<or> 10 \<le> digit_value (hd junk)"
  shows "takeWhile (\<lambda>c. digit_value c < 10) (show_decimal n @ junk) = show_decimal n"
    "dropWhile (\<lambda>c. digit_value c < 10) (show_decimal n @ junk) = junk"
proof -
  have all: "\<forall>c \<in> set (show_decimal n). digit_value c < 10" using show_decimal_digits [of n] by auto
  have "takeWhile (\<lambda>c. digit_value c < 10) junk = []" "dropWhile (\<lambda>c. digit_value c < 10) junk = junk"
    using assms by (cases junk, auto)+
  with all show "takeWhile (\<lambda>c. digit_value c < 10) (show_decimal n @ junk) = show_decimal n"
    "dropWhile (\<lambda>c. digit_value c < 10) (show_decimal n @ junk) = junk"
    by (simp_all add: takeWhile_append2 dropWhile_append2)
qed

lemma show_decimal_0: "show_decimal 0 = [CHR ''0'']"
  by (simp add: show_decimal.simps digit_char_def char_48)

text \<open>Base 10, with whatever follows the digits, and base 0 without a tail.\<close>

lemma strtoul_show:
  assumes "junk = [] \<or> 10 \<le> digit_value (hd junk)" "take_base base (show_decimal n @ junk) = (10, show_decimal n @ junk)"
  shows "strtoul base (show_decimal n @ junk) = (if n < 2 ^ 64 then (of_nat n, junk, False) else (ULONG_MAX, junk, True))"
proof -
  obtain d cs where d: "show_decimal n = digit_char d # cs" "d < 10" by (rule show_decimal_Cons [of n])
  have "dropWhile is_space (show_decimal n @ junk) = show_decimal n @ junk" using d digit_char_plain by simp
  moreover have "take_sign (show_decimal n @ junk) = (False, show_decimal n @ junk)"
    using d digit_char_plain by (simp add: take_sign_def)
  ultimately show ?thesis using assms(2)
    by (simp add: strtoul_def take_show_decimal [OF assms(1)])
qed

lemma strtoul_10:
  "junk = [] \<or> 10 \<le> digit_value (hd junk) \<Longrightarrow> strtoul 10 (show_decimal n @ junk) =
    (if n < 2 ^ 64 then (of_nat n, junk, False) else (ULONG_MAX, junk, True))"
  by (rule strtoul_show) (simp_all add: take_base_def)

lemma strtoul_0:
  "strtoul 0 (show_decimal n) = (if n < 2 ^ 64 then (of_nat n, [], False) else (ULONG_MAX, [], True))"
proof (cases "n = 0")
  case True
  have "digit_value (CHR ''0'') = 0" "\<not> is_space (CHR ''0'')" by (simp_all add: digit_value_def is_space_def)
  then show ?thesis using True
    by (auto simp: show_decimal_0 strtoul_def take_sign_def take_base_def number_def)
next
  case False
  obtain d cs where d: "show_decimal n = digit_char d # cs" "d < 10" "d \<noteq> 0"
    using False by (auto intro: show_decimal_Cons [of n])
  have "take_base 0 (show_decimal n) = (10, show_decimal n)"
    using d digit_char_zero by (auto simp: take_base_def split: list.splits)
  then show ?thesis using strtoul_show [of "[]" 0 n] by simp
qed

end
