(* ===== verification/Logging.thy ===== *)
theory Logging
  imports Qrtr_Prelude
begin

text \<open>
  The logging of \<open>lib/logging.c\<close>: its three static variables and what each function hands to the
  system. The arguments of \<open>qlog\<close> behind the format are already formatted into one text.
\<close>

datatype log_call = Openlog string | Vsyslog int string | Stderr string

record log_state =
  current_tag :: string
  min_priority :: int
  logging_to_syslog :: bool

text \<open>The priorities of \<open>syslog.h\<close>, from \<open>LOG_EMERG\<close> 0 to \<open>LOG_DEBUG\<close> 7.\<close>

definition log_initial :: log_state where
  "log_initial = \<lparr>current_tag = ''libqrtr'', min_priority = 6, logging_to_syslog = False\<rparr>"

definition qlog_setup :: "string \<Rightarrow> bool \<Rightarrow> log_state \<Rightarrow> log_state \<times> log_call list" where
  "qlog_setup tag use_syslog s = (s\<lparr>current_tag := tag, logging_to_syslog := use_syslog\<rparr>, [Openlog tag])"

definition qlog_set_min_priority :: "int \<Rightarrow> log_state \<Rightarrow> log_state" where
  "qlog_set_min_priority priority s = (if priority < 0 \<or> priority > 7 then s else s\<lparr>min_priority := priority\<rparr>)"

definition get_priority_string :: "int \<Rightarrow> string" where
  "get_priority_string priority =
     (if priority = 0 then ''EMERG'' else if priority = 1 then ''ALERT'' else if priority = 2 then ''CRIT''
      else if priority = 3 then ''ERROR'' else if priority = 4 then ''WARNING'' else if priority = 5 then ''NOTICE''
      else if priority = 6 then ''INFO'' else if priority = 7 then ''DEBUG'' else '''')"

definition qlog :: "int \<Rightarrow> string \<Rightarrow> log_state \<Rightarrow> log_call list" where
  "qlog priority msg s =
     (if priority > min_priority s then []
      else if logging_to_syslog s then [Vsyslog priority msg]
      else [Stderr (get_priority_string priority @ '' '' @ current_tag s @ '': '' @ take 511 msg @ [CHR 10])])"

section \<open>The macros of \<open>logging.h\<close>\<close>

text \<open>
  The macros with a \<open>P\<close> add the text of \<open>errno\<close>, here the argument \<open>err\<close>; those that exit return
  the status as well.
\<close>

definition LOGD :: "string \<Rightarrow> log_state \<Rightarrow> log_call list" where
  "LOGD msg s = qlog 7 msg s"

definition LOGW :: "string \<Rightarrow> log_state \<Rightarrow> log_call list" where
  "LOGW msg s = qlog 4 msg s"

definition PLOGW :: "string \<Rightarrow> string \<Rightarrow> log_state \<Rightarrow> log_call list" where
  "PLOGW err msg s = qlog 4 (msg @ '': '' @ err) s"

definition LOGE :: "string \<Rightarrow> log_state \<Rightarrow> log_call list" where
  "LOGE msg s = qlog 3 msg s"

definition PLOGE :: "string \<Rightarrow> string \<Rightarrow> log_state \<Rightarrow> log_call list" where
  "PLOGE err msg s = qlog 3 (msg @ '': '' @ err) s"

definition LOGE_AND_EXIT :: "string \<Rightarrow> log_state \<Rightarrow> int \<times> log_call list" where
  "LOGE_AND_EXIT msg s = (1, qlog 3 msg s)"

definition PLOGE_AND_EXIT :: "string \<Rightarrow> string \<Rightarrow> log_state \<Rightarrow> int \<times> log_call list" where
  "PLOGE_AND_EXIT err msg s = (1, qlog 3 (msg @ '': '' @ err) s)"

section \<open>The state of the logger\<close>

text \<open>Every state a program can bring the logger into.\<close>

inductive log_step :: "log_state \<Rightarrow> log_state \<Rightarrow> bool" where
  configure: "log_step s (fst (qlog_setup tag use_syslog s))"
| priority: "log_step s (qlog_set_min_priority p s)"

lemma log_reachable:
  assumes "log_step\<^sup>*\<^sup>* log_initial s"
  shows "0 \<le> min_priority s \<and> min_priority s \<le> 7"
  using assms
  by (induction rule: rtranclp_induct)
    (auto simp: log_initial_def qlog_setup_def qlog_set_min_priority_def elim!: log_step.cases)

text \<open>An emergency is always logged, a known priority never as an empty word.\<close>

lemma emergency_logged: "log_step\<^sup>*\<^sup>* log_initial s \<Longrightarrow> length (qlog 0 msg s) = 1"
  using log_reachable [of s] by (auto simp: qlog_def)

text \<open>
  Before its priority is changed the logger drops debug lines and keeps warnings and errors; an
  error is dropped only by a logger that was told to.
\<close>

lemma log_default:
  assumes "min_priority s = 6"
  shows "LOGD msg s = []" "length (LOGW msg s) = 1" "length (LOGE msg s) = 1"
    "length (PLOGW err msg s) = 1" "length (PLOGE err msg s) = 1"
    "length (snd (LOGE_AND_EXIT msg s)) = 1" "length (snd (PLOGE_AND_EXIT err msg s)) = 1"
  using assms by (simp_all add: LOGD_def LOGW_def LOGE_def PLOGW_def PLOGE_def LOGE_AND_EXIT_def
      PLOGE_AND_EXIT_def qlog_def)

lemma priority_named: "0 \<le> p \<Longrightarrow> p \<le> 7 \<Longrightarrow> get_priority_string p \<noteq> []"
  by (auto simp: get_priority_string_def)

end
