(* ===== verification/Address.thy ===== *)
theory Address
  imports Qmi_Memory C_Text Logging
begin

text \<open>
  The configuration of the local node id: \<open>qrtr_set_address\<close> of \<open>src/addr.c\<close>, the tool \<open>src/cfg.c\<close> and
  the command line of the name server (\<open>main\<close> of \<open>src/ns.c\<close> up to the creation of the waiter). The
  outcomes of the system calls are a parameter and the calls made are part of the result; a call
  of \<open>exit\<close> ends the function with the status. What \<open>getopt\<close> returns is a parameter.
\<close>

section \<open>The netlink request\<close>

datatype addr_call = Qrtr_socket | Qrtr_getsockname int | Netlink_socket | Close_fd int
  | Netlink_send int "u8 list" | Netlink_recv int nat

text \<open>Outcomes; \<open>ae_resp\<close> is what the 36 bytes of \<open>resp\<close> hold after \<open>recv\<close>.\<close>

record addr_env =
  ae_qrtr_socket :: int
  ae_getsockname :: int
  ae_sockname :: sockaddr_qrtr
  ae_socklen :: nat
  ae_netlink_socket :: int
  ae_send :: int
  ae_recv :: int
  ae_resp :: "u8 list"

text \<open>Sizes and constants of \<open>linux/netlink.h\<close> and \<open>linux/rtnetlink.h\<close>.\<close>

definition netlink_align :: "nat \<Rightarrow> nat" where
  "netlink_align n = (n + 3) div 4 * 4"

definition NLMSG_SPACE :: "nat \<Rightarrow> nat" where
  "NLMSG_SPACE n = netlink_align (n + netlink_align 16)"

definition RTA_LENGTH :: "nat \<Rightarrow> nat" where
  "RTA_LENGTH n = netlink_align 4 + n"

definition RTM_NEWADDR :: u16 where "RTM_NEWADDR = 20"
definition NLM_F_REQUEST :: u16 where "NLM_F_REQUEST = 1"
definition NLM_F_ACK :: u16 where "NLM_F_ACK = 4"
definition NLMSG_ERROR :: u16 where "NLMSG_ERROR = 2"
definition IFA_LOCAL :: u16 where "IFA_LOCAL = 2"

text \<open>
  The stores into \<open>req\<close>: header (length, type, flags), \<open>ifa_family\<close>, the attribute behind them, and the
  final length; then the bytes that are sent.
\<close>

definition set_address_request :: "bool \<Rightarrow> u32 \<Rightarrow> u8 list" where
  "set_address_request be addr =
     (let len = NLMSG_SPACE 8;
          req = replicate (16 + 8 + 32) 0;
          req = blit req 0 (mem_bytes be (of_nat len));
          req = blit req 6 (half_bytes be (NLM_F_REQUEST OR NLM_F_ACK));
          req = blit req 4 (half_bytes be RTM_NEWADDR);
          req = blit req 16 [ucast AF_QIPCRTR];
          req = blit req (len + 2) (half_bytes be IFA_LOCAL);
          req = blit req len (half_bytes be (of_nat (RTA_LENGTH 4)));
          req = blit req (len + RTA_LENGTH 0) (mem_bytes be addr);
          len = len + RTA_LENGTH 4;
          req = blit req 0 (mem_bytes be (of_nat len)) in
      take len req)"

text \<open>\<open>resp.nh.nlmsg_type\<close> and \<open>resp.err.error\<close>.\<close>

definition resp_error :: "bool \<Rightarrow> u8 list \<Rightarrow> bool" where
  "resp_error be resp \<longleftrightarrow> half_word be (resp ! 4) (resp ! 5) = NLMSG_ERROR \<and> mem_word be (slice resp 16 4) \<noteq> 0"

datatype finish = Returned | Exited int

definition qrtr_set_address :: "bool \<Rightarrow> addr_env \<Rightarrow> u32 \<Rightarrow> finish \<times> addr_call list" where
  "qrtr_set_address be env addr =
     (let sock = ae_qrtr_socket env in
      if sock < 0 then (Exited 1, [Qrtr_socket])
      else if ae_getsockname env < 0 then (Exited 1, [Qrtr_socket, Qrtr_getsockname sock])
      else
        let calls = [Qrtr_socket, Qrtr_getsockname sock, Close_fd sock] in
        if ae_socklen env = sizeof_sockaddr_qrtr \<and> sq_node (ae_sockname env) = addr then (Returned, calls)
        else
          let sock = ae_netlink_socket env; calls = calls @ [Netlink_socket] in
          if sock < 0 then (Exited 1, calls)
          else
            let calls = calls @ [Netlink_send sock (set_address_request be addr)] in
            if ae_send env < 0 then (Exited 1, calls)
            else
              let calls = calls @ [Netlink_recv sock 36] in
              if ae_recv env < 0 then (Exited 1, calls)
              else if resp_error be (ae_resp env) then (Exited 1, calls)
              else (Returned, calls @ [Close_fd sock]))"

section \<open>The tool\<close>

definition UINT_MAX :: u64 where
  "UINT_MAX = 0xFFFFFFFF"

definition cfg_main :: "bool \<Rightarrow> string list \<Rightarrow> addr_env \<Rightarrow> int \<times> addr_call list" where
  "cfg_main be argv env =
     (if length argv \<noteq> 2 then (1, [])
      else
        let (addrul, ep, _) = strtoul 10 (argv ! 1) in
        if argv ! 1 = [] \<or> ep \<noteq> [] \<or> addrul \<ge> UINT_MAX then (1, [])
        else case qrtr_set_address be env (ucast addrul) of
          (Returned, calls) \<Rightarrow> (0, calls)
        | (Exited status, calls) \<Rightarrow> (status, calls))"

section \<open>The command line of the name server\<close>

record ns_options =
  foreground :: bool
  use_syslog :: bool
  verbose_log :: bool

text \<open>The loop over the results of \<open>getopt\<close>; \<open>None\<close> is the usage message.\<close>

fun ns_getopts :: "char list \<Rightarrow> ns_options \<Rightarrow> ns_options option" where
  "ns_getopts [] o1 = Some o1"
| "ns_getopts (c # cs) o1 =
     (if c = CHR ''f'' then ns_getopts cs (o1\<lparr>foreground := True\<rparr>)
      else if c = CHR ''s'' then ns_getopts cs (o1\<lparr>use_syslog := True\<rparr>)
      else if c = CHR ''v'' then ns_getopts cs (o1\<lparr>verbose_log := True\<rparr>)
      else None)"

text \<open>
  \<open>argv\<close> is the argument vector that \<open>getopt\<close> leaves, \<open>optind\<close> the index of its first operand. The
  result is the status of \<open>exit\<close>, or the options and the state of the logger, with the calls made.
\<close>

definition ns_main_args :: "bool \<Rightarrow> string \<Rightarrow> char list \<Rightarrow> string list \<Rightarrow> nat \<Rightarrow> addr_env \<Rightarrow>
    (int + ns_options \<times> log_state) \<times> addr_call list" where
  "ns_main_args be progname opts argv optind env =
     (case ns_getopts opts \<lparr>foreground = False, use_syslog = False, verbose_log = False\<rparr> of
        None \<Rightarrow> (Inl 1, [])
      | Some os \<Rightarrow>
          let log = fst (qlog_setup progname (use_syslog os) log_initial);
              log = (if verbose_log os then qlog_set_min_priority 7 log else log) in
          if optind < length argv then
            let (addr, ep, _) = strtoul 10 (argv ! optind) in
            if argv ! 1 = [] \<or> ep \<noteq> [] \<or> addr \<ge> UINT_MAX then (Inl 1, [])
            else (case qrtr_set_address be env (ucast addr) of
                (Exited status, calls) \<Rightarrow> (Inl status, calls)
              | (Returned, calls) \<Rightarrow>
                  if optind + 1 \<noteq> length argv then (Inl 1, calls) else (Inr (os, log), calls))
          else if optind \<noteq> length argv then (Inl 1, [])
          else (Inr (os, log), []))"

end
