(* ===== verification/Daemon.thy ===== *)
theory Daemon
  imports Event_Loop Address
begin

text \<open>
  The whole \<open>main\<close> of \<open>src/ns.c\<close>: the command line, the waiter, the start of the name server, the
  background process, the main loop and the exit path, composed as the code composes them. The
  outcomes of the system calls are a parameter.
\<close>

record daemon_env =
  de_addr :: addr_env
  de_socket :: int
  de_getsockname :: int
  de_name :: sockaddr_qrtr
  de_bind :: int
  de_errno :: int
  de_fork :: int

text \<open>
  How \<open>main\<close> ends, if it does: with a status, asleep for ever in \<open>go_dormant\<close> or, after the given
  number of iterations, still in the loop.
\<close>

datatype daemon_result = Status int | Dormant | Running

definition put_ns :: "ns_state \<Rightarrow> ns_env wst \<Rightarrow> ns_env wst" where
  "put_ns s st = (fst st, (snd st)\<lparr>w_env := (s, snd (w_env (snd st)))\<rparr>)"

definition ns_of :: "ns_env wst \<Rightarrow> ns_state" where
  "ns_of st = fst (w_env (snd st))"

text \<open>
  The waiter has one ticket, which bounds the traversals of its list by 1. Undefined behaviour
  anywhere is \<open>None\<close>.
\<close>

definition ns_main :: "nat \<Rightarrow> bool \<Rightarrow> string \<Rightarrow> char list \<Rightarrow> string list \<Rightarrow> nat \<Rightarrow> daemon_env \<Rightarrow> ptr \<Rightarrow> ptr \<Rightarrow>
    ns_env world \<Rightarrow> ns_env wst \<Rightarrow> (daemon_result \<times> addr_call list \<times> ns_env wst) option" where
  "ns_main k be progname opts argv optind env fn ctx wd st =
     (case ns_main_args be progname opts argv optind (de_addr env) of
        (Inl status, calls) \<Rightarrow> Some (Status status, calls, st)
      | (Inr (os, log), calls) \<Rightarrow>
          (case waiter_create st of
             (False, st) \<Rightarrow> Some (Status 1, calls, st)
           | (True, st) \<Rightarrow>
               (case ns_main_start (de_socket env) (de_getsockname env) (de_name env) (de_bind env) (de_errno env)
                    (ns_of st) of
                  Inl status \<Rightarrow> Some (if status = - 1 then Dormant else Status status, calls, st)
                | Inr s \<Rightarrow>
                    let st = put_ns s st in
                    if \<not> foreground os \<and> de_fork env \<noteq> 0 then Some (Status 0, calls, st)
                    else do {
                      st \<leftarrow> ns_main_waiter fn ctx (ctx_sock s) st;
                      st \<leftarrow> ns_main_waits k wd st;
                      if ctx_sock (ns_of st) \<ge> 0 then Some (Running, calls, st)
                      else do {
                        st \<leftarrow> waiter_destroy 1 st;
                        s \<leftarrow> ns_main_exit (ns_of st);
                        Some (Status 0, calls, put_ns s st) } })))"

section \<open>From the start to the exit\<close>

lemma ns_main_start_sock:
  "ns_main_start sock_rc name_rc name bind_rc err s = Inr t \<Longrightarrow> ctx_sock t = sock_rc"
  by (auto simp: ns_main_start_def say_hello_def sys_sendto_eq send_all_def Let_def split: if_splits)

lemma waiter_create_env: "waiter_create st = (b, st') \<Longrightarrow> w_env (snd st') = w_env (snd st)"
  by (auto simp: waiter_create_def split: prod.splits bool.splits)

lemma waiter_create_script:
  assumes "alloc_all (w_script (snd st))"
  obtains st' where "waiter_create st = (True, st')" "alloc_all (w_script (snd st'))"
proof -
  obtain h hdr w where st: "st = ((h, hdr), w)" by (metis (no_types) prod.exhaust_sel)
  obtain al where "alloc (w_script w) = (True, al)" "alloc_all al"
    using alloc_all_alloc [of "w_script w"] assms by (cases "alloc (w_script w)") (auto simp: st)
  then show thesis by (intro that) (auto simp: st waiter_create_def)
qed

lemma put_ns_ok: "waiter_ok (put_ns s st) xs = waiter_ok st xs"
  by (cases st) (simp add: put_ns_def waiter_ok_def pset_room_def split: option.split)

lemma put_ns_simps [simp]:
  "ns_of (put_ns s st) = s" "w_env (snd (put_ns s st)) = (s, snd (w_env (snd st)))"
  "w_script (snd (put_ns s st)) = w_script (snd st)" "no_waiter (put_ns s st) = no_waiter st"
  by (simp_all add: ns_of_def put_ns_def no_waiter_def)

end
