(* ===== verification/Qmi_Group.thy ===== *)
theory Qmi_Group
  imports Qmi_Memory
begin

text \<open>
  A reference for QMI messages on a little-endian host: a descriptor that is a sequence of groups
  (an optional flag, an optional length field, and the element itself, all with one TLV type),
  the bytes that stand for a group in the message, and the parts of the C struct it covers. The
  element is of a basic type, a string, or a struct (or an array of structs) of basic elements.
\<close>

section \<open>Groups\<close>

datatype group = Group (g_flag: "qmi_elem_info option") (g_len: "qmi_elem_info option") (g_body: qmi_elem_info)

definition g_type :: "group \<Rightarrow> u8" where
  "g_type g = tlv_type (g_body g)"

fun opt_list :: "'a option \<Rightarrow> 'a list" where
  "opt_list None = []"
| "opt_list (Some x) = [x]"

definition g_elems :: "group \<Rightarrow> qmi_elem_info list" where
  "g_elems g = opt_list (g_flag g) @ opt_list (g_len g) @ [g_body g]"

definition elem_count :: "qmi_elem_info \<Rightarrow> nat" where
  "elem_count e = (if array_type e = NO_ARRAY then 1 else unat (elem_len e))"

definition elem_bytes :: "qmi_elem_info \<Rightarrow> nat" where
  "elem_bytes e = elem_count e * unat (elem_size e)"

text \<open>The members of a nested struct: its descriptor array up to the end marker.\<close>

definition members :: "qmi_elem_info \<Rightarrow> qmi_elem_info list" where
  "members e = (case ei_array e of None \<Rightarrow> [] | Some a \<Rightarrow> butlast a)"

definition members_bytes :: "qmi_elem_info list \<Rightarrow> nat" where
  "members_bytes bs = sum_list (map elem_bytes bs)"

definition wf_member :: "qmi_elem_info \<Rightarrow> bool" where
  "wf_member e \<longleftrightarrow> basic_type (data_type e) \<and> array_type e \<noteq> VAR_LEN_ARRAY \<and> 0 < elem_bytes e \<and>
     elem_bytes e < 2 ^ 31"

definition wf_body :: "bool \<Rightarrow> qmi_elem_info \<Rightarrow> bool" where
  "wf_body has_len e \<longleftrightarrow> (has_len \<longleftrightarrow> array_type e = VAR_LEN_ARRAY) \<and>
     (basic_type (data_type e) \<and> elem_bytes e < 2 ^ 31 \<or>
      data_type e = QMI_STRING \<and> array_type e = NO_ARRAY \<and> elem_size e = 1 \<or>
      data_type e = QMI_STRUCT \<and> 0 < elem_count e \<and> members e \<noteq> [] \<and> (\<forall>b \<in> set (members e). wf_member b) \<and>
        (\<exists>z. ei_array e = Some (members e @ [z]) \<and> data_type z = QMI_EOTI))"

definition wf_group :: "group \<Rightarrow> bool" where
  "wf_group g \<longleftrightarrow> wf_body (g_len g \<noteq> None) (g_body g) \<and>
     (\<forall>f. g_flag g = Some f \<longrightarrow> data_type f = QMI_OPT_FLAG \<and> array_type f = NO_ARRAY \<and> tlv_type f = g_type g) \<and>
     (\<forall>l. g_len g = Some l \<longrightarrow> data_type l = QMI_DATA_LEN \<and> array_type l = NO_ARRAY \<and> tlv_type l = g_type g \<and>
        (elem_size l = 1 \<or> elem_size l = 2))"

section \<open>The bytes of a group\<close>

definition present :: "u8 list \<Rightarrow> nat \<Rightarrow> group \<Rightarrow> bool" where
  "present src b g \<longleftrightarrow> (case g_flag g of None \<Rightarrow> True | Some f \<Rightarrow> src ! (b + offset f) \<noteq> 0)"

definition g_count :: "u8 list \<Rightarrow> nat \<Rightarrow> group \<Rightarrow> nat" where
  "g_count src b g = (case g_len g of
     None \<Rightarrow> elem_count (g_body g)
   | Some l \<Rightarrow> unat (len_value src (b + offset l) (unat (elem_size l))))"

definition len_bytes :: "u8 list \<Rightarrow> nat \<Rightarrow> group \<Rightarrow> u8 list" where
  "len_bytes src b g = (case g_len g of None \<Rightarrow> [] | Some l \<Rightarrow> slice src (b + offset l) (unat (elem_size l)))"

definition struct_bytes :: "u8 list \<Rightarrow> nat \<Rightarrow> qmi_elem_info list \<Rightarrow> u8 list" where
  "struct_bytes src s bs = concat (map (\<lambda>x. slice src (s + offset x) (elem_bytes x)) bs)"

fun structs_bytes :: "u8 list \<Rightarrow> nat \<Rightarrow> nat \<Rightarrow> nat \<Rightarrow> qmi_elem_info list \<Rightarrow> u8 list" where
  "structs_bytes src s sz 0 bs = []"
| "structs_bytes src s sz (Suc n) bs = struct_bytes src s bs @ structs_bytes src (s + sz) sz n bs"

definition body_bytes :: "u8 list \<Rightarrow> nat \<Rightarrow> qmi_elem_info \<Rightarrow> nat \<Rightarrow> u8 list" where
  "body_bytes src b e n =
     (if data_type e = QMI_STRING then c_string src (b + offset e)
      else if data_type e = QMI_STRUCT then structs_bytes src (b + offset e) (unat (elem_size e)) n (members e)
      else slice src (b + offset e) (n * unat (elem_size e)))"

definition payload :: "u8 list \<Rightarrow> nat \<Rightarrow> group \<Rightarrow> u8 list" where
  "payload src b g = len_bytes src b g @ body_bytes src b (g_body g) (g_count src b g)"

definition tlv_header :: "u8 \<Rightarrow> nat \<Rightarrow> u8 list" where
  "tlv_header ty n = [ty, ucast (of_nat n :: u32), ucast (drop_bit 8 (of_nat n :: u32))]"

definition group_bytes :: "u8 list \<Rightarrow> nat \<Rightarrow> group \<Rightarrow> u8 list" where
  "group_bytes src b g =
     (if present src b g then tlv_header (g_type g) (length (payload src b g)) @ payload src b g else [])"

section \<open>C structs that fit the descriptor\<close>

definition body_in :: "u8 list \<Rightarrow> nat \<Rightarrow> qmi_elem_info \<Rightarrow> bool" where
  "body_in src b e \<longleftrightarrow>
     (if data_type e = QMI_STRING then 0 \<in> set (drop (b + offset e) src)
      else if data_type e = QMI_STRUCT then
        \<forall>i < elem_count e. \<forall>x \<in> set (members e).
          b + offset e + i * unat (elem_size e) + offset x + elem_bytes x \<le> length src
      else b + offset e + elem_bytes e \<le> length src)"

text \<open>Every part of the struct that the encoder may look at is in its memory.\<close>

definition group_in :: "u8 list \<Rightarrow> nat \<Rightarrow> group \<Rightarrow> bool" where
  "group_in src b g \<longleftrightarrow> body_in src b (g_body g) \<and>
     (\<forall>f. g_flag g = Some f \<longrightarrow> b + offset f < length src) \<and>
     (\<forall>l. g_len g = Some l \<longrightarrow> b + offset l + unat (elem_size l) \<le> length src)"

text \<open>Lengths of arrays and strings are within the limits of the descriptor.\<close>

definition group_valid :: "u8 list \<Rightarrow> nat \<Rightarrow> group \<Rightarrow> bool" where
  "group_valid src b g \<longleftrightarrow>
     (g_len g \<noteq> None \<longrightarrow> g_count src b g \<le> unat (elem_len (g_body g))) \<and>
     (data_type (g_body g) = QMI_STRING \<longrightarrow>
        length (c_string src (b + offset (g_body g))) \<le> unat (elem_len (g_body g)))"

section \<open>Descriptors of messages\<close>

definition descr :: "group list \<Rightarrow> qmi_elem_info \<Rightarrow> qmi_elem_info list" where
  "descr gs z = concat (map g_elems gs) @ [z]"

definition wf_descr :: "group list \<Rightarrow> qmi_elem_info \<Rightarrow> bool" where
  "wf_descr gs z \<longleftrightarrow> data_type z = QMI_EOTI \<and> (\<forall>g \<in> set gs. wf_group g) \<and>
     distinct (map g_type gs) \<and> tlv_type z \<notin> g_type ` set gs"

definition message_bytes :: "u8 list \<Rightarrow> nat \<Rightarrow> group list \<Rightarrow> u8 list" where
  "message_bytes src b gs = concat (map (group_bytes src b) gs)"

lemma message_bytes_simps [simp]:
  "message_bytes src b [] = []"
  "message_bytes src b (g # gs) = group_bytes src b g @ message_bytes src b gs"
  by (simp_all add: message_bytes_def)

lemma length_struct_bytes:
  "(\<And>x. x \<in> set bs \<Longrightarrow> s + offset x + elem_bytes x \<le> length src) \<Longrightarrow>
    length (struct_bytes src s bs) = members_bytes bs"
  by (induction bs) (simp_all add: struct_bytes_def members_bytes_def)

lemma struct_bytes_simps [simp]:
  "struct_bytes src s [] = []"
  "struct_bytes src s (x # bs) = slice src (s + offset x) (elem_bytes x) @ struct_bytes src s bs"
  "members_bytes [] = 0" "members_bytes (x # bs) = elem_bytes x + members_bytes bs"
  by (simp_all add: struct_bytes_def members_bytes_def)

lemma length_structs_bytes:
  "(\<And>i x. i < n \<Longrightarrow> x \<in> set bs \<Longrightarrow> s + i * sz + offset x + elem_bytes x \<le> length src) \<Longrightarrow>
    length (structs_bytes src s sz n bs) = n * members_bytes bs"
proof (induction n arbitrary: s)
  case (Suc n)
  have "length (struct_bytes src s bs) = members_bytes bs"
    using Suc.prems [of 0] by (intro length_struct_bytes) simp
  moreover have "length (structs_bytes src (s + sz) sz n bs) = n * members_bytes bs"
    using Suc.prems [of "Suc i" for i] by (intro Suc.IH) (simp add: algebra_simps)
  ultimately show ?case by simp
qed simp

lemma tlv_header_length [simp]: "length (tlv_header ty n) = 3"
  by (simp add: tlv_header_def)

lemma basic_type_simps [simp]:
  "\<not> basic_type QMI_EOTI" "\<not> basic_type QMI_OPT_FLAG" "\<not> basic_type QMI_DATA_LEN"
  "\<not> basic_type QMI_STRUCT" "\<not> basic_type QMI_STRING"
  by (simp_all add: basic_type_def)

lemma wf_member_not:
  assumes "wf_member e"
  shows "data_type e \<noteq> QMI_EOTI" "data_type e \<noteq> QMI_OPT_FLAG" "data_type e \<noteq> QMI_DATA_LEN"
    "data_type e \<noteq> QMI_STRUCT" "data_type e \<noteq> QMI_STRING"
  using assms by (auto simp: wf_member_def)

lemma wf_body_not:
  assumes "wf_body h e"
  shows "data_type e \<noteq> QMI_EOTI" "data_type e \<noteq> QMI_OPT_FLAG" "data_type e \<noteq> QMI_DATA_LEN"
  using assms by (auto simp: wf_body_def)

end
