(* ===== verification/Qmi_Encode.thy ===== *)
theory Qmi_Encode
  imports Qmi_Group
begin

text \<open>
  The encoder against the reference: on a struct that fits the descriptor \<open>qmi_encode\<close> writes the
  bytes of the message if they fit into the buffer and the lengths are valid, and returns
  \<open>-EINVAL\<close> otherwise; in both cases it touches only the buffer.
\<close>

section \<open>Words\<close>

lemma unat32: "n < 2 ^ 32 \<Longrightarrow> unat (of_nat n :: u32) = n"
  by (simp add: unat_of_nat take_bit_nat_eq_self)

lemma sint32: "n < 2 ^ 31 \<Longrightarrow> sint (of_nat n :: u32) = int n"
  by (simp add: sint_small unat32)

lemma unat_sub_of_nat: "n \<le> unat (a :: u32) \<Longrightarrow> unat (a - of_nat n) = unat a - n"
proof -
  assume n: "n \<le> unat a"
  have "unat a < 2 ^ 32" by (rule order_less_le_trans [OF unsigned_less]) simp
  with n have "unat (of_nat n :: u32) = n" by (simp add: unat32)
  with n show ?thesis by (simp add: unat_sub word_le_nat_alt)
qed

lemma update_encode_int [simp]:
  "update_encode (int k) mem st = Some (st\<lparr>en_mem := mem, en_dst := en_dst st + k,
     en_bytes := en_bytes st + of_nat k, en_tlv_len := en_tlv_len st + of_nat k, en_tlv := True\<rparr>)"
  by (simp add: update_encode_def advance_def)

lemma enc_count_plain: "array_type e \<noteq> VAR_LEN_ARRAY \<Longrightarrow>
    \<exists>n. enc_count e dl = Some n \<and> unat n = elem_count e"
  by (cases "array_type e") (auto simp: enc_count_def elem_count_def)

section \<open>One piece after another\<close>

text \<open>
  After the piece \<open>A\<close> the rest of the run writes \<open>B\<close> or fails inside its part of the buffer: seen from
  before \<open>A\<close>, the run writes both pieces or fails inside the buffer.
\<close>

lemma written_after:
  assumes rest: "if ok then run = Some (rc, blit (blit mem d A) (d + length A) B)
      else \<exists>mem'. run = Some (- EINVAL, mem') \<and> inside (blit mem d A) d' n' mem'"
    and room: "ok \<Longrightarrow> d + length A + length B \<le> length mem" "d + length A \<le> length mem"
    and part: "i \<le> d" "d + length A \<le> i + n" "i \<le> d'" "n' = 0 \<or> d' + n' \<le> i + n"
  shows "if ok then run = Some (rc, blit mem d (A @ B))
    else \<exists>mem'. run = Some (- EINVAL, mem') \<and> inside mem i n mem'"
proof (cases ok)
  case True
  with rest room blit_append [of d A B mem] show ?thesis by simp
next
  case False
  with rest obtain mem' where mem': "run = Some (- EINVAL, mem')" "inside (blit mem d A) d' n' mem'" by auto
  have "inside mem i n (blit mem d A)" using part room by (auto simp: inside_def blit_nth)
  moreover have "inside (blit mem d A) i n mem'" using mem'(2) part by (auto simp: inside_def)
  ultimately have "inside mem i n mem'" by (rule inside_trans)
  with False mem'(1) show ?thesis by auto
qed

section \<open>Nested structs\<close>

text \<open>The variables of the encoder at a nested level, \<open>k\<close> bytes into the struct.\<close>

lemma enc_elem_member:
  assumes m: "wf_member e" and n: "unat (en_dlen st) = elem_count e"
    and bytes: "en_bytes st = of_nat k" "k \<le> unat out_len" "unat out_len < 2 ^ 31"
    and room: "k + elem_bytes e + 3 \<le> unat out_len \<Longrightarrow> en_dst st + elem_bytes e \<le> length (en_mem st)"
    and src: "s + elem_bytes e \<le> length src"
  shows "enc_elem False src s out_len level e es st =
    (if k + elem_bytes e + 3 \<le> unat out_len
     then Some (Inr (es, st\<lparr>en_mem := blit (en_mem st) (en_dst st) (slice src s (elem_bytes e)),
       en_dst := en_dst st + elem_bytes e, en_bytes := of_nat (k + elem_bytes e),
       en_tlv_len := en_tlv_len st + of_nat (elem_bytes e), en_tlv := True\<rparr>))
     else Some (Inl (- EINVAL, en_mem st)))"
proof -
  have eb: "unat (en_dlen st) * unat (elem_size e) = elem_bytes e" using n by (simp add: elem_bytes_def)
  have lt: "elem_bytes e < 2 ^ 31" and bt: "basic_type (data_type e)" using m by (simp_all add: wf_member_def)
  have "unat (en_dlen st * elem_size e) = elem_bytes e" using eb lt by (simp add: unat_mult_small)
  moreover have "unat (en_bytes st) = k" using bytes by (simp add: unat32)
  ultimately have chk: "unat (en_dlen st * elem_size e + en_bytes st) = elem_bytes e + k"
    using lt bytes(2,3) by (subst unat_add_le) auto
  show ?thesis
  proof (cases "k + elem_bytes e + 3 \<le> unat out_len")
    case True
    have "qmi_encode_basic_elem (en_mem st) (en_dst st) src s (en_dlen st) (elem_size e) =
        Some (int (elem_bytes e), blit (en_mem st) (en_dst st) (slice src s (elem_bytes e)))"
      using encode_basic_eq [of "en_dlen st" "elem_size e" "en_dst st" "en_mem st" s src] lt eb room [OF True] src
      by simp
    then show ?thesis using True chk bt wf_member_not [OF m] bytes
      by (simp add: enc_elem_def add.commute)
  next
    case False
    then show ?thesis using chk bt wf_member_not [OF m] by (simp add: enc_elem_def add.commute)
  qed
qed

lemma enc_members:
  assumes "\<forall>b \<in> set bs. wf_member b" "data_type z = QMI_EOTI" "level \<noteq> 1"
    and "\<And>x. x \<in> set bs \<Longrightarrow> s + offset x + elem_bytes x \<le> length src"
    and "en_bytes st = of_nat k" "k \<le> unat out_len" "unat out_len < 2 ^ 31"
    and "en_dst st + (unat out_len - k) \<le> length (en_mem st) + 3"
  shows "if bs = [] \<or> k + members_bytes bs + 3 \<le> unat out_len
    then enc_loop False src s out_len level (bs @ [z]) st =
      Some (int (k + members_bytes bs), blit (en_mem st) (en_dst st) (struct_bytes src s bs))
    else \<exists>mem. enc_loop False src s out_len level (bs @ [z]) st = Some (- EINVAL, mem) \<and>
      inside (en_mem st) (en_dst st) (unat out_len - k - 3) mem"
  using assms
proof (induction bs arbitrary: st k)
  case Nil
  then show ?case by (simp add: sint32)
next
  case (Cons e bs)
  let ?w = "elem_bytes e"
  have m: "wf_member e" using Cons.prems(1) by simp
  then have "array_type e \<noteq> VAR_LEN_ARRAY" by (simp add: wf_member_def)
  from enc_count_plain [OF this, of "en_dlen st"] obtain n where
    n: "enc_count e (en_dlen st) = Some n" "unat n = elem_count e" by auto
  let ?st = "st\<lparr>en_dlen := n\<rparr>"
  have src: "s + offset e + ?w \<le> length src" using Cons.prems(4) by simp
  have step: "enc_elem False src (s + offset e) out_len level e (bs @ [z]) ?st =
    (if k + ?w + 3 \<le> unat out_len
     then Some (Inr (bs @ [z], ?st\<lparr>en_mem := blit (en_mem st) (en_dst st) (slice src (s + offset e) ?w),
       en_dst := en_dst st + ?w, en_bytes := of_nat (k + ?w),
       en_tlv_len := en_tlv_len st + of_nat ?w, en_tlv := True\<rparr>))
     else Some (Inl (- EINVAL, en_mem st)))"
    using enc_elem_member [OF m, of ?st k out_len "s + offset e" src level "bs @ [z]"] n Cons.prems(5-8) src
    by simp
  have loop: "enc_loop False src s out_len level ((e # bs) @ [z]) st =
    do { r \<leftarrow> enc_elem False src (s + offset e) out_len level e (bs @ [z]) ?st;
         (case r of
            Inl res \<Rightarrow> Some res
          | Inr (nx, st) \<Rightarrow> do {
              st \<leftarrow> enc_tlv level (tlv_type e) st;
              enc_loop False src s out_len level nx st }) }"
    using n wf_member_not [OF m] by (simp add: Let_def)
  show ?case
  proof (cases "k + ?w + 3 \<le> unat out_len")
    case False
    then show ?thesis unfolding loop step by simp
  next
    case True
    let ?st' = "?st\<lparr>en_mem := blit (en_mem st) (en_dst st) (slice src (s + offset e) ?w),
       en_dst := en_dst st + ?w, en_bytes := of_nat (k + ?w),
       en_tlv_len := en_tlv_len st + of_nat ?w, en_tlv := True\<rparr>"
    have nxt: "enc_loop False src s out_len level ((e # bs) @ [z]) st = enc_loop False src s out_len level (bs @ [z]) ?st'"
      unfolding loop step using True Cons.prems(3) by (simp add: enc_tlv_def)
    have len: "length (blit (en_mem st) (en_dst st) (slice src (s + offset e) ?w)) = length (en_mem st)"
      using Cons.prems(8) True src by simp
    have ih: "if bs = [] \<or> (k + ?w) + members_bytes bs + 3 \<le> unat out_len
      then enc_loop False src s out_len level (bs @ [z]) ?st' =
        Some (int ((k + ?w) + members_bytes bs), blit (en_mem ?st') (en_dst ?st') (struct_bytes src s bs))
      else \<exists>mem. enc_loop False src s out_len level (bs @ [z]) ?st' = Some (- EINVAL, mem) \<and>
        inside (en_mem ?st') (en_dst ?st') (unat out_len - (k + ?w) - 3) mem"
      by (rule Cons.IH) (use Cons.prems True len in auto)
    have sl: "length (struct_bytes src s bs) = members_bytes bs"
      using Cons.prems(4) by (intro length_struct_bytes) simp
    have "if bs = [] \<or> (k + ?w) + members_bytes bs + 3 \<le> unat out_len
      then enc_loop False src s out_len level (bs @ [z]) ?st' = Some (int ((k + ?w) + members_bytes bs),
        blit (en_mem st) (en_dst st) (slice src (s + offset e) ?w @ struct_bytes src s bs))
      else \<exists>mem. enc_loop False src s out_len level (bs @ [z]) ?st' = Some (- EINVAL, mem) \<and>
        inside (en_mem st) (en_dst st) (unat out_len - k - 3) mem"
      by (rule written_after) (use ih sl src True Cons.prems(8) in auto)
    then show ?thesis unfolding nxt using True
      by (auto simp: add.assoc split: if_split_asm simp del: enc_loop.simps)
  qed
qed

lemma enc_structs_eq:
  assumes "\<forall>b \<in> set bs. wf_member b" "bs \<noteq> []" "data_type z = QMI_EOTI" "level \<noteq> 1"
    and "\<And>i x. i < n \<Longrightarrow> x \<in> set bs \<Longrightarrow> s + i * sz + offset x + elem_bytes x \<le> length src"
    and "k \<le> unat out_len" "unat out_len < 2 ^ 31" "d + (unat out_len - k) \<le> length mem + 3"
  shows "if n = 0 \<or> k + n * members_bytes bs + 3 \<le> unat out_len
    then enc_structs False src s out_len level (Some (bs @ [z])) sz n mem d (int k) =
      Some (int (k + n * members_bytes bs), blit mem d (structs_bytes src s sz n bs))
    else \<exists>mem'. enc_structs False src s out_len level (Some (bs @ [z])) sz n mem d (int k) = Some (- EINVAL, mem') \<and>
      inside mem d (unat out_len - k - 3) mem'"
  using assms
proof (induction n arbitrary: s mem d k)
  case 0
  then show ?case by simp
next
  case (Suc n)
  let ?W = "members_bytes bs"
  let ?st = "enc_init level mem d"
  have src: "s + offset x + elem_bytes x \<le> length src" if "x \<in> set bs" for x
    using Suc.prems(5) [of 0 x] that by simp
  have av: "unat (out_len - word_of_int (int k)) = unat out_len - k"
    using Suc.prems(6) unat_sub_of_nat [of k out_len] by simp
  have av': "unat (out_len - word_of_nat k) = unat out_len - k"
    using Suc.prems(6) by (rule unat_sub_of_nat)
  have first: "if bs = [] \<or> 0 + ?W + 3 \<le> unat (out_len - word_of_int (int k))
    then enc_loop False src s (out_len - word_of_int (int k)) level (bs @ [z]) ?st =
      Some (int (0 + ?W), blit (en_mem ?st) (en_dst ?st) (struct_bytes src s bs))
    else \<exists>mem. enc_loop False src s (out_len - word_of_int (int k)) level (bs @ [z]) ?st = Some (- EINVAL, mem) \<and>
      inside (en_mem ?st) (en_dst ?st) (unat (out_len - word_of_int (int k)) - 0 - 3) mem"
    by (rule enc_members) (use Suc.prems src in \<open>auto simp: av' enc_init_def\<close>)
  have src': "(s + sz) + i * sz + offset x + elem_bytes x \<le> length src" if "i < n" "x \<in> set bs" for i x
    using Suc.prems(5) [of "Suc i" x] that by (simp add: algebra_simps)
  have sl: "length (struct_bytes src s bs) = ?W" using src by (rule length_struct_bytes)
  show ?case
  proof (cases "k + ?W + 3 \<le> unat out_len")
    case False
    with first Suc.prems(2,4) av av' obtain mem' where
      "enc_loop False src s (out_len - word_of_int (int k)) level (bs @ [z]) ?st = Some (- EINVAL, mem')"
      "inside mem d (unat out_len - k - 3) mem'"
      by (auto simp: enc_init_def split: if_split_asm)
    with False show ?thesis by (auto simp: EINVAL_def)
  next
    case True
    let ?mem = "blit mem d (struct_bytes src s bs)"
    have step: "enc_structs False src s out_len level (Some (bs @ [z])) sz (Suc n) mem d (int k) =
        enc_structs False src (s + sz) out_len level (Some (bs @ [z])) sz n ?mem (d + ?W) (int (k + ?W))"
      using first True av av' Suc.prems(2,4,6,7) by (auto simp: enc_init_def split: if_split_asm)
    have len: "length ?mem = length mem" using sl Suc.prems(8) True by simp
    have ih: "if n = 0 \<or> (k + ?W) + n * ?W + 3 \<le> unat out_len
      then enc_structs False src (s + sz) out_len level (Some (bs @ [z])) sz n ?mem (d + ?W) (int (k + ?W)) =
        Some (int ((k + ?W) + n * ?W), blit ?mem (d + ?W) (structs_bytes src (s + sz) sz n bs))
      else \<exists>mem'. enc_structs False src (s + sz) out_len level (Some (bs @ [z])) sz n ?mem (d + ?W) (int (k + ?W)) =
        Some (- EINVAL, mem') \<and> inside ?mem (d + ?W) (unat out_len - (k + ?W) - 3) mem'"
      by (rule Suc.IH) (use Suc.prems(1-4,6-8) True len src' in auto)
    have ls: "length (structs_bytes src (s + sz) sz n bs) = n * ?W" using src' by (rule length_structs_bytes)
    have "if n = 0 \<or> (k + ?W) + n * ?W + 3 \<le> unat out_len
      then enc_structs False src (s + sz) out_len level (Some (bs @ [z])) sz n ?mem (d + ?W) (int (k + ?W)) =
        Some (int ((k + ?W) + n * ?W), blit mem d (struct_bytes src s bs @ structs_bytes src (s + sz) sz n bs))
      else \<exists>mem'. enc_structs False src (s + sz) out_len level (Some (bs @ [z])) sz n ?mem (d + ?W) (int (k + ?W)) =
        Some (- EINVAL, mem') \<and> inside mem d (unat out_len - k - 3) mem'"
      by (rule written_after) (use ih sl ls True Suc.prems(8) in auto)
    then show ?thesis unfolding step using True
      by (auto simp: algebra_simps split: if_split_asm simp del: enc_structs.simps)
  qed
qed

section \<open>The element of a group\<close>

lemma length_body_bytes:
  assumes "body_in src b e" "n \<le> elem_count e"
  shows "length (body_bytes src b e n) =
    (if data_type e = QMI_STRING then length (c_string src (b + offset e))
     else if data_type e = QMI_STRUCT then n * members_bytes (members e) else n * unat (elem_size e))"
proof -
  have "n * unat (elem_size e) \<le> elem_bytes e" using assms(2) by (simp add: elem_bytes_def)
  then show ?thesis using assms
    by (auto simp: body_bytes_def body_in_def intro!: length_structs_bytes)
qed

text \<open>The variables after \<open>bs\<close> has been written for an element.\<close>

definition en_put :: "u32 \<Rightarrow> u8 list \<Rightarrow> nat \<Rightarrow> enc \<Rightarrow> enc" where
  "en_put n bs k st = st\<lparr>en_dlen := n, en_mem := blit (en_mem st) (en_dst st) bs, en_dst := en_dst st + length bs,
     en_bytes := of_nat (k + length bs), en_tlv_len := en_tlv_len st + of_nat (length bs),
     en_tlv := True\<rparr>"

definition body_ok :: "u8 list \<Rightarrow> nat \<Rightarrow> qmi_elem_info \<Rightarrow> nat \<Rightarrow> nat \<Rightarrow> nat \<Rightarrow> bool" where
  "body_ok src b e n k out_len \<longleftrightarrow> k + length (body_bytes src b e n) + 3 \<le> out_len \<and>
     (data_type e = QMI_STRING \<longrightarrow> length (c_string src (b + offset e)) \<le> unat (elem_len e))"

lemma encode_string_eq:
  assumes nul: "0 \<in> set (drop s src)" and sz: "elem_size e = 1" and src: "length src < 2 ^ 31"
    and room: "d + unat out_len \<le> length dst + 3"
  shows "qmi_encode_string_elem False e dst d src s out_len 1 =
    (if length (c_string src s) \<le> unat (elem_len e) \<and> length (c_string src s) + 3 \<le> unat out_len
     then Some (int (length (c_string src s)), blit dst d (c_string src s)) else Some (- EINVAL, dst))"
proof -
  let ?n = "length (c_string src s)"
  have lt: "?n < 2 ^ 31" using c_string_end(1) [OF nul] src by linarith
  then have u: "unat (of_nat ?n :: u32) = ?n" by (simp add: unat32)
  have "s + ?n \<le> length src" using c_string_end(1) [OF nul] by simp
  then have "?n + 3 \<le> unat out_len \<Longrightarrow> qmi_encode_basic_elem dst d src s (of_nat ?n) 1 =
      Some (int ?n, blit dst d (c_string src s))"
    using encode_basic_eq [of "of_nat ?n" 1 d dst s src] u lt room c_string_end(3) [OF nul] by simp
  then show ?thesis
    by (simp add: qmi_encode_string_elem_def strlen_at_eq [OF nul] Let_def sz u word_less_nat_alt not_le not_less)
qed

text \<open>The three kinds of elements. Each is written as a whole or refused before its TLV is closed.\<close>

lemma enc_body_basic:
  assumes wf: "wf_body h e" and body: "body_in src b e" and basic: "basic_type (data_type e)" "elem_bytes e < 2 ^ 31"
    and n: "enc_count e (en_dlen st) = Some n" "unat n \<le> elem_count e"
    and bytes: "en_bytes st = of_nat k" "k \<le> unat out_len" "unat out_len < 2 ^ 31"
    and src: "length src < 2 ^ 31" and room: "en_dst st + (unat out_len - k) \<le> length (en_mem st) + 3"
  shows "if body_ok src b e (unat n) k (unat out_len)
    then enc_loop False src b out_len 1 (e # rest) st =
      do { st \<leftarrow> enc_tlv 1 (tlv_type e) (en_put n (body_bytes src b e (unat n)) k st);
           enc_loop False src b out_len 1 rest st }
    else \<exists>mem. enc_loop False src b out_len 1 (e # rest) st = Some (- EINVAL, mem) \<and>
      inside (en_mem st) (en_dst st) (unat out_len - k - 3) mem"
proof -
  let ?s = "b + offset e"
  let ?B = "body_bytes src b e (unat n)"
  have k: "unat (en_bytes st) = k" using bytes by (simp add: unat32)
  have av: "unat (out_len - en_bytes st) = unat out_len - k" using unat_sub_of_nat bytes by simp
  from basic have nd: "data_type e \<noteq> QMI_STRING" "data_type e \<noteq> QMI_STRUCT" by auto
  obtain w where w: "unat n * unat (elem_size e) = w" by simp
  have le: "w \<le> elem_bytes e" using n(2) w by (auto simp: elem_bytes_def)
  then have m: "unat (n * elem_size e) = w" using basic w by (simp add: unat_mult_small)
  have chk: "unat (n * elem_size e + en_bytes st) = w + k"
    using m k le basic bytes by (subst unat_add_le) auto
  have in_src: "?s + w \<le> length src" using body nd le by (simp add: body_in_def)
  have B: "?B = slice src ?s w" using nd w by (simp add: body_bytes_def)
  then have lB: "length ?B = w" using in_src by simp
  show ?thesis
  proof (cases "body_ok src b e (unat n) k (unat out_len)")
    case True
    then have fit: "k + w + 3 \<le> unat out_len" using lB by (simp add: body_ok_def)
    have lt: "w < 2 ^ 31" using le basic by simp
    have dst: "en_dst st + w \<le> length (en_mem st)" using fit room by linarith
    have "qmi_encode_basic_elem (en_mem st) (en_dst st) src ?s n (elem_size e) =
        Some (int (length ?B), blit (en_mem st) (en_dst st) ?B)"
      unfolding lB unfolding B using encode_basic_eq [of n "elem_size e", unfolded w, OF lt dst in_src] .
    then show ?thesis using True basic nd wf_body_not [OF wf] n(1) chk lB bytes(1)
      by (simp add: Let_def enc_elem_def body_ok_def en_put_def)
  next
    case False
    then show ?thesis using basic nd wf_body_not [OF wf] n(1) chk lB
      by (simp add: Let_def enc_elem_def body_ok_def)
  qed
qed

lemma enc_body_string:
  assumes wf: "wf_body h e" and body: "body_in src b e" and str: "data_type e = QMI_STRING" "elem_size e = 1" "array_type e = NO_ARRAY"
    and n: "enc_count e (en_dlen st) = Some n" "unat n \<le> elem_count e"
    and bytes: "en_bytes st = of_nat k" "k \<le> unat out_len" "unat out_len < 2 ^ 31"
    and src: "length src < 2 ^ 31" and room: "en_dst st + (unat out_len - k) \<le> length (en_mem st) + 3"
  shows "if body_ok src b e (unat n) k (unat out_len)
    then enc_loop False src b out_len 1 (e # rest) st =
      do { st \<leftarrow> enc_tlv 1 (tlv_type e) (en_put n (body_bytes src b e (unat n)) k st);
           enc_loop False src b out_len 1 rest st }
    else \<exists>mem. enc_loop False src b out_len 1 (e # rest) st = Some (- EINVAL, mem) \<and>
      inside (en_mem st) (en_dst st) (unat out_len - k - 3) mem"
proof -
  let ?s = "b + offset e"
  let ?B = "body_bytes src b e (unat n)"
  have k: "unat (en_bytes st) = k" using bytes by (simp add: unat32)
  have av: "unat (out_len - en_bytes st) = unat out_len - k" using unat_sub_of_nat bytes by simp
  have B: "?B = c_string src ?s" using str by (simp add: body_bytes_def)
  have nul: "0 \<in> set (drop ?s src)" using body str by (simp add: body_in_def)
  have "en_dst st + unat (out_len - en_bytes st) \<le> length (en_mem st) + 3" using room av by simp
  note eq = encode_string_eq [OF nul str(2) src this]
  show ?thesis
  proof (cases "body_ok src b e (unat n) k (unat out_len)")
    case True
    then show ?thesis using str n(1) eq B bytes(1,2) av
      by (auto simp: Let_def enc_elem_def body_ok_def en_put_def)
  next
    case False
    then show ?thesis using str n(1) eq B bytes(2) av
      by (auto simp: Let_def enc_elem_def body_ok_def EINVAL_def)
  qed
qed

lemma enc_body_struct:
  assumes wf: "wf_body h e" and body: "body_in src b e" and struct: "data_type e = QMI_STRUCT"
    and n: "enc_count e (en_dlen st) = Some n" "unat n \<le> elem_count e" "data_type e = QMI_STRUCT \<Longrightarrow> 0 < unat n"
    and bytes: "en_bytes st = of_nat k" "k \<le> unat out_len" "unat out_len < 2 ^ 31"
    and src: "length src < 2 ^ 31" and room: "en_dst st + (unat out_len - k) \<le> length (en_mem st) + 3"
  shows "if body_ok src b e (unat n) k (unat out_len)
    then enc_loop False src b out_len 1 (e # rest) st =
      do { st \<leftarrow> enc_tlv 1 (tlv_type e) (en_put n (body_bytes src b e (unat n)) k st);
           enc_loop False src b out_len 1 rest st }
    else \<exists>mem. enc_loop False src b out_len 1 (e # rest) st = Some (- EINVAL, mem) \<and>
      inside (en_mem st) (en_dst st) (unat out_len - k - 3) mem"
proof -
  let ?s = "b + offset e"
  let ?B = "body_bytes src b e (unat n)"
  have k: "unat (en_bytes st) = k" using bytes by (simp add: unat32)
  have av: "unat (out_len - en_bytes st) = unat out_len - k" using unat_sub_of_nat bytes by simp
  from struct obtain z where z: "ei_array e = Some (members e @ [z])" "data_type z = QMI_EOTI"
    and ms: "\<forall>b \<in> set (members e). wf_member b" "members e \<noteq> []"
    using wf by (auto simp: wf_body_def)
  have in_src: "?s + i * unat (elem_size e) + offset x + elem_bytes x \<le> length src"
    if "i < unat n" "x \<in> set (members e)" for i x
    using body struct that n(2) by (auto simp: body_in_def)
  have B: "?B = structs_bytes src ?s (unat (elem_size e)) (unat n) (members e)"
    using struct by (simp add: body_bytes_def)
  obtain w where w: "unat n * members_bytes (members e) = w" by simp
  have lB: "length ?B = w"
    unfolding B w [symmetric] using in_src by (rule length_structs_bytes)
  have "if unat n = 0 \<or> 0 + unat n * members_bytes (members e) + 3 \<le> unat (out_len - en_bytes st)
    then enc_structs False src ?s (out_len - en_bytes st) 2 (Some (members e @ [z])) (unat (elem_size e)) (unat n)
        (en_mem st) (en_dst st) (int 0) =
      Some (int (0 + unat n * members_bytes (members e)), blit (en_mem st) (en_dst st)
        (structs_bytes src ?s (unat (elem_size e)) (unat n) (members e)))
    else \<exists>mem'. enc_structs False src ?s (out_len - en_bytes st) 2 (Some (members e @ [z])) (unat (elem_size e)) (unat n)
        (en_mem st) (en_dst st) (int 0) = Some (- EINVAL, mem') \<and>
      inside (en_mem st) (en_dst st) (unat (out_len - en_bytes st) - 0 - 3) mem'"
    by (rule enc_structs_eq) (use ms z in_src av bytes room in auto)
  note eq = this [unfolded w B [symmetric]]
  show ?thesis
  proof (cases "body_ok src b e (unat n) k (unat out_len)")
    case True
    then have "w + 3 \<le> unat (out_len - en_bytes st)"
      unfolding body_ok_def lB av by linarith
    then show ?thesis using True eq struct n(1) z(1) lB bytes(1)
      by (auto simp: Let_def en_put_def numeral_2_eq_2)
  next
    case False
    then have "\<not> (unat n = 0 \<or> 0 + w + 3 \<le> unat (out_len - en_bytes st))"
      using n(3) struct bytes(2) unfolding body_ok_def lB av by (auto simp: not_le)
    then show ?thesis using False eq struct n(1) z(1) av
      by (auto simp: Let_def EINVAL_def numeral_2_eq_2)
  qed
qed

lemma enc_body:
  assumes wf: "wf_body h e" and body: "body_in src b e"
    and n: "enc_count e (en_dlen st) = Some n" "unat n \<le> elem_count e" "data_type e = QMI_STRUCT \<Longrightarrow> 0 < unat n"
    and bytes: "en_bytes st = of_nat k" "k \<le> unat out_len" "unat out_len < 2 ^ 31"
    and src: "length src < 2 ^ 31" and room: "en_dst st + (unat out_len - k) \<le> length (en_mem st) + 3"
  shows "if body_ok src b e (unat n) k (unat out_len)
    then enc_loop False src b out_len 1 (e # rest) st =
      do { st \<leftarrow> enc_tlv 1 (tlv_type e) (en_put n (body_bytes src b e (unat n)) k st);
           enc_loop False src b out_len 1 rest st }
    else \<exists>mem. enc_loop False src b out_len 1 (e # rest) st = Some (- EINVAL, mem) \<and>
      inside (en_mem st) (en_dst st) (unat out_len - k - 3) mem"
proof -
  consider (basic) "basic_type (data_type e)" "elem_bytes e < 2 ^ 31"
    | (str) "data_type e = QMI_STRING" "elem_size e = 1" "array_type e = NO_ARRAY"
    | (struct) "data_type e = QMI_STRUCT" using wf by (auto simp: wf_body_def)
  then show ?thesis
  proof cases
    case basic
    show ?thesis by (rule enc_body_basic [OF wf body basic n(1,2) bytes src room])
  next
    case str
    show ?thesis by (rule enc_body_string [OF wf body str n(1,2) bytes src room])
  next
    case struct
    show ?thesis by (rule enc_body_struct [OF wf body struct n bytes src room])
  qed
qed

section \<open>Groups\<close>

text \<open>The variables at the top level after \<open>l\<close> bytes of finished TLVs and the bytes \<open>p\<close> of the next.\<close>

definition en_mid :: "u8 list \<Rightarrow> nat \<Rightarrow> nat \<Rightarrow> u8 list \<Rightarrow> u32 \<Rightarrow> enc" where
  "en_mid mem d l p dl = \<lparr>en_mem = blit mem (d + l + 3) p, en_dst = d + l + 3 + length p, en_tlvp = d + l,
     en_tlv_len = of_nat (length p), en_bytes = of_nat (l + length p), en_dlen = dl, en_tlv = False\<rparr>"

definition en_done :: "u8 list \<Rightarrow> nat \<Rightarrow> nat \<Rightarrow> u8 \<Rightarrow> u8 list \<Rightarrow> u32 \<Rightarrow> enc" where
  "en_done mem d l ty p dl = en_mid (blit mem (d + l) (tlv_header ty (length p) @ p)) d (l + 3 + length p) [] dl"

lemma enc_tlv_mid:
  assumes "d + l + 3 + length p \<le> length mem"
  shows "enc_tlv 1 ty (en_mid mem d l p dl\<lparr>en_tlv := True\<rparr>) = Some (en_done mem d l ty p dl)"
proof -
  have "blit (blit mem (d + l + 3) p) (d + l) (tlv_header ty (length p)) =
      blit mem (d + l) (tlv_header ty (length p) @ p)"
    using blit_before [of "d + l" "tlv_header ty (length p)" p mem] assms by simp
  then show ?thesis using assms
    by (simp add: enc_tlv_def en_mid_def en_done_def mem_put_eq tlv_header_def algebra_simps)
qed

lemma inside_mid:
  assumes "d + out \<le> length mem" "l + length p + 3 \<le> out"
    and "inside (blit mem (d + l + 3) p) (d + l + 3 + length p) (out - (l + length p) - 3) mem'"
  shows "inside mem d out mem'"
proof -
  have "inside mem d out (blit mem (d + l + 3) p)" using assms(1,2) by (intro inside_blit) auto
  moreover have "inside (blit mem (d + l + 3) p) d out mem'" using assms(2,3) by (auto simp: inside_def)
  ultimately show ?thesis by (rule inside_trans)
qed

lemma enc_body_mid:
  assumes wf: "wf_body h e" and body: "body_in src b e"
    and n: "enc_count e dl = Some n" "unat n \<le> elem_count e" "data_type e = QMI_STRUCT \<Longrightarrow> 0 < unat n"
    and out: "unat out_len < 2 ^ 31" "d + unat out_len \<le> length mem" "length src < 2 ^ 31"
    and p: "l \<le> unat out_len" "p \<noteq> [] \<Longrightarrow> l + length p + 3 \<le> unat out_len"
  shows "if body_ok src b e (unat n) (l + length p) (unat out_len)
    then enc_loop False src b out_len 1 (e # rest) (en_mid mem d l p dl) =
      enc_loop False src b out_len 1 rest (en_done mem d l (tlv_type e) (p @ body_bytes src b e (unat n)) n)
    else \<exists>mem'. enc_loop False src b out_len 1 (e # rest) (en_mid mem d l p dl) = Some (- EINVAL, mem') \<and>
      inside mem d (unat out_len) mem'"
proof -
  let ?st = "en_mid mem d l p dl" and ?B = "body_bytes src b e (unat n)"
  have lp: "l + length p \<le> unat out_len" using p by (cases p) auto
  have len: "length (blit mem (d + l + 3) p) = length mem"
    using p out(2) by (cases "p = []") auto
  have B: "if body_ok src b e (unat n) (l + length p) (unat out_len)
    then enc_loop False src b out_len 1 (e # rest) ?st =
      do { st \<leftarrow> enc_tlv 1 (tlv_type e) (en_put n ?B (l + length p) ?st);
           enc_loop False src b out_len 1 rest st }
    else \<exists>mem. enc_loop False src b out_len 1 (e # rest) ?st = Some (- EINVAL, mem) \<and>
      inside (en_mem ?st) (en_dst ?st) (unat out_len - (l + length p) - 3) mem"
    by (rule enc_body [OF wf body _ n(2)]) (use n out lp len in \<open>auto simp: en_mid_def\<close>)
  show ?thesis
  proof (cases "body_ok src b e (unat n) (l + length p) (unat out_len)")
    case True
    then have fit: "d + l + 3 + length p + length ?B \<le> length mem" using out(2) by (simp add: body_ok_def)
    have "en_put n ?B (l + length p) ?st = en_mid mem d l (p @ ?B) n\<lparr>en_tlv := True\<rparr>"
      using blit_append [of "d + l + 3" p ?B mem] fit by (simp add: en_put_def en_mid_def algebra_simps)
    with B True enc_tlv_mid [of d l "p @ ?B" mem "tlv_type e" n] fit show ?thesis by simp
  next
    case False
    with B obtain mem' where mem': "enc_loop False src b out_len 1 (e # rest) ?st = Some (- EINVAL, mem')"
      "inside (en_mem ?st) (en_dst ?st) (unat out_len - (l + length p) - 3) mem'" by auto
    have "inside mem d (unat out_len) mem'"
    proof (cases "p = []")
      case True
      then show ?thesis using mem'(2) p(1) by (auto simp: inside_def en_mid_def)
    next
      case False
      then show ?thesis using mem'(2) p(2) out(2) by (intro inside_mid [of d _ mem l p]) (auto simp: en_mid_def)
    qed
    then show ?thesis using mem'(1) False by auto
  qed
qed

lemma enc_flag:
  assumes f: "data_type f = QMI_OPT_FLAG" "array_type f = NO_ARRAY" "b + offset f < length src"
  shows "enc_loop False src b out_len 1 (f # es) (en_mid mem d l [] dl) =
    (if src ! (b + offset f) \<noteq> 0 then enc_loop False src b out_len 1 es (en_mid mem d l [] 1)
     else do { nx \<leftarrow> skip_same (tlv_type f) es; enc_loop False src b out_len 1 nx (en_mid mem d l [] 1) })"
proof -
  have "enc_count f dl = Some 1" using f(2) by (simp add: enc_count_def)
  then show ?thesis using f
    by (cases "skip_same (tlv_type f) es")
      (simp_all add: Let_def enc_elem_def enc_tlv_def en_mid_def skip_to_next_elem_def)
qed

lemma enc_len:
  assumes f: "data_type f = QMI_DATA_LEN" "array_type f = NO_ARRAY" "elem_size f = 1 \<or> elem_size f = 2"
    and src: "b + offset f + unat (elem_size f) \<le> length src"
    and rest: "rest = r # rs" "tlv_type r \<noteq> tlv_type e"
    and out: "unat out_len < 2 ^ 31" "d + unat out_len \<le> length mem" "l \<le> unat out_len"
  defines "L \<equiv> slice src (b + offset f) (unat (elem_size f))"
    and "n \<equiv> len_value src (b + offset f) (unat (elem_size f))"
  shows "enc_loop False src b out_len 1 (f # e # rest) (en_mid mem d l [] dl) =
    (if l + length L + 3 \<le> unat out_len
     then if n = 0 then enc_loop False src b out_len 1 rest (en_done mem d l (tlv_type f) L n)
       else enc_loop False src b out_len 1 (e # rest) (en_mid mem d l L n)
     else Some (- EINVAL, mem))"
proof -
  let ?sz = "unat (elem_size f)"
  let ?var = "blit [1, 0, 0, 0] 0 L"
  have sz: "?sz = 1 \<or> ?sz = 2" "len_size (elem_size f) = elem_size f" "?sz \<le> 4" using f(3) by (auto simp: len_size_def)
  have L: "length L = ?sz" using src by (simp add: L_def)
  have c: "enc_count f dl = Some 1" using f(2) by (simp add: enc_count_def)
  note rd = len_field_read [OF sz(1) src, folded L_def n_def]
  have var: "mem_copy (mem_bytes False 1) 0 src (b + offset f) ?sz = Some ?var"
    using mem_copy_eq [of 0 ?sz "[1, 0, 0, 0]" "b + offset f" src] sz(3) src by (simp add: mem_bytes_1 L_def)
  have chk: "unat (elem_size f + of_nat l) + 3 = l + length L + 3"
    using L sz(3) out by (subst unat_add_le) (simp_all add: unat32)
  let ?st = "en_mid mem d l [] 1"
  show ?thesis
  proof (cases "l + length L + 3 \<le> unat out_len")
    case False
    have "enc_data_len False src (b + offset f) out_len 1 f (e # rest) ?st = Some (Inl (- EINVAL, mem))"
      using False chk sz(2) var rd by (simp add: enc_data_len_def en_mid_def Let_def)
    then show ?thesis using False c f by (simp add: Let_def enc_elem_def en_mid_def)
  next
    case True
    have "slice ?var 0 ?sz = L" using rd(2) by (simp add: slice_def)
    then have enc: "qmi_encode_basic_elem mem (d + l + 3) ?var 0 1 (elem_size f) = Some (int (length L), blit mem (d + l + 3) L)"
      using encode_basic_eq [of 1 "elem_size f" "d + l + 3" mem 0 ?var] sz(3) rd(3) L True out by simp
    have upd: "update_encode (int (length L)) (blit mem (d + l + 3) L) (?st\<lparr>en_dlen := n\<rparr>) =
        Some (en_mid mem d l L n\<lparr>en_tlv := True\<rparr>)"
      by (simp add: en_mid_def)
    have skip: "skip_to_next_elem (e # rest) 1 = Some rest" using rest by (simp add: skip_to_next_elem_def)
    have dl: "enc_data_len False src (b + offset f) out_len 1 f (e # rest) ?st =
        Some (Inr (if n = 0 then (rest, en_mid mem d l L n\<lparr>en_tlv := True\<rparr>) else (e # rest, en_mid mem d l L n)))"
      using True chk sz(2) var rd enc upd skip by (simp add: enc_data_len_def Let_def en_mid_def)
    have tlv: "enc_tlv 1 (tlv_type f) (en_mid mem d l L n\<lparr>en_tlv := True\<rparr>) = Some (en_done mem d l (tlv_type f) L n)"
      using True out by (intro enc_tlv_mid) simp
    have tlv': "enc_tlv 1 (tlv_type f) (en_mid mem d l L n) = Some (en_mid mem d l L n)"
      by (simp add: enc_tlv_def en_mid_def)
    have st: "en_mid mem d l [] dl\<lparr>en_dlen := 1\<rparr> = ?st" by (simp add: en_mid_def)
    have "en_dlen (en_mid mem d l [] dl) = dl" by (simp add: en_mid_def)
    then show ?thesis using True c f dl tlv tlv' by (cases "n = 0") (simp_all add: Let_def enc_elem_def st)
  qed
qed

text \<open>What the encoder does with a whole group.\<close>

definition group_ok :: "u8 list \<Rightarrow> nat \<Rightarrow> group \<Rightarrow> nat \<Rightarrow> nat \<Rightarrow> bool" where
  "group_ok src b g l out_len \<longleftrightarrow>
     (present src b g \<longrightarrow> group_valid src b g \<and> l + 3 + length (payload src b g) \<le> out_len)"

lemma skip_group: "tlv_type r \<noteq> ty \<Longrightarrow> \<forall>x \<in> set xs. tlv_type x = ty \<Longrightarrow> skip_same ty (xs @ r # rs) = Some (r # rs)"
  by (induction xs) auto

lemma enc_group_plain:
  assumes wf: "wf_group g" and ins: "group_in src b g" and None: "g_len g = None"
    and out: "unat out_len < 2 ^ 31" "d + unat out_len \<le> length mem" "length src < 2 ^ 31" "l \<le> unat out_len"
  shows "if group_valid src b g \<and> l + 3 + length (payload src b g) \<le> unat out_len
    then \<exists>dl'. enc_loop False src b out_len 1 (opt_list (g_len g) @ g_body g # rest) (en_mid mem d l [] dl) =
      enc_loop False src b out_len 1 rest (en_done mem d l (g_type g) (payload src b g) dl')
    else \<exists>mem'. enc_loop False src b out_len 1 (opt_list (g_len g) @ g_body g # rest) (en_mid mem d l [] dl) =
      Some (- EINVAL, mem') \<and> inside mem d (unat out_len) mem'"
proof -
  let ?e = "g_body g"
  have wfb: "wf_body (g_len g \<noteq> None) ?e" using wf by (simp add: wf_group_def)
  have inb: "body_in src b ?e" using ins by (simp add: group_in_def)
  have gt: "tlv_type ?e = g_type g" by (simp add: g_type_def)
  have nv: "array_type ?e \<noteq> VAR_LEN_ARRAY" using wfb None by (simp add: wf_body_def)
  from enc_count_plain [OF this, of dl] obtain n where n: "enc_count ?e dl = Some n" "unat n = elem_count ?e" by auto
  have pos: "data_type ?e = QMI_STRUCT \<Longrightarrow> 0 < unat n" using wfb n(2) by (auto simp: wf_body_def)
  have eq: "body_ok src b ?e (unat n) (l + length ([] :: u8 list)) (unat out_len) \<longleftrightarrow>
      group_valid src b g \<and> l + 3 + length (payload src b g) \<le> unat out_len"
    using None n(2) by (auto simp: body_ok_def group_valid_def payload_def len_bytes_def g_count_def)
  have "if body_ok src b ?e (unat n) (l + length ([] :: u8 list)) (unat out_len)
    then enc_loop False src b out_len 1 (?e # rest) (en_mid mem d l [] dl) =
      enc_loop False src b out_len 1 rest (en_done mem d l (tlv_type ?e) ([] @ body_bytes src b ?e (unat n)) n)
    else \<exists>mem'. enc_loop False src b out_len 1 (?e # rest) (en_mid mem d l [] dl) = Some (- EINVAL, mem') \<and>
      inside mem d (unat out_len) mem'"
    by (rule enc_body_mid [OF wfb inb n(1)]) (use n(2) pos out in auto)
  then show ?thesis using None n(2) gt unfolding eq
    by (auto simp: payload_def len_bytes_def g_count_def split: if_split_asm)
qed

lemma enc_group_counted:
  assumes wf: "wf_group g" and ins: "group_in src b g" and Some: "g_len g = Some f"
    and rest: "rest = r # rs" "tlv_type r \<noteq> g_type g"
    and out: "unat out_len < 2 ^ 31" "d + unat out_len \<le> length mem" "length src < 2 ^ 31" "l \<le> unat out_len"
  shows "if group_valid src b g \<and> l + 3 + length (payload src b g) \<le> unat out_len
    then \<exists>dl'. enc_loop False src b out_len 1 (opt_list (g_len g) @ g_body g # rest) (en_mid mem d l [] dl) =
      enc_loop False src b out_len 1 rest (en_done mem d l (g_type g) (payload src b g) dl')
    else \<exists>mem'. enc_loop False src b out_len 1 (opt_list (g_len g) @ g_body g # rest) (en_mid mem d l [] dl) =
      Some (- EINVAL, mem') \<and> inside mem d (unat out_len) mem'"
proof -
  let ?e = "g_body g"
  have wfb: "wf_body (g_len g \<noteq> None) ?e" using wf by (simp add: wf_group_def)
  have inb: "body_in src b ?e" using ins by (simp add: group_in_def)
  have gt: "tlv_type ?e = g_type g" by (simp add: g_type_def)
  let ?L = "slice src (b + offset f) (unat (elem_size f))"
  let ?n = "len_value src (b + offset f) (unat (elem_size f))"
  have f: "data_type f = QMI_DATA_LEN" "array_type f = NO_ARRAY" "elem_size f = 1 \<or> elem_size f = 2"
    "tlv_type f = g_type g" using wf Some by (auto simp: wf_group_def)
  have src: "b + offset f + unat (elem_size f) \<le> length src" using ins Some by (auto simp: group_in_def)
  have arr: "array_type ?e = VAR_LEN_ARRAY" using wfb Some by (simp add: wf_body_def)
  then have nstr: "data_type ?e \<noteq> QMI_STRING" using wfb by (auto simp: wf_body_def)
  have cnt: "g_count src b g = unat ?n" "len_bytes src b g = ?L" using Some by (simp_all add: g_count_def len_bytes_def)
  have ec: "elem_count ?e = unat (elem_len ?e)" using arr by (simp add: elem_count_def)
  have valid: "group_valid src b g \<longleftrightarrow> unat ?n \<le> unat (elem_len ?e)"
    using Some nstr by (simp add: group_valid_def cnt)
  have pl: "payload src b g = ?L @ body_bytes src b ?e (unat ?n)" by (simp add: payload_def cnt)
  have "tlv_type r \<noteq> tlv_type ?e" using rest(2) gt by simp
  note lenstep = enc_len [OF f(1-3) src rest(1) this out(1,2,4), of dl]
  show ?thesis
  proof (cases "l + length ?L + 3 \<le> unat out_len")
    case False
    then show ?thesis using lenstep Some pl by (auto simp: f)
  next
    case fits: True
    show ?thesis
    proof (cases "?n = 0")
      case True
      have "body_bytes src b ?e 0 = []" using nstr by (simp add: body_bytes_def)
      then show ?thesis using True fits lenstep Some pl valid f(4) by auto
    next
      case False
      then have loop: "enc_loop False src b out_len 1 (opt_list (g_len g) @ ?e # rest) (en_mid mem d l [] dl) =
          enc_loop False src b out_len 1 (?e # rest) (en_mid mem d l ?L ?n)"
        using fits lenstep Some by simp
      show ?thesis
      proof (cases "unat ?n \<le> unat (elem_len ?e)")
        case True
        then have c: "enc_count ?e ?n = Some ?n" using arr False by (simp add: enc_count_def word_less_nat_alt)
        have "if body_ok src b ?e (unat ?n) (l + length ?L) (unat out_len)
          then enc_loop False src b out_len 1 (?e # rest) (en_mid mem d l ?L ?n) =
            enc_loop False src b out_len 1 rest (en_done mem d l (tlv_type ?e) (?L @ body_bytes src b ?e (unat ?n)) ?n)
          else \<exists>mem'. enc_loop False src b out_len 1 (?e # rest) (en_mid mem d l ?L ?n) = Some (- EINVAL, mem') \<and>
            inside mem d (unat out_len) mem'"
          by (rule enc_body_mid [OF wfb inb c]) (use True ec False fits out in \<open>auto simp: unat_gt_0\<close>)
        moreover have "body_ok src b ?e (unat ?n) (l + length ?L) (unat out_len) \<longleftrightarrow>
            group_valid src b g \<and> l + 3 + length (payload src b g) \<le> unat out_len"
          using True nstr by (auto simp: body_ok_def valid pl)
        ultimately show ?thesis unfolding loop pl gt by (auto split: if_split_asm)
      next
        case invalid: False
        then have "enc_count ?e ?n = None" using arr by (simp add: enc_count_def word_less_nat_alt)
        then have "enc_loop False src b out_len 1 (?e # rest) (en_mid mem d l ?L ?n) =
            Some (- EINVAL, blit mem (d + l + 3) ?L)"
          using wf_body_not [OF wfb] by (simp add: en_mid_def)
        moreover have "inside mem d (unat out_len) (blit mem (d + l + 3) ?L)"
          using fits out by (intro inside_blit) auto
        ultimately show ?thesis using invalid valid loop by auto
      qed
    qed
  qed
qed

lemma enc_group_tail:
  assumes wf: "wf_group g" and ins: "group_in src b g"
    and rest: "rest = r # rs" "tlv_type r \<noteq> g_type g"
    and out: "unat out_len < 2 ^ 31" "d + unat out_len \<le> length mem" "length src < 2 ^ 31" "l \<le> unat out_len"
  shows "if group_valid src b g \<and> l + 3 + length (payload src b g) \<le> unat out_len
    then \<exists>dl'. enc_loop False src b out_len 1 (opt_list (g_len g) @ g_body g # rest) (en_mid mem d l [] dl) =
      enc_loop False src b out_len 1 rest (en_done mem d l (g_type g) (payload src b g) dl')
    else \<exists>mem'. enc_loop False src b out_len 1 (opt_list (g_len g) @ g_body g # rest) (en_mid mem d l [] dl) =
      Some (- EINVAL, mem') \<and> inside mem d (unat out_len) mem'"
proof (cases "g_len g")
  case None
  show ?thesis by (rule enc_group_plain [OF wf ins None out])
next
  case (Some f)
  show ?thesis by (rule enc_group_counted [OF wf ins Some rest out])
qed

lemma g_elems_type: "wf_group g \<Longrightarrow> x \<in> set (g_elems g) \<Longrightarrow> tlv_type x = g_type g"
  by (cases "g_flag g"; cases "g_len g") (auto simp: g_elems_def wf_group_def g_type_def)

lemma descr_simps [simp]: "descr [] z = [z]" "descr (g # gs) z = g_elems g @ descr gs z"
  by (simp_all add: descr_def)

lemma descr_head:
  assumes "\<forall>g \<in> set gs. wf_group g \<and> g_type g \<noteq> ty" "tlv_type z \<noteq> ty"
  shows "\<exists>r rs. descr gs z = r # rs \<and> tlv_type r \<noteq> ty"
proof (cases gs)
  case (Cons g gs')
  have "g_elems g \<noteq> []" by (simp add: g_elems_def)
  then obtain r rs where r: "g_elems g = r # rs" by (cases "g_elems g") auto
  then show ?thesis using g_elems_type [of g r] assms Cons by auto
qed (use assms in simp)

lemma enc_group:
  assumes wf: "wf_group g" and ins: "group_in src b g"
    and rest: "rest = r # rs" "tlv_type r \<noteq> g_type g"
    and out: "unat out_len < 2 ^ 31" "d + unat out_len \<le> length mem" "length src < 2 ^ 31" "l \<le> unat out_len"
  shows "if group_ok src b g l (unat out_len)
    then \<exists>dl'. enc_loop False src b out_len 1 (g_elems g @ rest) (en_mid mem d l [] dl) =
      enc_loop False src b out_len 1 rest
        (en_mid (blit mem (d + l) (group_bytes src b g)) d (l + length (group_bytes src b g)) [] dl')
    else \<exists>mem'. enc_loop False src b out_len 1 (g_elems g @ rest) (en_mid mem d l [] dl) = Some (- EINVAL, mem') \<and>
      inside mem d (unat out_len) mem'"
proof -
  let ?es = "opt_list (g_len g) @ g_body g # rest"
  note tail = enc_group_tail [OF assms]
  have done_eq: "en_done mem d l (g_type g) (payload src b g) dl' =
      en_mid (blit mem (d + l) (group_bytes src b g)) d (l + length (group_bytes src b g)) [] dl'"
    if "present src b g" for dl'
    using that by (simp add: en_done_def group_bytes_def add.assoc)
  have flagged: "if group_ok src b g l (unat out_len)
    then \<exists>dl'. enc_loop False src b out_len 1 ?es (en_mid mem d l [] dl0) =
      enc_loop False src b out_len 1 rest
        (en_mid (blit mem (d + l) (group_bytes src b g)) d (l + length (group_bytes src b g)) [] dl')
    else \<exists>mem'. enc_loop False src b out_len 1 ?es (en_mid mem d l [] dl0) = Some (- EINVAL, mem') \<and>
      inside mem d (unat out_len) mem'" if "present src b g" for dl0
    using tail [of dl0] that done_eq by (auto simp: group_ok_def split: if_split_asm)
  show ?thesis
  proof (cases "g_flag g")
    case None
    then have "present src b g" by (simp add: present_def)
    note fl = flagged [OF this, of dl]
    have "g_elems g @ rest = ?es" using None by (simp add: g_elems_def)
    then show ?thesis using fl by (simp only:)
  next
    case (Some f)
    then have f: "data_type f = QMI_OPT_FLAG" "array_type f = NO_ARRAY" "b + offset f < length src" "tlv_type f = g_type g"
      using wf ins by (auto simp: wf_group_def group_in_def)
    have es: "g_elems g @ rest = f # ?es" using Some by (simp add: g_elems_def)
    note step = enc_flag [OF f(1-3), where es = ?es and l = l and mem = mem and d = d and dl = dl and out_len = out_len]
    show ?thesis
    proof (cases "present src b g")
      case True
      then have "src ! (b + offset f) \<noteq> 0" using Some by (simp add: present_def)
      then have "enc_loop False src b out_len 1 (f # ?es) (en_mid mem d l [] dl) =
          enc_loop False src b out_len 1 ?es (en_mid mem d l [] 1)"
        by (intro trans [OF step] if_P)
      then show ?thesis using flagged [OF True, of 1] by (simp only: es)
    next
      case False
      then have z: "src ! (b + offset f) = 0" using Some by (simp add: present_def)
      have "\<forall>x \<in> set (opt_list (g_len g) @ [g_body g]). tlv_type x = g_type g"
        using g_elems_type [OF wf] by (auto simp: g_elems_def)
      from skip_group [OF rest(2) this, of rs] have "skip_same (tlv_type f) ?es = Some rest"
        by (simp add: f rest(1))
      then have "enc_loop False src b out_len 1 (f # ?es) (en_mid mem d l [] dl) =
          enc_loop False src b out_len 1 rest (en_mid mem d l [] 1)"
        using step z by simp
      moreover have "group_ok src b g l (unat out_len)" "group_bytes src b g = []"
        using False by (simp_all add: group_ok_def group_bytes_def)
      ultimately show ?thesis by (auto simp only: es blit_Nil list.size add_0_right if_True)
    qed
  qed
qed

section \<open>Messages\<close>

definition message_ok :: "u8 list \<Rightarrow> nat \<Rightarrow> group list \<Rightarrow> bool" where
  "message_ok src b gs \<longleftrightarrow> (\<forall>g \<in> set gs. present src b g \<longrightarrow> group_valid src b g)"

lemma enc_groups:
  assumes "\<forall>g \<in> set gs. wf_group g \<and> group_in src b g" "distinct (map g_type gs)"
    and "tlv_type z \<notin> g_type ` set gs" "data_type z = QMI_EOTI"
    and "unat out_len < 2 ^ 31" "d + unat out_len \<le> length mem" "length src < 2 ^ 31" "l \<le> unat out_len"
  shows "if message_ok src b gs \<and> l + length (message_bytes src b gs) \<le> unat out_len
    then enc_loop False src b out_len 1 (descr gs z) (en_mid mem d l [] dl) =
      Some (int (l + length (message_bytes src b gs)), blit mem (d + l) (message_bytes src b gs))
    else \<exists>mem'. enc_loop False src b out_len 1 (descr gs z) (en_mid mem d l [] dl) = Some (- EINVAL, mem') \<and>
      inside mem d (unat out_len) mem'"
  using assms
proof (induction gs arbitrary: mem l dl)
  case Nil
  then show ?case by (simp add: en_mid_def sint32 message_ok_def)
next
  case (Cons g gs)
  let ?B = "group_bytes src b g"
  have hyp: "\<forall>g' \<in> set gs. wf_group g' \<and> g_type g' \<noteq> g_type g" "tlv_type z \<noteq> g_type g"
    using Cons.prems(1-3) by (auto simp: image_iff)
  from descr_head [OF this] obtain r rs where r: "descr gs z = r # rs" "tlv_type r \<noteq> g_type g" by blast
  have wf: "wf_group g" "group_in src b g" using Cons.prems(1) by auto
  note grp = enc_group [OF wf r Cons.prems(5-8), of dl]
  show ?case
  proof (cases "group_ok src b g l (unat out_len)")
    case False
    then have "\<not> (message_ok src b (g # gs) \<and> l + length (message_bytes src b (g # gs)) \<le> unat out_len)"
      by (auto simp: group_ok_def message_ok_def group_bytes_def)
    with grp False show ?thesis by (simp only: descr_simps if_False)
  next
    case True
    then obtain dl' where step: "enc_loop False src b out_len 1 (g_elems g @ descr gs z) (en_mid mem d l [] dl) =
        enc_loop False src b out_len 1 (descr gs z) (en_mid (blit mem (d + l) ?B) d (l + length ?B) [] dl')"
      using grp by (auto simp only: if_True)
    have fit: "l + length ?B \<le> unat out_len" using True Cons.prems(8) by (auto simp: group_ok_def group_bytes_def)
    then have len: "length (blit mem (d + l) ?B) = length mem" using Cons.prems(6) by simp
    have ih: "if message_ok src b gs \<and> (l + length ?B) + length (message_bytes src b gs) \<le> unat out_len
      then enc_loop False src b out_len 1 (descr gs z) (en_mid (blit mem (d + l) ?B) d (l + length ?B) [] dl') =
        Some (int ((l + length ?B) + length (message_bytes src b gs)),
          blit (blit mem (d + l) ?B) (d + (l + length ?B)) (message_bytes src b gs))
      else \<exists>mem'. enc_loop False src b out_len 1 (descr gs z) (en_mid (blit mem (d + l) ?B) d (l + length ?B) [] dl') =
        Some (- EINVAL, mem') \<and> inside (blit mem (d + l) ?B) d (unat out_len) mem'"
      by (rule Cons.IH) (use Cons.prems fit len in auto)
    have mok: "message_ok src b (g # gs) \<longleftrightarrow> message_ok src b gs"
      using True by (auto simp: group_ok_def message_ok_def)
    have "if message_ok src b gs \<and> (l + length ?B) + length (message_bytes src b gs) \<le> unat out_len
      then enc_loop False src b out_len 1 (descr gs z) (en_mid (blit mem (d + l) ?B) d (l + length ?B) [] dl') =
        Some (int ((l + length ?B) + length (message_bytes src b gs)), blit mem (d + l) (?B @ message_bytes src b gs))
      else \<exists>mem'. enc_loop False src b out_len 1 (descr gs z) (en_mid (blit mem (d + l) ?B) d (l + length ?B) [] dl') =
        Some (- EINVAL, mem') \<and> inside mem d (unat out_len) mem'"
      by (rule written_after) (use ih fit Cons.prems(6) in \<open>auto simp: add.assoc\<close>)
    then show ?thesis using step mok
      by (auto simp: add.assoc split: if_split_asm simp del: enc_loop.simps)
  qed
qed

lemma qmi_encode_message_bytes:
  assumes "wf_descr gs z" "\<forall>g \<in> set gs. group_in src b g"
    and "unat out_len < 2 ^ 31" "d + unat out_len \<le> length mem" "length src < 2 ^ 31"
  shows "if message_ok src b gs \<and> length (message_bytes src b gs) \<le> unat out_len
    then qmi_encode False (Some (descr gs z)) mem d src b out_len 1 =
      Some (int (length (message_bytes src b gs)), blit mem d (message_bytes src b gs))
    else \<exists>mem'. qmi_encode False (Some (descr gs z)) mem d src b out_len 1 = Some (- EINVAL, mem') \<and>
      inside mem d (unat out_len) mem'"
proof -
  have "en_mid mem d 0 [] 0 = enc_init 1 mem d" by (simp add: en_mid_def enc_init_def)
  then have eq: "qmi_encode False (Some (descr gs z)) mem d src b out_len 1 =
      enc_loop False src b out_len 1 (descr gs z) (en_mid mem d 0 [] 0)"
    by (simp add: qmi_encode_def)
  show ?thesis
    unfolding eq by (rule enc_groups [where l = 0, unfolded add_0_left add_0_right])
      (use assms in \<open>auto simp: wf_descr_def\<close>)
qed

end
