(* ===== verification/Qmi_Decode.thy ===== *)
theory Qmi_Decode
  imports Qmi_Encode
begin

text \<open>
  The decoder on messages that the encoder writes: every present group is decoded into the C
  struct at the positions the encoder read it from, and nothing else in the struct changes.
\<close>

section \<open>Messages in memory\<close>

definition holds :: "u8 list \<Rightarrow> nat \<Rightarrow> u8 list \<Rightarrow> bool" where
  "holds inb p bs \<longleftrightarrow> p + length bs \<le> length inb \<and> slice inb p (length bs) = bs"

lemma holds_append: "holds inb p (xs @ ys) \<longleftrightarrow> holds inb p xs \<and> holds inb (p + length xs) ys"
proof -
  have "length (slice inb p (length xs)) = length xs" if "p + (length xs + length ys) \<le> length inb"
    using that by simp
  then show ?thesis by (auto simp: holds_def slice_add add.assoc)
qed

lemma holds_nth: "holds inb p bs \<Longrightarrow> i < length bs \<Longrightarrow> p + i < length inb \<and> inb ! (p + i) = bs ! i"
  unfolding holds_def by (metis add_less_cancel_left order_less_le_trans slice_nth)

text \<open>The memory \<open>out'\<close> is \<open>out\<close> with the bytes of \<open>src\<close> at the positions in \<open>C\<close>.\<close>

definition overlay :: "u8 list \<Rightarrow> nat set \<Rightarrow> u8 list \<Rightarrow> u8 list \<Rightarrow> bool" where
  "overlay src C out out' \<longleftrightarrow> length out' = length out \<and>
     (\<forall>i < length out. out' ! i = (if i \<in> C then src ! i else out ! i))"

lemma overlay_refl [simp]: "overlay src {} out out"
  by (simp add: overlay_def)

lemma overlay_length: "overlay src C out out' \<Longrightarrow> length out' = length out"
  by (simp add: overlay_def)

lemma overlay_trans: "overlay src C o1 o2 \<Longrightarrow> overlay src D o2 o3 \<Longrightarrow> overlay src (C \<union> D) o1 o3"
  by (auto simp: overlay_def)

lemma overlay_blit:
  "p + n \<le> length src \<Longrightarrow> p + n \<le> length out \<Longrightarrow> overlay src {p ..< p + n} out (blit out p (slice src p n))"
  by (auto simp: overlay_def blit_nth)

section \<open>Nested structs\<close>

definition member_cover :: "nat \<Rightarrow> qmi_elem_info \<Rightarrow> nat set" where
  "member_cover s x = {s + offset x ..< s + offset x + elem_bytes x}"

lemma dec_count_plain: "array_type e \<noteq> VAR_LEN_ARRAY \<Longrightarrow>
    \<exists>n. dec_count e dl = Some n \<and> unat n = elem_count e"
  by (cases "array_type e") (auto simp: dec_count_def elem_count_def)

lemma update_decode_int [simp]:
  "update_decode (int k) st = Some (st\<lparr>de_pos := de_pos st + k, de_bytes := de_bytes st + of_nat k\<rparr>)"
  by (simp add: update_decode_def advance_def)

lemma decode_elems_holds:
  assumes "unat n * unat sz = w" "w < 2 ^ 31" "d + w \<le> length out" "d + w \<le> length src" "holds inb p (slice src d w)"
  shows "qmi_decode_basic_elem out d inb p n sz = Some (int w, blit out d (slice src d w))"
proof -
  have "p + w \<le> length inb" "slice inb p w = slice src d w" using assms(4,5) by (auto simp: holds_def)
  with decode_basic_eq [of n sz d out p inb] assms(1-3) show ?thesis by simp
qed

lemma dec_members:
  assumes "\<forall>b \<in> set bs. wf_member b" "data_type z = QMI_EOTI" "level \<noteq> 1"
    and "\<And>x. x \<in> set bs \<Longrightarrow> s + offset x + elem_bytes x \<le> length src" "length (de_out st) = length src"
    and "de_bytes st = of_nat k" "k + members_bytes bs \<le> unat in_len" "unat in_len < 2 ^ 31"
    and "holds inb (de_pos st) (struct_bytes src s bs)"
  shows "\<exists>out. dec_loop False inb s in_len level ei (bs @ [z]) st = Some (int (k + members_bytes bs), out) \<and>
    overlay src (\<Union>x \<in> set bs. member_cover s x) (de_out st) out"
  using assms
proof (induction bs arbitrary: st k)
  case Nil
  then show ?case by (simp add: dec_start_def sint32)
next
  case (Cons e bs)
  let ?w = "elem_bytes e"
  have m: "wf_member e" using Cons.prems(1) by simp
  then have bt: "basic_type (data_type e)" "0 < ?w" "?w < 2 ^ 31" "array_type e \<noteq> VAR_LEN_ARRAY" by (auto simp: wf_member_def)
  from dec_count_plain [OF this(4), of "de_dlen st"] obtain n where
    n: "dec_count e (de_dlen st) = Some n" "unat n = elem_count e" by auto
  have kb: "unat (of_nat k :: u32) = k" using Cons.prems(7,8) by (simp add: unat32)
  have more: "de_bytes st < in_len" using Cons.prems(6,7) bt(2) kb by (simp add: word_less_nat_alt)
  have src: "s + offset e + ?w \<le> length src" using Cons.prems(4) by simp
  have hd: "holds inb (de_pos st) (slice src (s + offset e) ?w)" "holds inb (de_pos st + ?w) (struct_bytes src s bs)"
    using Cons.prems(9) src by (simp_all add: holds_append)
  let ?o = "blit (de_out st) (s + offset e) (slice src (s + offset e) ?w)"
  let ?st = "st\<lparr>de_dlen := n, de_out := ?o, de_pos := de_pos st + ?w, de_bytes := of_nat (k + ?w)\<rparr>"
  have dec: "qmi_decode_basic_elem (de_out st) (s + offset e) inb (de_pos st) n (elem_size e) = Some (int ?w, ?o)"
    by (rule decode_elems_holds) (use n bt src hd Cons.prems(5) in \<open>auto simp: elem_bytes_def\<close>)
  have step: "dec_loop False inb s in_len level ei ((e # bs) @ [z]) st = dec_loop False inb s in_len level ei (bs @ [z]) ?st"
    using more Cons.prems(3,6) wf_member_not [OF m] bt(1) n(1) dec
    by (simp add: dec_start_def dec_prepare_def dec_flag_def dec_data_len_def dec_elem_def add.commute)
  have "\<exists>out. dec_loop False inb s in_len level ei (bs @ [z]) ?st = Some (int ((k + ?w) + members_bytes bs), out) \<and>
      overlay src (\<Union>x \<in> set bs. member_cover s x) (de_out ?st) out"
    by (rule Cons.IH) (use Cons.prems hd src in auto)
  then obtain out where out: "dec_loop False inb s in_len level ei (bs @ [z]) ?st = Some (int ((k + ?w) + members_bytes bs), out)"
    "overlay src (\<Union>x \<in> set bs. member_cover s x) ?o out" by auto
  have "overlay src (member_cover s e) (de_out st) ?o"
    unfolding member_cover_def using src Cons.prems(5) by (intro overlay_blit) auto
  from overlay_trans [OF this out(2)] have "overlay src (\<Union>x \<in> set (e # bs). member_cover s x) (de_out st) out" by simp
  then show ?case using step out(1) by (auto simp: add.assoc)
qed
fun structs_cover :: "nat \<Rightarrow> nat \<Rightarrow> nat \<Rightarrow> qmi_elem_info list \<Rightarrow> nat set" where
  "structs_cover s sz 0 bs = {}"
| "structs_cover s sz (Suc n) bs = (\<Union>x \<in> set bs. member_cover s x) \<union> structs_cover (s + sz) sz n bs"

lemma members_bytes_pos: "bs \<noteq> [] \<Longrightarrow> \<forall>b \<in> set bs. wf_member b \<Longrightarrow> 0 < members_bytes bs"
  by (cases bs) (auto simp: wf_member_def)

lemma dec_structs_eq:
  assumes "\<forall>b \<in> set bs. wf_member b" "bs \<noteq> []" "data_type z = QMI_EOTI"
    and "\<And>i x. i < n \<Longrightarrow> x \<in> set bs \<Longrightarrow> s + i * sz + offset x + elem_bytes x \<le> length src" "length out = length src"
    and "unat tlv_len = k + n * members_bytes bs" "unat tlv_len < 2 ^ 31"
    and "holds inb p (structs_bytes src s sz n bs)"
  shows "\<exists>out'. dec_structs False inb tlv_len 2 (Some (bs @ [z])) sz n out s p (int k) = Some (int (unat tlv_len), out') \<and>
    overlay src (structs_cover s sz n bs) out out'"
  using assms
proof (induction n arbitrary: s out p k)
  case 0
  then have "k = unat tlv_len" by simp
  then have "of_nat k = tlv_len" by simp
  with 0 show ?case by (simp add: dec_structs_end_def)
next
  case (Suc n)
  let ?W = "members_bytes bs"
  have W: "0 < ?W" using Suc.prems(1,2) by (intro members_bytes_pos)
  have src: "s + offset x + elem_bytes x \<le> length src" if "x \<in> set bs" for x
    using Suc.prems(4) [of 0 x] that by simp
  have src': "(s + sz) + i * sz + offset x + elem_bytes x \<le> length src" if "i < n" "x \<in> set bs" for i x
    using Suc.prems(4) [of "Suc i" x] that by (simp add: algebra_simps)
  have sl: "length (struct_bytes src s bs) = ?W" using src by (rule length_struct_bytes)
  have hd: "holds inb p (struct_bytes src s bs)" "holds inb (p + ?W) (structs_bytes src (s + sz) sz n bs)"
    using Suc.prems(8) sl by (simp_all add: holds_append)
  have le: "k + ?W + n * ?W = unat tlv_len" using Suc.prems(6) by simp
  then have kl: "k < unat tlv_len" "k + ?W \<le> unat tlv_len" using W by auto
  have kw: "unat (word_of_int (int k) :: u32) = k" using kl Suc.prems(7) by (simp add: unat32)
  have more: "word_of_int (int k) < tlv_len" using kl kw by (simp add: word_less_nat_alt)
  have av: "unat (tlv_len - word_of_int (int k)) = unat tlv_len - k"
    using kl unat_sub_of_nat [of k tlv_len] by simp
  let ?st = "\<lparr>de_out = out, de_pos = p, de_bytes = 0, de_dlen = 0\<rparr>"
  have "\<exists>o1. dec_loop False inb s (tlv_len - word_of_int (int k)) 2 (bs @ [z]) (bs @ [z]) ?st = Some (int (0 + ?W), o1) \<and>
      overlay src (\<Union>x \<in> set bs. member_cover s x) (de_out ?st) o1"
    by (rule dec_members) (use Suc.prems src hd kl av in \<open>auto simp del: of_int_of_nat_eq\<close>)
  then obtain o1 where o1: "dec_loop False inb s (tlv_len - word_of_int (int k)) 2 (bs @ [z]) (bs @ [z]) ?st = Some (int ?W, o1)"
    "overlay src (\<Union>x \<in> set bs. member_cover s x) out o1" by auto
  have step: "dec_structs False inb tlv_len 2 (Some (bs @ [z])) sz (Suc n) out s p (int k) =
      dec_structs False inb tlv_len 2 (Some (bs @ [z])) sz n o1 (s + sz) (p + ?W) (int (k + ?W))"
    using more o1(1) kl Suc.prems(7) by (subst dec_structs.simps) (simp del: of_int_of_nat_eq dec_structs.simps)
  have "\<exists>out'. dec_structs False inb tlv_len 2 (Some (bs @ [z])) sz n o1 (s + sz) (p + ?W) (int (k + ?W)) =
      Some (int (unat tlv_len), out') \<and> overlay src (structs_cover (s + sz) sz n bs) o1 out'"
    by (rule Suc.IH) (use Suc.prems src' hd le overlay_length [OF o1(2)] in auto)
  then show ?case using step overlay_trans [OF o1(2)] by fastforce
qed

section \<open>The element of a group\<close>

definition body_cover :: "u8 list \<Rightarrow> nat \<Rightarrow> qmi_elem_info \<Rightarrow> nat \<Rightarrow> nat set" where
  "body_cover src b e n =
     (if data_type e = QMI_STRING then {b + offset e ..< b + offset e + length (c_string src (b + offset e)) + 1}
      else if data_type e = QMI_STRUCT then structs_cover (b + offset e) (unat (elem_size e)) n (members e)
      else {b + offset e ..< b + offset e + n * unat (elem_size e)})"

lemma decode_string_eq:
  assumes nul: "0 \<in> set (drop s src)" and sz: "elem_size e = 1" and len: "length src < 2 ^ 31" "length out = length src"
    and tlv: "unat tlv_len = length (c_string src s)" "unat tlv_len \<le> unat (elem_len e)"
    and inb: "holds inb p (c_string src s)"
  shows "\<exists>out'. qmi_decode_string_elem False e out s inb p tlv_len 1 = Some (int (length (c_string src s)), out') \<and>
    overlay src {s ..< s + length (c_string src s) + 1} out out'"
proof -
  let ?n = "length (c_string src s)"
  note ce = c_string_end [OF nul]
  let ?o = "blit out s (slice src s ?n)"
  have dec: "qmi_decode_basic_elem out s inb p tlv_len 1 = Some (int ?n, ?o)"
    by (rule decode_elems_holds) (use tlv ce len inb in auto)
  have z: "[0] = slice src (s + ?n) 1" using slice_1 [OF ce(1)] ce(2) by simp
  have o: "overlay src {s ..< s + ?n} out ?o" using ce(1) len by (intro overlay_blit) auto
  have put: "mem_put ?o (s + ?n) [0] = Some (blit ?o (s + ?n) [0])"
    using ce(1) len(2) overlay_length [OF o] by (intro mem_put_eq) auto
  have o': "overlay src {s + ?n ..< s + ?n + 1} ?o (blit ?o (s + ?n) [0])"
    unfolding z using ce(1) len(2) overlay_length [OF o] by (intro overlay_blit) auto
  have "{s ..< s + ?n} \<union> {s + ?n ..< s + ?n + 1} = {s ..< s + ?n + 1}" by auto
  with overlay_trans [OF o o'] have "overlay src {s ..< s + ?n + 1} out (blit ?o (s + ?n) [0])" by simp
  moreover have "qmi_decode_string_elem False e out s inb p tlv_len 1 = Some (int ?n, blit ?o (s + ?n) [0])"
    using dec put tlv sz ce(1) len
    by (simp add: qmi_decode_string_elem_def advance_def word_less_nat_alt not_less)
  ultimately show ?thesis by blast
qed

text \<open>The three kinds of elements.\<close>

lemma dec_body_basic:
  assumes wf: "wf_body h e" and body: "body_in src b e" and basic: "basic_type (data_type e)" "elem_bytes e < 2 ^ 31"
    and n: "dec_count e (de_dlen st) = Some m" "unat m = n" "n \<le> elem_count e"
    and len: "unat tlv_len = length (body_bytes src b e n)" "unat tlv_len < 2 ^ 31"
    and src: "length src < 2 ^ 31" "length (de_out st) = length src"
    and inb: "holds inb (de_pos st) (body_bytes src b e n)"
    and more: "de_bytes st0 < in_len"
    and start: "dec_start inb in_len 1 ei temp st0 = Some (Dec_Elem t len0 st1)"
    and prep: "dec_prepare False inb b t len0 st1 = Some (Inr (e, es, tlv_len, st\<lparr>de_dlen := m\<rparr>))"
  shows "\<exists>out. dec_loop False inb b in_len 1 ei temp st0 = dec_loop False inb b in_len 1 ei es
      (st\<lparr>de_dlen := m, de_out := out, de_pos := de_pos st + unat tlv_len, de_bytes := de_bytes st + tlv_len\<rparr>) \<and>
    overlay src (body_cover src b e n) (de_out st) out"
proof -
  let ?s = "b + offset e"
  let ?B = "body_bytes src b e n"
  have tl: "of_nat (unat tlv_len) = tlv_len" by simp
  from basic have nd: "data_type e \<noteq> QMI_STRING" "data_type e \<noteq> QMI_STRUCT" by auto
  obtain w where w: "n * unat (elem_size e) = w" by simp
  have le: "w \<le> elem_bytes e" using n(3) w by (auto simp: elem_bytes_def)
  have in_src: "?s + w \<le> length src" using body nd le by (simp add: body_in_def)
  have B: "?B = slice src ?s w" using nd w by (simp add: body_bytes_def)
  then have lB: "unat tlv_len = w" using in_src len by simp
  let ?o = "blit (de_out st) ?s (slice src ?s w)"
  have dec: "qmi_decode_basic_elem (de_out st) ?s inb (de_pos st) m (elem_size e) = Some (int w, ?o)"
    by (rule decode_elems_holds) (use n w le basic in_src src inb B in auto)
  have "overlay src (body_cover src b e n) (de_out st) ?o"
    using nd w in_src src by (simp add: body_cover_def overlay_blit)
  moreover have "dec_loop False inb b in_len 1 ei temp st0 = dec_loop False inb b in_len 1 ei es
      (st\<lparr>de_dlen := m, de_out := ?o, de_pos := de_pos st + unat tlv_len, de_bytes := de_bytes st + tlv_len\<rparr>)"
    using more start prep nd basic dec lB tl
    by (subst dec_loop.simps) (simp add: dec_elem_def del: dec_loop.simps)
  ultimately show ?thesis by blast
qed

lemma dec_body_string:
  assumes wf: "wf_body h e" and body: "body_in src b e" and str: "data_type e = QMI_STRING" "elem_size e = 1" "array_type e = NO_ARRAY"
    and n: "dec_count e (de_dlen st) = Some m" "unat m = n" "n \<le> elem_count e"
    and sl: "data_type e = QMI_STRING \<Longrightarrow> length (c_string src (b + offset e)) \<le> unat (elem_len e)"
    and len: "unat tlv_len = length (body_bytes src b e n)" "unat tlv_len < 2 ^ 31"
    and src: "length src < 2 ^ 31" "length (de_out st) = length src"
    and inb: "holds inb (de_pos st) (body_bytes src b e n)"
    and more: "de_bytes st0 < in_len"
    and start: "dec_start inb in_len 1 ei temp st0 = Some (Dec_Elem t len0 st1)"
    and prep: "dec_prepare False inb b t len0 st1 = Some (Inr (e, es, tlv_len, st\<lparr>de_dlen := m\<rparr>))"
  shows "\<exists>out. dec_loop False inb b in_len 1 ei temp st0 = dec_loop False inb b in_len 1 ei es
      (st\<lparr>de_dlen := m, de_out := out, de_pos := de_pos st + unat tlv_len, de_bytes := de_bytes st + tlv_len\<rparr>) \<and>
    overlay src (body_cover src b e n) (de_out st) out"
proof -
  let ?s = "b + offset e"
  let ?B = "body_bytes src b e n"
  have tl: "of_nat (unat tlv_len) = tlv_len" by simp
  have B: "?B = c_string src ?s" using str by (simp add: body_bytes_def)
  have nul: "0 \<in> set (drop ?s src)" using body str by (simp add: body_in_def)
  from decode_string_eq [OF nul str(2) src(1) src(2), of tlv_len inb "de_pos st"] len B sl str(1) inb
  obtain o' where o': "qmi_decode_string_elem False e (de_out st) ?s inb (de_pos st) tlv_len 1 = Some (int (unat tlv_len), o')"
    "overlay src {?s ..< ?s + length (c_string src ?s) + 1} (de_out st) o'" by auto
  have "dec_loop False inb b in_len 1 ei temp st0 = dec_loop False inb b in_len 1 ei es
      (st\<lparr>de_dlen := m, de_out := o', de_pos := de_pos st + unat tlv_len, de_bytes := de_bytes st + tlv_len\<rparr>)"
    using more start prep str o'(1) update_decode_int [of "unat tlv_len"]
    by (subst dec_loop.simps) (simp add: dec_elem_def del: dec_loop.simps update_decode_int)
  moreover have "overlay src (body_cover src b e n) (de_out st) o'"
    using o'(2) str by (simp add: body_cover_def)
  ultimately show ?thesis by blast
qed

lemma dec_body_struct:
  assumes wf: "wf_body h e" and body: "body_in src b e" and struct: "data_type e = QMI_STRUCT"
    and n: "dec_count e (de_dlen st) = Some m" "unat m = n" "n \<le> elem_count e"
    and len: "unat tlv_len = length (body_bytes src b e n)" "unat tlv_len < 2 ^ 31"
    and src: "length src < 2 ^ 31" "length (de_out st) = length src"
    and inb: "holds inb (de_pos st) (body_bytes src b e n)"
    and more: "de_bytes st0 < in_len"
    and start: "dec_start inb in_len 1 ei temp st0 = Some (Dec_Elem t len0 st1)"
    and prep: "dec_prepare False inb b t len0 st1 = Some (Inr (e, es, tlv_len, st\<lparr>de_dlen := m\<rparr>))"
  shows "\<exists>out. dec_loop False inb b in_len 1 ei temp st0 = dec_loop False inb b in_len 1 ei es
      (st\<lparr>de_dlen := m, de_out := out, de_pos := de_pos st + unat tlv_len, de_bytes := de_bytes st + tlv_len\<rparr>) \<and>
    overlay src (body_cover src b e n) (de_out st) out"
proof -
  let ?s = "b + offset e"
  let ?B = "body_bytes src b e n"
  have tl: "of_nat (unat tlv_len) = tlv_len" by simp
  from struct obtain z where z: "ei_array e = Some (members e @ [z])" "data_type z = QMI_EOTI"
    and ms: "\<forall>b \<in> set (members e). wf_member b" "members e \<noteq> []"
    using wf by (auto simp: wf_body_def)
  have in_src: "?s + i * unat (elem_size e) + offset x + elem_bytes x \<le> length src"
    if "i < n" "x \<in> set (members e)" for i x
    using body struct that n by (auto simp: body_in_def)
  have B: "?B = structs_bytes src ?s (unat (elem_size e)) n (members e)"
    using struct by (simp add: body_bytes_def)
  have lB: "length ?B = n * members_bytes (members e)"
    unfolding B using in_src by (rule length_structs_bytes)
  have "\<exists>o'. dec_structs False inb tlv_len 2 (Some (members e @ [z])) (unat (elem_size e)) n (de_out st) ?s
      (de_pos st) (int 0) = Some (int (unat tlv_len), o') \<and>
    overlay src (structs_cover ?s (unat (elem_size e)) n (members e)) (de_out st) o'"
    by (rule dec_structs_eq) (use ms z in_src src len lB inb B in auto)
  then obtain o' where o': "dec_structs False inb tlv_len 2 (ei_array e) (unat (elem_size e)) n (de_out st) ?s
      (de_pos st) 0 = Some (int (unat tlv_len), o')"
    "overlay src (structs_cover ?s (unat (elem_size e)) n (members e)) (de_out st) o'" using z by auto
  have "dec_loop False inb b in_len 1 ei temp st0 = dec_loop False inb b in_len 1 ei es
      (st\<lparr>de_dlen := m, de_out := o', de_pos := de_pos st + unat tlv_len, de_bytes := de_bytes st + tlv_len\<rparr>)"
    using more start prep struct o'(1) n(2) update_decode_int [of "unat tlv_len"]
    by (subst dec_loop.simps) (simp add: numeral_2_eq_2 del: dec_loop.simps dec_structs.simps update_decode_int)
  moreover have "overlay src (body_cover src b e n) (de_out st) o'"
    using o'(2) struct by (simp add: body_cover_def)
  ultimately show ?thesis by blast
qed

lemma dec_body:
  assumes wf: "wf_body h e" and body: "body_in src b e"
    and n: "dec_count e (de_dlen st) = Some m" "unat m = n" "n \<le> elem_count e"
    and str: "data_type e = QMI_STRING \<Longrightarrow> length (c_string src (b + offset e)) \<le> unat (elem_len e)"
    and len: "unat tlv_len = length (body_bytes src b e n)" "unat tlv_len < 2 ^ 31"
    and src: "length src < 2 ^ 31" "length (de_out st) = length src"
    and inb: "holds inb (de_pos st) (body_bytes src b e n)"
    and more: "de_bytes st0 < in_len"
    and start: "dec_start inb in_len 1 ei temp st0 = Some (Dec_Elem t len0 st1)"
    and prep: "dec_prepare False inb b t len0 st1 = Some (Inr (e, es, tlv_len, st\<lparr>de_dlen := m\<rparr>))"
  shows "\<exists>out. dec_loop False inb b in_len 1 ei temp st0 = dec_loop False inb b in_len 1 ei es
      (st\<lparr>de_dlen := m, de_out := out, de_pos := de_pos st + unat tlv_len, de_bytes := de_bytes st + tlv_len\<rparr>) \<and>
    overlay src (body_cover src b e n) (de_out st) out"
proof -
  consider (basic) "basic_type (data_type e)" "elem_bytes e < 2 ^ 31"
    | (str) "data_type e = QMI_STRING" "elem_size e = 1" "array_type e = NO_ARRAY"
    | (struct) "data_type e = QMI_STRUCT" using wf by (auto simp: wf_body_def)
  then show ?thesis
  proof cases
    case basic
    show ?thesis by (rule dec_body_basic [OF wf body basic n len src inb more start prep])
  next
    case s: str
    show ?thesis by (rule dec_body_string [OF wf body s n str len src inb more start prep])
  next
    case struct
    show ?thesis by (rule dec_body_struct [OF wf body struct n len src inb more start prep])
  qed
qed

section \<open>Groups\<close>

lemma u32_low: "unat (w :: u32) < 2 ^ k \<Longrightarrow> k \<le> i \<Longrightarrow> \<not> bit w i"
proof
  assume w: "unat w < 2 ^ k" "k \<le> i" "bit w i"
  then have "bit (unat w) i" by (simp add: bit_unsigned_iff)
  moreover from w have "unat w < 2 ^ i" by (metis order_less_le_trans one_le_numeral power_increasing)
  ultimately show False by (simp add: bit_iff_odd)
qed

lemma tlv_length_word:
  assumes "unat (w :: u32) < 2 ^ 16"
  shows "or (ucast (ucast w :: u8) :: u32) (push_bit 8 (ucast (ucast (drop_bit 8 w) :: u8))) = w"
proof (rule bit_word_eqI)
  fix i assume "i < LENGTH(32)"
  then have i: "i < 32" by simp
  consider "i < 8" | "8 \<le> i" "i < 16" | "16 \<le> i" by linarith
  then show "bit (or (ucast (ucast w :: u8) :: u32) (push_bit 8 (ucast (ucast (drop_bit 8 w) :: u8)))) i = bit w i"
    using u32_low [OF assms, of i] i by cases (auto simp: bit_simps)
qed

lemma decode_tlv_header:
  assumes "holds inb p (tlv_header ty n @ bs)" "n < 2 ^ 16"
  shows "decode_tlv inb p = Some (ucast ty, of_nat n)"
proof -
  have h: "holds inb p (tlv_header ty n)" using assms(1) by (simp add: holds_append)
  have "p + i < length inb \<and> inb ! (p + i) = tlv_header ty n ! i" if "i < 3" for i
    using holds_nth [OF h, of i] that by simp
  from this [of 0] this [of 1] this [of 2]
  show ?thesis using assms(2) tlv_length_word [of "of_nat n"]
    by (simp add: decode_tlv_def tlv_header_def unat32)
qed

lemma find_ei_skip:
  "\<forall>x \<in> set xs. data_type x \<noteq> QMI_EOTI \<and> tlv_type x \<noteq> ucast ty \<Longrightarrow> find_ei (xs @ ys) ty = find_ei ys ty"
  by (induction xs) auto

lemma g_elems_no_end: "wf_group g \<Longrightarrow> x \<in> set (g_elems g) \<Longrightarrow> data_type x \<noteq> QMI_EOTI"
  by (cases "g_flag g"; cases "g_len g") (auto simp: g_elems_def wf_group_def dest: wf_body_not)

lemma find_ei_descr:
  assumes "wf_descr (gs1 @ g # gs2) z"
  shows "find_ei (descr (gs1 @ g # gs2) z) (ucast (g_type g)) = Some (Some (g_elems g @ descr gs2 z))"
proof -
  have wf: "wf_group g" "\<forall>h \<in> set gs1. wf_group h \<and> g_type h \<noteq> g_type g"
    using assms by (auto simp: wf_descr_def image_iff)
  have d: "descr (gs1 @ g # gs2) z = concat (map g_elems gs1) @ g_elems g @ descr gs2 z" by (simp add: descr_def)
  have u: "ucast (ucast (g_type g) :: u32) = g_type g"
    by (rule bit_word_eqI) (auto simp: bit_simps)
  have "find_ei (descr (gs1 @ g # gs2) z) (ucast (g_type g)) = find_ei (g_elems g @ descr gs2 z) (ucast (g_type g))"
    unfolding d using wf(2) g_elems_type g_elems_no_end by (intro find_ei_skip) (auto simp: u)
  also obtain r rs where r: "g_elems g = r # rs" by (cases "g_elems g") (auto simp: g_elems_def)
  have "find_ei (g_elems g @ descr gs2 z) (ucast (g_type g)) = Some (Some (g_elems g @ descr gs2 z))"
    using r g_elems_type [OF wf(1), of r] g_elems_no_end [OF wf(1), of r] by (simp add: u)
  finally show ?thesis .
qed

text \<open>
  A canonical struct: flags are 0 or 1, and the four bytes of a length field hold the length that
  the encoder reads from its first bytes.
\<close>

definition group_plain :: "u8 list \<Rightarrow> nat \<Rightarrow> group \<Rightarrow> bool" where
  "group_plain src b g \<longleftrightarrow>
     (\<forall>f. g_flag g = Some f \<longrightarrow> src ! (b + offset f) \<in> {0, 1}) \<and>
     (\<forall>f. g_len g = Some f \<longrightarrow> b + offset f + 4 \<le> length src \<and>
        slice src (b + offset f) 4 = mem_bytes False (len_value src (b + offset f) (unat (elem_size f))))"

definition group_cover :: "u8 list \<Rightarrow> nat \<Rightarrow> group \<Rightarrow> nat set" where
  "group_cover src b g =
     (case g_flag g of None \<Rightarrow> {} | Some f \<Rightarrow> {b + offset f ..< b + offset f + 1}) \<union>
     (case g_len g of None \<Rightarrow> {} | Some f \<Rightarrow> {b + offset f ..< b + offset f + 4}) \<union>
     body_cover src b (g_body g) (g_count src b g)"

lemma mem_bytes_small: "unat w < 2 ^ 8 \<Longrightarrow> mem_bytes False w = [ucast w, 0, 0, 0]"
  "unat w < 2 ^ 16 \<Longrightarrow> mem_bytes False w = [ucast w, ucast (drop_bit 8 w), 0, 0]"
  using u32_low [of w 8] u32_low [of w 16]
  by (auto simp: mem_bytes_def le_bytes_def intro!: bit_word_eqI) (auto simp: bit_simps)

text \<open>Reading a length field leaves the upper bytes of the variable as they were.\<close>

lemma len_field_decode:
  assumes "sz = 1 \<or> sz = 2" "p + sz \<le> length src" "unat dl < 2 ^ (8 * sz)"
  shows "mem_word False (blit (mem_bytes False dl) 0 (slice src p sz)) = len_value src p sz"
proof -
  have s: "slice src p 1 = [src ! p]" using slice_1 [of p src] assms by auto
  from assms(1) show ?thesis
  proof
    assume sz: "sz = 1"
    then have "mem_bytes False dl = [ucast dl, 0, 0, 0]" using assms(3) mem_bytes_small(1) [of dl] by simp
    then show ?thesis using s sz by (simp add: blit_def mem_word_4 len_value_def)
  next
    assume sz: "sz = 2"
    then have "mem_bytes False dl = [ucast dl, ucast (drop_bit 8 dl), 0, 0]"
      using assms(3) mem_bytes_small(2) [of dl] by simp
    moreover have "slice src p 2 = [src ! p, src ! (p + 1)]" using slice_2 [of p src] assms(2) sz by simp
    ultimately show ?thesis using sz by (simp add: blit_def mem_word_4 len_value_def)
  qed
qed

lemma dec_flag_step:
  assumes wf: "wf_group g" and ins: "group_in src b g" and pl: "group_plain src b g" "present src b g"
    and out: "length (de_out st) = length src"
  shows "\<exists>o1. dec_flag b (g_elems g @ rest) st = Some (opt_list (g_len g) @ g_body g # rest, st\<lparr>de_out := o1\<rparr>) \<and>
    overlay src (case g_flag g of None \<Rightarrow> {} | Some f \<Rightarrow> {b + offset f ..< b + offset f + 1}) (de_out st) o1"
proof (cases "g_flag g")
  case None
  have "data_type (g_body g) \<noteq> QMI_OPT_FLAG" using wf wf_body_not by (auto simp: wf_group_def)
  with None show ?thesis using wf
    by (intro exI [of _ "de_out st"], cases "g_len g") (auto simp: dec_flag_def g_elems_def wf_group_def)
next
  case (Some f)
  then have f: "data_type f = QMI_OPT_FLAG" "b + offset f < length src" "src ! (b + offset f) = 1"
    using wf ins pl by (auto simp: wf_group_def group_in_def group_plain_def present_def)
  then have z: "[1] = slice src (b + offset f) 1" using slice_1 [OF f(2)] by simp
  have "mem_put (de_out st) (b + offset f) [1] = Some (blit (de_out st) (b + offset f) [1])"
    using f(2) out by (intro mem_put_eq) simp
  then have "dec_flag b (g_elems g @ rest) st = Some (opt_list (g_len g) @ g_body g # rest,
      st\<lparr>de_out := blit (de_out st) (b + offset f) [1]\<rparr>)"
    using Some f(1) by (simp add: dec_flag_def g_elems_def)
  moreover have "overlay src {b + offset f ..< b + offset f + 1} (de_out st) (blit (de_out st) (b + offset f) [1])"
    unfolding z using f(2) out by (intro overlay_blit) auto
  ultimately show ?thesis using Some by (simp only: option.case) blast
qed

lemma dec_len_step:
  assumes wf: "wf_group g" and ins: "group_in src b g" and pl: "group_plain src b g"
    and out: "length (de_out st) = length src"
    and inb: "holds inb (de_pos st) (len_bytes src b g @ body)"
    and dl: "\<And>f. g_len g = Some f \<Longrightarrow> unat (de_dlen st) < 2 ^ (8 * unat (elem_size f))"
  shows "\<exists>o1 d1. dec_data_len False inb b (opt_list (g_len g) @ g_body g # rest)
      (of_nat (length (len_bytes src b g) + length body)) st =
    Some (g_body g # rest, of_nat (length body), st\<lparr>de_out := o1, de_dlen := d1,
      de_pos := de_pos st + length (len_bytes src b g), de_bytes := de_bytes st + of_nat (length (len_bytes src b g))\<rparr>) \<and>
    (g_len g \<noteq> None \<longrightarrow> unat d1 = g_count src b g) \<and>
    overlay src (case g_len g of None \<Rightarrow> {} | Some f \<Rightarrow> {b + offset f ..< b + offset f + 4}) (de_out st) o1"
proof (cases "g_len g")
  case None
  have "data_type (g_body g) \<noteq> QMI_DATA_LEN" using wf wf_body_not by (auto simp: wf_group_def)
  moreover have "st = st\<lparr>de_out := de_out st, de_dlen := de_dlen st, de_pos := de_pos st + 0, de_bytes := de_bytes st + of_nat 0\<rparr>"
    by simp
  ultimately show ?thesis using None
    by (intro exI [of _ "de_out st"] exI [of _ "de_dlen st"]) (simp add: dec_data_len_def len_bytes_def)
next
  case (Some f)
  let ?s = "b + offset f"
  let ?sz = "unat (elem_size f)"
  let ?n = "len_value src ?s ?sz"
  have f: "data_type f = QMI_DATA_LEN" "elem_size f = 1 \<or> elem_size f = 2" using wf Some by (auto simp: wf_group_def)
  then have sz: "?sz = 1 \<or> ?sz = 2" "len_size (elem_size f) = elem_size f" "?sz \<le> 4" by (auto simp: len_size_def)
  have src: "?s + ?sz \<le> length src" using ins Some by (auto simp: group_in_def)
  have p4: "?s + 4 \<le> length src" "slice src ?s 4 = mem_bytes False ?n" using pl Some by (auto simp: group_plain_def)
  have L: "len_bytes src b g = slice src ?s ?sz" "length (slice src ?s ?sz) = ?sz" using Some src by (simp_all add: len_bytes_def)
  have h: "holds inb (de_pos st) (slice src ?s ?sz)" using inb L by (simp add: holds_append)
  let ?var = "blit (mem_bytes False (de_dlen st)) 0 (slice src ?s ?sz)"
  have "de_pos st + ?sz \<le> length inb" "slice inb (de_pos st) ?sz = slice src ?s ?sz" using h L(2) by (auto simp: holds_def)
  then have dec: "qmi_decode_basic_elem (mem_bytes False (de_dlen st)) 0 inb (de_pos st) 1 (elem_size f) =
      Some (int ?sz, ?var)"
    using decode_basic_eq [of 1 "elem_size f" 0 "mem_bytes False (de_dlen st)" "de_pos st" inb] sz(3) by simp
  have var: "mem_word False ?var = ?n" by (rule len_field_decode) (use sz src dl [OF Some] in auto)
  let ?o = "blit (de_out st) ?s (mem_bytes False ?n)"
  have put: "mem_put (de_out st) ?s (mem_bytes False ?n) = Some ?o" using p4(1) out by (intro mem_put_eq) simp
  have o: "overlay src {?s ..< ?s + 4} (de_out st) ?o"
    unfolding p4(2) [symmetric] using p4(1) out by (intro overlay_blit) auto
  have "of_nat (length (len_bytes src b g) + length body) - elem_size f = (of_nat (length body) :: u32)"
    using L by simp
  moreover have "update_decode (int ?sz) (st\<lparr>de_out := ?o, de_dlen := ?n\<rparr>) = Some (st\<lparr>de_out := ?o, de_dlen := ?n,
      de_pos := de_pos st + length (len_bytes src b g), de_bytes := de_bytes st + of_nat (length (len_bytes src b g))\<rparr>)"
    by (simp add: L del: of_nat_unat)
  ultimately have "dec_data_len False inb b (opt_list (g_len g) @ g_body g # rest)
      (of_nat (length (len_bytes src b g) + length body)) st =
    Some (g_body g # rest, of_nat (length body), st\<lparr>de_out := ?o, de_dlen := ?n,
      de_pos := de_pos st + length (len_bytes src b g), de_bytes := de_bytes st + of_nat (length (len_bytes src b g))\<rparr>)"
    using Some f(1) sz(2) dec var put by (simp add: dec_data_len_def Let_def del: update_decode_int of_nat_add)
  moreover have "unat ?n = g_count src b g" using Some by (simp add: g_count_def)
  ultimately show ?thesis using o Some by (intro exI [of _ ?o] exI [of _ ?n]) simp
qed

lemma dec_count_group:
  assumes wf: "wf_group g" and ok: "group_valid src b g" and dl: "g_len g \<noteq> None \<Longrightarrow> unat dl = g_count src b g"
  obtains m where "dec_count (g_body g) dl = Some m" "unat m = g_count src b g" "g_count src b g \<le> elem_count (g_body g)"
proof (cases "g_len g")
  case None
  then have "array_type (g_body g) \<noteq> VAR_LEN_ARRAY" using wf by (simp add: wf_group_def wf_body_def)
  from dec_count_plain [OF this, of dl] None that show thesis by (auto simp: g_count_def)
next
  case (Some f)
  then have a: "array_type (g_body g) = VAR_LEN_ARRAY" using wf by (simp add: wf_group_def wf_body_def)
  have "g_count src b g \<le> unat (elem_len (g_body g))" using ok Some by (simp add: group_valid_def)
  then have "dec_count (g_body g) dl = Some dl" using dl Some a by (simp add: dec_count_def word_less_nat_alt)
  then show thesis using that [of dl] dl Some a ok by (simp add: elem_count_def group_valid_def)
qed

lemma dec_group:
  assumes wf: "wf_descr (gs1 @ g # gs2) z" and ins: "group_in src b g" and ok: "group_valid src b g"
    and pl: "group_plain src b g" "present src b g"
    and out: "length (de_out st) = length src" "length src < 2 ^ 31"
    and inb: "holds inb (de_pos st) (group_bytes src b g)"
    and l: "de_bytes st = of_nat l" "l + length (group_bytes src b g) \<le> unat in_len" "unat in_len < 2 ^ 31"
    and pay: "length (payload src b g) < 2 ^ 16"
    and dl: "\<And>f. g_len g = Some f \<Longrightarrow> unat (de_dlen st) < 2 ^ (8 * unat (elem_size f))"
  shows "\<exists>out' dl' temp'. dec_loop False inb b in_len 1 (descr (gs1 @ g # gs2) z) temp st =
      dec_loop False inb b in_len 1 (descr (gs1 @ g # gs2) z) temp'
        (st\<lparr>de_dlen := dl', de_out := out', de_pos := de_pos st + length (group_bytes src b g),
          de_bytes := of_nat (l + length (group_bytes src b g))\<rparr>) \<and>
    unat dl' = g_count src b g \<and> overlay src (group_cover src b g) (de_out st) out'"
proof -
  let ?e = "g_body g" and ?L = "len_bytes src b g"
  let ?B = "body_bytes src b ?e (g_count src b g)"
  let ?ei = "descr (gs1 @ g # gs2) z" and ?rest = "descr gs2 z"
  have wfg: "wf_group g" using wf by (simp add: wf_descr_def)
  then have wfb: "wf_body (g_len g \<noteq> None) ?e" by (simp add: wf_group_def)
  have G: "group_bytes src b g = tlv_header (g_type g) (length (payload src b g)) @ ?L @ ?B"
    using pl(2) by (simp add: group_bytes_def payload_def)
  then have lenG: "length (group_bytes src b g) = 3 + length ?L + length ?B" by simp
  have h: "holds inb (de_pos st + 3) (?L @ ?B)" using inb G by (simp add: holds_append)
  have payL: "length (payload src b g) = length ?L + length ?B" by (simp add: payload_def)
  let ?len = "of_nat (length ?L + length ?B) :: u32"
  have tlv: "decode_tlv inb (de_pos st) = Some (ucast (g_type g), ?len)"
    using decode_tlv_header [OF inb [unfolded G] pay] by (simp add: payL)
  let ?st1 = "st\<lparr>de_pos := de_pos st + 3, de_bytes := de_bytes st + 3\<rparr>"
  have start: "dec_start inb in_len 1 ?ei temp st = Some (Dec_Elem (g_elems g @ ?rest) ?len ?st1)"
    using tlv find_ei_descr [OF wf] by (simp add: dec_start_def)
  have more: "de_bytes st < in_len" using l lenG by (simp add: word_less_nat_alt unat32)
  obtain o1 where o1: "dec_flag b (g_elems g @ ?rest) ?st1 = Some (opt_list (g_len g) @ ?e # ?rest, ?st1\<lparr>de_out := o1\<rparr>)"
    "overlay src (case g_flag g of None \<Rightarrow> {} | Some f \<Rightarrow> {b + offset f ..< b + offset f + 1}) (de_out st) o1"
    using dec_flag_step [OF wfg ins pl, of ?st1 ?rest] out by auto
  let ?st2 = "?st1\<lparr>de_out := o1\<rparr>"
  have len1: "length o1 = length src" using overlay_length [OF o1(2)] out by simp
  obtain o2 d1 where o2: "dec_data_len False inb b (opt_list (g_len g) @ ?e # ?rest) ?len ?st2 =
      Some (?e # ?rest, of_nat (length ?B), ?st2\<lparr>de_out := o2, de_dlen := d1, de_pos := de_pos st + 3 + length ?L,
        de_bytes := de_bytes st + 3 + of_nat (length ?L)\<rparr>)"
    "g_len g \<noteq> None \<Longrightarrow> unat d1 = g_count src b g"
    "overlay src (case g_len g of None \<Rightarrow> {} | Some f \<Rightarrow> {b + offset f ..< b + offset f + 4}) o1 o2"
    using dec_len_step [OF wfg ins pl(1), of ?st2 inb ?B ?rest] len1 h dl by auto
  let ?st3 = "?st2\<lparr>de_out := o2, de_dlen := d1, de_pos := de_pos st + 3 + length ?L,
        de_bytes := de_bytes st + 3 + of_nat (length ?L)\<rparr>"
  have len2: "length o2 = length src" using overlay_length [OF o2(3)] len1 by simp
  obtain m where m: "dec_count ?e d1 = Some m" "unat m = g_count src b g" "g_count src b g \<le> elem_count ?e"
    by (rule dec_count_group [OF wfg ok o2(2)]) blast+
  have prep: "dec_prepare False inb b (g_elems g @ ?rest) ?len ?st1 =
      Some (Inr (?e, ?rest, of_nat (length ?B), ?st3\<lparr>de_dlen := m\<rparr>))"
    using o1(1) o2(1) m(1) by (simp add: dec_prepare_def)
  have lB: "length ?B < 2 ^ 16" using pay payL by simp
  have ex: "\<exists>out'. dec_loop False inb b in_len 1 ?ei temp st = dec_loop False inb b in_len 1 ?ei ?rest
      (?st3\<lparr>de_dlen := m, de_out := out', de_pos := de_pos ?st3 + unat (of_nat (length ?B) :: u32),
        de_bytes := de_bytes ?st3 + of_nat (length ?B)\<rparr>) \<and>
    overlay src (body_cover src b ?e (g_count src b g)) (de_out ?st3) out'"
    by (rule dec_body [OF wfb _ _ m(2,3) _ _ _ _ _ _ more start prep])
      (use ins ok m out len2 h lB in \<open>auto simp: group_in_def group_valid_def unat32 holds_append\<close>)
  have uB: "unat (of_nat (length ?B) :: u32) = length ?B" using lB by (simp add: unat32)
  have de3: "de_out ?st3 = o2" by simp
  from ex [unfolded uB de3] obtain out' where out': "dec_loop False inb b in_len 1 ?ei temp st = dec_loop False inb b in_len 1 ?ei ?rest
      (?st3\<lparr>de_dlen := m, de_out := out', de_pos := de_pos ?st3 + length ?B, de_bytes := de_bytes ?st3 + of_nat (length ?B)\<rparr>)"
    "overlay src (body_cover src b ?e (g_count src b g)) o2 out'" by blast
  have "?st3\<lparr>de_dlen := m, de_out := out', de_pos := de_pos ?st3 + length ?B, de_bytes := de_bytes ?st3 + of_nat (length ?B)\<rparr> =
      st\<lparr>de_dlen := m, de_out := out', de_pos := de_pos st + length (group_bytes src b g),
        de_bytes := of_nat (l + length (group_bytes src b g))\<rparr>"
    using l(1) by (simp add: lenG add.assoc)
  moreover have "overlay src (group_cover src b g) (de_out st) out'"
    using overlay_trans [OF overlay_trans [OF o1(2) o2(3)] out'(2)] by (simp add: group_cover_def)
  ultimately show ?thesis using out'(1) m(2) by metis
qed

section \<open>Messages\<close>

text \<open>
  The variable for lengths is shared by all elements and a length field overwrites only its first
  bytes, so no count may need more bytes than any length field has.
\<close>

definition counts_fit :: "u8 list \<Rightarrow> nat \<Rightarrow> group list \<Rightarrow> bool" where
  "counts_fit src b gs \<longleftrightarrow> (\<forall>g \<in> set gs. \<forall>f. g_len g = Some f \<longrightarrow>
     (\<forall>h \<in> set gs. present src b h \<longrightarrow> g_count src b h < 2 ^ (8 * unat (elem_size f))))"

definition message_cover :: "u8 list \<Rightarrow> nat \<Rightarrow> group list \<Rightarrow> nat set" where
  "message_cover src b gs = (\<Union>g \<in> {g \<in> set gs. present src b g}. group_cover src b g)"

text \<open>What the encoder can send and the decoder can receive without loss.\<close>

definition message_plain :: "u8 list \<Rightarrow> nat \<Rightarrow> group list \<Rightarrow> bool" where
  "message_plain src b gs \<longleftrightarrow> counts_fit src b gs \<and>
     (\<forall>g \<in> set gs. group_plain src b g)"

lemma payload_in_message: "g \<in> set gs \<Longrightarrow> present src b g \<Longrightarrow> length (payload src b g) \<le> length (message_bytes src b gs)"
  by (induction gs) (auto simp: group_bytes_def)

lemma dec_groups:
  assumes wf: "wf_descr (gs1 @ gs) z" and ins: "\<forall>g \<in> set gs. group_in src b g" and ok: "message_ok src b gs"
    and pl: "\<forall>g \<in> set gs. group_plain src b g \<and> (present src b g \<longrightarrow> length (payload src b g) < 2 ^ 16)"
    and cf: "\<forall>g \<in> set gs. \<forall>f. g_len g = Some f \<longrightarrow> unat (de_dlen st) < 2 ^ (8 * unat (elem_size f)) \<and>
      (\<forall>h \<in> set gs. present src b h \<longrightarrow> g_count src b h < 2 ^ (8 * unat (elem_size f)))"
    and out: "length (de_out st) = length src" "length src < 2 ^ 31"
    and inb: "holds inb (de_pos st) (message_bytes src b gs)"
    and l: "de_bytes st = of_nat l" "l + length (message_bytes src b gs) = unat in_len" "unat in_len < 2 ^ 31"
  shows "\<exists>out'. dec_loop False inb b in_len 1 (descr (gs1 @ gs) z) temp st = Some (int (unat in_len), out') \<and>
    overlay src (message_cover src b gs) (de_out st) out'"
  using assms
proof (induction gs arbitrary: gs1 st l temp)
  case Nil
  then have "l = unat in_len" by simp
  then have "de_bytes st = in_len" using Nil.prems(9) by simp
  moreover have "sint in_len = int (unat in_len)" using Nil.prems(11) by (intro sint_small) simp
  ultimately show ?case by (simp add: message_cover_def)
next
  case (Cons g gs)
  let ?G = "group_bytes src b g"
  let ?ei = "descr (gs1 @ g # gs) z"
  have shift: "gs1 @ g # gs = (gs1 @ [g]) @ gs" by simp
  have hd: "holds inb (de_pos st) ?G" "holds inb (de_pos st + length ?G) (message_bytes src b gs)"
    using Cons.prems(8) by (simp_all add: holds_append)
  have mok: "message_ok src b gs" using Cons.prems(3) by (simp add: message_ok_def)
  show ?case
  proof (cases "present src b g")
    case False
    then have G: "?G = []" by (simp add: group_bytes_def)
    have "\<exists>out'. dec_loop False inb b in_len 1 (descr ((gs1 @ [g]) @ gs) z) temp st = Some (int (unat in_len), out') \<and>
        overlay src (message_cover src b gs) (de_out st) out'"
      by (rule Cons.IH [where l = l]) (use Cons.prems G mok hd in auto)
    moreover have "message_cover src b (g # gs) = message_cover src b gs" using False by (auto simp: message_cover_def)
    ultimately show ?thesis by simp
  next
    case True
    have "\<exists>out' dl' temp'. dec_loop False inb b in_len 1 ?ei temp st =
        dec_loop False inb b in_len 1 ?ei temp' (st\<lparr>de_dlen := dl', de_out := out', de_pos := de_pos st + length ?G,
          de_bytes := of_nat (l + length ?G)\<rparr>) \<and>
        unat dl' = g_count src b g \<and> overlay src (group_cover src b g) (de_out st) out'"
      by (rule dec_group [OF Cons.prems(1)]) (use Cons.prems True hd in \<open>auto simp: message_ok_def\<close>)
    then obtain out1 dl1 temp1 where o1: "dec_loop False inb b in_len 1 ?ei temp st =
        dec_loop False inb b in_len 1 ?ei temp1 (st\<lparr>de_dlen := dl1, de_out := out1, de_pos := de_pos st + length ?G,
          de_bytes := of_nat (l + length ?G)\<rparr>)"
      "unat dl1 = g_count src b g" "overlay src (group_cover src b g) (de_out st) out1" by blast
    let ?st = "st\<lparr>de_dlen := dl1, de_out := out1, de_pos := de_pos st + length ?G, de_bytes := of_nat (l + length ?G)\<rparr>"
    have "\<exists>out'. dec_loop False inb b in_len 1 (descr ((gs1 @ [g]) @ gs) z) temp1 ?st = Some (int (unat in_len), out') \<and>
        overlay src (message_cover src b gs) (de_out ?st) out'"
      by (rule Cons.IH [where l = "l + length ?G"])
        (use Cons.prems True mok hd o1(2) overlay_length [OF o1(3)] in auto)
    then obtain out' where o2: "dec_loop False inb b in_len 1 ?ei temp1 ?st = Some (int (unat in_len), out')"
      "overlay src (message_cover src b gs) out1 out'" unfolding shift by auto
    have "message_cover src b (g # gs) = group_cover src b g \<union> message_cover src b gs"
      using True by (auto simp: message_cover_def)
    then show ?thesis using o1(1) o2(1) overlay_trans [OF o1(3) o2(2)] by metis
  qed
qed

lemma qmi_decode_message_bytes:
  assumes "wf_descr gs z" "\<forall>g \<in> set gs. group_in src b g" "message_ok src b gs" "message_plain src b gs"
    and "length out = length src" "length src < 2 ^ 31"
    and "holds inb p (message_bytes src b gs)" "unat in_len = length (message_bytes src b gs)" "length (message_bytes src b gs) < 2 ^ 16"
  shows "\<exists>out'. qmi_decode False (Some (descr gs z)) out b inb p in_len 1 = Some (int (unat in_len), out') \<and>
    overlay src (message_cover src b gs) out out'"
proof -
  let ?st = "\<lparr>de_out = out, de_pos = p, de_bytes = 0, de_dlen = 0\<rparr>"
  have pay: "\<forall>g \<in> set gs. present src b g \<longrightarrow> length (payload src b g) < 2 ^ 16"
    using payload_in_message assms(9) by (meson order_le_less_trans)
  have "\<exists>out'. dec_loop False inb b in_len 1 (descr ([] @ gs) z) (descr gs z) ?st = Some (int (unat in_len), out') \<and>
      overlay src (message_cover src b gs) (de_out ?st) out'"
    by (rule dec_groups [where l = 0]) (use assms pay in \<open>auto simp: message_plain_def counts_fit_def\<close>)
  then obtain out' where o: "dec_loop False inb b in_len 1 (descr gs z) (descr gs z) ?st = Some (int (unat in_len), out')"
    "overlay src (message_cover src b gs) out out'" by auto
  show ?thesis
  proof (cases "in_len = 0")
    case True
    then have "out' = out" using o(1) by simp
    with True o(2) show ?thesis by (auto simp: qmi_decode_def)
  next
    case False
    with o show ?thesis by (auto simp: qmi_decode_def simp del: dec_loop.simps)
  qed
qed

end
