(* ===== verification/Qmi_Message.thy ===== *)
theory Qmi_Message
  imports Qmi_Decode
begin

text \<open>
  Whole QMI packets: the result of \<open>qmi_encode_message\<close> in terms of the reference encoding, what
  \<open>qmi_decode_header\<close> and \<open>qmi_decode_message\<close> read from any buffer that starts with a message, and the
  round trip through both.
\<close>

section \<open>Packets\<close>

definition message_packet :: "qrtr_packet \<Rightarrow> int \<Rightarrow> int \<Rightarrow> int \<Rightarrow> u8 list \<Rightarrow> qrtr_packet" where
  "message_packet pkt type msg_id txn_id body = pkt\<lparr>qp_data := blit (qp_data pkt) 0
       (qmi_header_bytes False (word_of_int type) (word_of_int txn_id) (word_of_int msg_id) (of_nat (length body)) @ body),
     qp_type := QRTR_TYPE_DATA, qp_data_len := 7 + length body\<rparr>"

lemma header_length [simp]: "length (qmi_header_bytes be ty txn mid len) = 7"
  by (simp add: qmi_header_bytes_def half_bytes_def)

lemma encode_message_cases:
  assumes "wf_descr gs z" "\<forall>g \<in> set gs. group_in src 0 g" "length src < 2 ^ 31"
    and "qp_data_len pkt \<le> length (qp_data pkt)" "qp_data_len pkt < 2 ^ 31"
  shows "if qp_data_len pkt < 7
      then qmi_encode_message False pkt type msg_id txn_id (Some src) (Some (descr gs z)) = Some (- EMSGSIZE, pkt)
    else if message_ok src 0 gs \<and> 7 + length (message_bytes src 0 gs) \<le> qp_data_len pkt
      then qmi_encode_message False pkt type msg_id txn_id (Some src) (Some (descr gs z)) =
        Some (7 + int (length (message_bytes src 0 gs)), message_packet pkt type msg_id txn_id (message_bytes src 0 gs))
    else \<exists>mem. qmi_encode_message False pkt type msg_id txn_id (Some src) (Some (descr gs z)) =
        Some (- EINVAL, pkt\<lparr>qp_data := mem\<rparr>) \<and> inside (qp_data pkt) 7 (qp_data_len pkt - 7) mem"
proof (cases "qp_data_len pkt < 7")
  case True
  then show ?thesis by (simp add: qmi_encode_message_def)
next
  case False
  let ?M = "message_bytes src 0 gs"
  let ?ol = "of_nat (qp_data_len pkt - 7) :: u32"
  have ol: "unat ?ol = qp_data_len pkt - 7" using assms(5) by (simp add: unat32)
  have enc: "if message_ok src 0 gs \<and> length ?M \<le> unat ?ol
    then qmi_encode False (Some (descr gs z)) (qp_data pkt) 7 src 0 ?ol 1 =
      Some (int (length ?M), blit (qp_data pkt) 7 ?M)
    else \<exists>mem'. qmi_encode False (Some (descr gs z)) (qp_data pkt) 7 src 0 ?ol 1 = Some (- EINVAL, mem') \<and>
      inside (qp_data pkt) 7 (unat ?ol) mem'"
    by (rule qmi_encode_message_bytes) (use assms ol False in auto)
  show ?thesis
  proof (cases "message_ok src 0 gs \<and> 7 + length ?M \<le> qp_data_len pkt")
    case True
    let ?H = "qmi_header_bytes False (word_of_int type) (word_of_int txn_id) (word_of_int msg_id) (of_nat (length ?M))"
    have room: "7 + length ?M \<le> length (qp_data pkt)" using True assms(4) by linarith
    have "message_ok src 0 gs \<and> length ?M \<le> unat ?ol" using True False ol by auto
    with enc have e: "qmi_encode False (Some (descr gs z)) (qp_data pkt) 7 src 0 ?ol 1 =
        Some (int (length ?M), blit (qp_data pkt) 7 ?M)" by simp
    have "mem_put (blit (qp_data pkt) 7 ?M) 0 ?H = Some (blit (qp_data pkt) 0 (?H @ ?M))"
      using mem_put_eq [of 0 ?H "blit (qp_data pkt) 7 ?M"] blit_before [of 0 ?H ?M "qp_data pkt"] room by simp
    with e False have "qmi_encode_message False pkt type msg_id txn_id (Some src) (Some (descr gs z)) =
        Some (7 + int (length ?M), message_packet pkt type msg_id txn_id ?M)"
      by (simp add: qmi_encode_message_def message_packet_def)
    with True False show ?thesis by (simp only: if_True if_False simp_thms)
  next
    case bad: False
    then have "\<not> (message_ok src 0 gs \<and> length ?M \<le> unat ?ol)" using False ol by auto
    with enc obtain mem' where e: "qmi_encode False (Some (descr gs z)) (qp_data pkt) 7 src 0 ?ol 1 = Some (- EINVAL, mem')"
      "inside (qp_data pkt) 7 (unat ?ol) mem'" by auto
    have "qmi_encode_message False pkt type msg_id txn_id (Some src) (Some (descr gs z)) =
        Some (- EINVAL, pkt\<lparr>qp_data := mem'\<rparr>)"
      using e(1) False by (simp add: qmi_encode_message_def EINVAL_def)
    with e(2) bad False ol show ?thesis by auto
  qed
qed

lemma header_fields:
  assumes "holds inb 0 (qmi_header_bytes False ty txn mid len @ bs)"
  shows "array_at inb 0 = Some ty" "get_half False inb 1 = Some txn" "get_half False inb 3 = Some mid"
    "get_half False inb 5 = Some len"
proof -
  have h: "holds inb 0 (qmi_header_bytes False ty txn mid len)" using assms by (simp add: holds_append)
  have n: "i < length inb \<and> inb ! i = qmi_header_bytes False ty txn mid len ! i" if "i < 7" for i
    using holds_nth [OF h, of i] that by simp
  have half: "half_word False (ucast x) (ucast (drop_bit 8 x)) = x" for x :: u16
    by (rule bit_word_eqI) (auto simp: half_word_def bit_simps)
  from n [of 0] show "array_at inb 0 = Some ty" by (simp add: qmi_header_bytes_def)
  from n [of 1] n [of 2] show "get_half False inb 1 = Some txn"
    by (simp add: get_half_def qmi_header_bytes_def half_bytes_def half numeral_2_eq_2)
  from n [of 3] n [of 4] show "get_half False inb 3 = Some mid"
    by (simp add: get_half_def qmi_header_bytes_def half_bytes_def half)
  from n [of 5] n [of 6] show "get_half False inb 5 = Some len"
    by (simp add: get_half_def qmi_header_bytes_def half_bytes_def half)
qed

lemma sub7_add: "sub7 (7 + n) = of_nat n" "n < 2 ^ 32 \<Longrightarrow> (ucast (sub7 (7 + n)) :: u32) = of_nat n"
proof -
  show a: "sub7 (7 + n) = of_nat n" by (simp add: sub7_def)
  show "n < 2 ^ 32 \<Longrightarrow> (ucast (sub7 (7 + n)) :: u32) = of_nat n"
    unfolding a by (rule word_unat_eq_iff [THEN iffD2]) (simp add: unsigned_ucast_eq unat_of_nat take_bit_nat_eq_self)
qed

section \<open>Reading a message\<close>

text \<open>
  The buffer holds a message, possibly followed by anything; the length the packet states is the
  length of the message.
\<close>

definition message_wire :: "int \<Rightarrow> int \<Rightarrow> int \<Rightarrow> u8 list \<Rightarrow> u8 list" where
  "message_wire type msg_id txn_id body = qmi_header_bytes False (word_of_int type) (word_of_int txn_id)
     (word_of_int msg_id) (of_nat (length body)) @ body"

lemma length_message_wire [simp]: "length (message_wire type msg_id txn_id body) = 7 + length body"
  by (simp add: message_wire_def)

lemma message_decodes:
  assumes "wf_descr gs z" "\<forall>g \<in> set gs. group_in src 0 g" "length src < 2 ^ 31"
    and "message_ok src 0 gs" "message_plain src 0 gs" "length (message_bytes src 0 gs) < 2 ^ 16" "length out = length src"
    and "0 \<le> type" "type < 2 ^ 8" "0 \<le> msg_id" "msg_id < 2 ^ 16"
    and hold: "holds (qp_data p) 0 (message_wire type msg_id txn_id (message_bytes src 0 gs))"
    and len: "qp_data_len p = 7 + length (message_bytes src 0 gs)"
  shows "\<exists>out'. qmi_decode_header False p = Some (Inr (word_of_int msg_id)) \<and>
    qmi_decode_message False (Some out) (Some (qp_data p)) (qp_data_len p) type msg_id (Some (descr gs z)) =
      Some (int (length (message_bytes src 0 gs)), Some out', Some (word_of_int txn_id)) \<and>
    overlay src (message_cover src 0 gs) out out'"
proof -
  let ?M = "message_bytes src 0 gs"
  have body: "holds (qp_data p) 7 ?M" using hold by (simp add: message_wire_def holds_append)
  note hf = header_fields [OF hold [unfolded message_wire_def]]
  have il: "unat (of_nat (length ?M) :: u32) = length ?M" using assms(6) by (simp add: unat32)
  have ml: "ucast (of_nat (length ?M) :: u16) = (of_nat (length ?M) :: u64)"
    using assms(6) by (intro word_unat_eq_iff [THEN iffD2]) (simp add: unsigned_ucast_eq unat_of_nat take_bit_nat_eq_self)
  have mid: "ucast (word_of_int msg_id :: u16) = (word_of_int msg_id :: u32)"
    using assms(10,11) by (intro word_uint_eq_iff [THEN iffD2]) (simp add: unsigned_ucast_eq uint_word_of_int take_bit_int_eq_self)
  have hdr: "qmi_decode_header False p = Some (Inr (word_of_int msg_id))"
    using hf(3,4) ml mid sub7_add(1) [of "length ?M"] by (simp add: qmi_decode_header_def len)
  obtain out' where o: "qmi_decode False (Some (descr gs z)) out 0 (qp_data p) 7 (of_nat (length ?M)) 1 =
      Some (int (length ?M), out')" "overlay src (message_cover src 0 gs) out out'"
    using qmi_decode_message_bytes [OF assms(1,2,4,5,7,3) body il assms(6)] assms(6) il by auto
  have "uint (word_of_int type :: u8) = type" "uint (word_of_int msg_id :: u16) = msg_id"
    using assms(8-11) by (simp_all add: uint_word_of_int take_bit_int_eq_self)
  then have "qmi_decode_message False (Some out) (Some (qp_data p)) (qp_data_len p) type msg_id (Some (descr gs z)) =
      Some (int (length ?M), Some out', Some (word_of_int txn_id))"
    using hf(1-3) o(1) sub7_add(2) [of "length ?M"] assms(6) by (simp add: qmi_decode_message_def len)
  with hdr o(2) show ?thesis by blast
qed

section \<open>There and back\<close>

lemma message_encodes:
  assumes "wf_descr gs z" "\<forall>g \<in> set gs. group_in src 0 g" "length src < 2 ^ 31"
    and "qp_data_len pkt \<le> length (qp_data pkt)" "qp_data_len pkt < 2 ^ 31"
    and "message_ok src 0 gs" "7 + length (message_bytes src 0 gs) \<le> qp_data_len pkt"
  shows "\<exists>pkt'. qmi_encode_message False pkt type msg_id txn_id (Some src) (Some (descr gs z)) =
      Some (int (qp_data_len pkt'), pkt') \<and> qp_data_len pkt' = 7 + length (message_bytes src 0 gs) \<and>
    take (qp_data_len pkt') (qp_data pkt') = message_wire type msg_id txn_id (message_bytes src 0 gs)"
proof -
  let ?M = "message_bytes src 0 gs"
  let ?p = "message_packet pkt type msg_id txn_id ?M"
  have "qmi_encode_message False pkt type msg_id txn_id (Some src) (Some (descr gs z)) =
      Some (int (qp_data_len ?p), ?p)"
    using encode_message_cases [OF assms(1-5), of type msg_id txn_id] assms(6,7) by (simp add: message_packet_def)
  moreover have "take (7 + length ?M) (qp_data ?p) = message_wire type msg_id txn_id ?M"
    by (simp add: message_packet_def message_wire_def blit_def)
  ultimately show ?thesis by (auto simp: message_packet_def)
qed

lemma holds_take: "take n mem = bs \<Longrightarrow> length bs = n \<Longrightarrow> holds mem 0 bs"
  by (auto simp: holds_def slice_def)

lemma message_roundtrip:
  assumes "wf_descr gs z" "\<forall>g \<in> set gs. group_in src 0 g" "length src < 2 ^ 31"
    and "qp_data_len pkt \<le> length (qp_data pkt)" "qp_data_len pkt < 2 ^ 31"
    and "message_ok src 0 gs" "message_plain src 0 gs" "length (message_bytes src 0 gs) < 2 ^ 16"
    and "7 + length (message_bytes src 0 gs) \<le> qp_data_len pkt" "length out = length src"
    and "0 \<le> type" "type < 2 ^ 8" "0 \<le> msg_id" "msg_id < 2 ^ 16"
  shows "\<exists>pkt' out'. qmi_encode_message False pkt type msg_id txn_id (Some src) (Some (descr gs z)) =
      Some (int (qp_data_len pkt'), pkt') \<and>
    qmi_decode_header False pkt' = Some (Inr (word_of_int msg_id)) \<and>
    qmi_decode_message False (Some out) (Some (qp_data pkt')) (qp_data_len pkt') type msg_id (Some (descr gs z)) =
      Some (int (length (message_bytes src 0 gs)), Some out', Some (word_of_int txn_id)) \<and>
    overlay src (message_cover src 0 gs) out out'"
proof -
  obtain pkt' where p: "qmi_encode_message False pkt type msg_id txn_id (Some src) (Some (descr gs z)) =
      Some (int (qp_data_len pkt'), pkt')" "qp_data_len pkt' = 7 + length (message_bytes src 0 gs)"
    "take (qp_data_len pkt') (qp_data pkt') = message_wire type msg_id txn_id (message_bytes src 0 gs)"
    using message_encodes [OF assms(1-6,9)] by blast
  have "holds (qp_data pkt') 0 (message_wire type msg_id txn_id (message_bytes src 0 gs))"
    using p(2,3) by (intro holds_take) auto
  from p(1) message_decodes [OF assms(1-3,6-8,10-14) this p(2)] show ?thesis by blast
qed

end
