(* ===== verification/Qmi_Unknown.thy ===== *)
theory Qmi_Unknown
  imports Qmi_Decode
begin

text \<open>
  Messages with TLVs that the descriptor does not know, at any place between the known ones, and the
  known ones in any order: what \<open>qmi_decode\<close> makes of them up to the first unknown mandatory TLV.
\<close>

section \<open>Messages as sequences of TLVs\<close>

text \<open>A TLV of a group of the descriptor, or one of another type with its value.\<close>

type_synonym piece = "group + u8 \<times> u8 list"

fun piece_bytes :: "u8 list \<Rightarrow> nat \<Rightarrow> piece \<Rightarrow> u8 list" where
  "piece_bytes src b (Inl g) = group_bytes src b g"
| "piece_bytes src b (Inr (ty, bs)) = tlv_header ty (length bs) @ bs"

definition pieces_bytes :: "u8 list \<Rightarrow> nat \<Rightarrow> piece list \<Rightarrow> u8 list" where
  "pieces_bytes src b ps = concat (map (piece_bytes src b) ps)"

fun groups_of :: "piece list \<Rightarrow> group list" where
  "groups_of [] = []"
| "groups_of (Inl g # ps) = g # groups_of ps"
| "groups_of (Inr x # ps) = groups_of ps"

text \<open>Types below 16 are mandatory: a decoder that does not know one must refuse the message.\<close>

fun tolerated :: "piece \<Rightarrow> bool" where
  "tolerated (Inl g) = True"
| "tolerated (Inr (ty, bs)) = (16 \<le> ty)"

definition foreign :: "group list \<Rightarrow> piece list \<Rightarrow> bool" where
  "foreign gs ps \<longleftrightarrow> (\<forall>ty bs. Inr (ty, bs) \<in> set ps \<longrightarrow> ty \<notin> g_type ` set gs)"

lemma pieces_bytes_simps [simp]:
  "pieces_bytes src b [] = []"
  "pieces_bytes src b (q # ps) = piece_bytes src b q @ pieces_bytes src b ps"
  "pieces_bytes src b (ps @ qs) = pieces_bytes src b ps @ pieces_bytes src b qs"
  by (simp_all add: pieces_bytes_def)

lemma groups_of_append [simp]: "groups_of (ps @ qs) = groups_of ps @ groups_of qs"
  by (induction ps rule: groups_of.induct) simp_all

lemma groups_of_map [simp]: "groups_of (map Inl gs) = gs"
  by (induction gs) simp_all

lemma takeWhile_known:
  "takeWhile tolerated (map Inl gs) = map Inl gs"
  "takeWhile tolerated (map Inl gs @ ps) = map Inl gs @ takeWhile tolerated ps"
  by (induction gs) simp_all

lemma message_cover_simps [simp]:
  "message_cover src b [] = {}"
  "message_cover src b (g # gs) = (if present src b g then group_cover src b g else {}) \<union> message_cover src b gs"
  by (auto simp: message_cover_def)

section \<open>Decoding them\<close>

lemma find_ei_none:
  assumes "wf_descr gs z" "ty \<notin> g_type ` set gs"
  shows "find_ei (descr gs z) (ucast ty) = Some None"
proof -
  have u: "ucast (ucast ty :: u32) = ty" by (rule bit_word_eqI) (auto simp: bit_simps)
  have wf: "\<forall>g \<in> set gs. wf_group g" "data_type z = QMI_EOTI" using assms(1) by (simp_all add: wf_descr_def)
  have "find_ei (descr gs z) (ucast ty) = find_ei [z] (ucast ty)"
    unfolding descr_def using wf assms(2) g_elems_type g_elems_no_end
    by (intro find_ei_skip) (fastforce simp: u)
  then show ?thesis using wf(2) by simp
qed

lemma mandatory_iff: "ucast ty < (16 :: u32) \<longleftrightarrow> ty < (16 :: u8)"
proof -
  have "unat ty < 2 ^ 32" by (rule order_less_trans [OF unsigned_less]) simp
  then show ?thesis by (simp add: word_less_nat_alt unsigned_ucast_eq take_bit_nat_eq_self)
qed

lemma dec_unknown:
  assumes wf: "wf_descr gs z" and ty: "ty \<notin> g_type ` set gs"
    and inb: "holds inb (de_pos st) (tlv_header ty (length bs) @ bs)"
    and l: "de_bytes st = of_nat l" "l + 3 + length bs \<le> unat in_len" "unat in_len < 2 ^ 16"
  shows "dec_loop False inb b in_len 1 (descr gs z) temp st =
    (if ty < 16 then Some (- EINVAL, de_out st)
     else dec_loop False inb b in_len 1 (descr gs z) temp
       (st\<lparr>de_pos := de_pos st + (3 + length bs), de_bytes := of_nat (l + (3 + length bs))\<rparr>))"
proof -
  have len: "length bs < 2 ^ 16" using l by linarith
  have tlv: "decode_tlv inb (de_pos st) = Some (ucast ty, of_nat (length bs))"
    by (rule decode_tlv_header [OF inb len])
  have n: "unat (of_nat (length bs) :: u32) = length bs" using len by (simp add: unat32)
  have more: "de_bytes st < in_len" using l by (simp add: word_less_nat_alt unat32)
  show ?thesis
    using tlv mandatory_iff [of ty] find_ei_none [OF wf ty] n more l(1)
    by (subst dec_loop.simps) (simp add: dec_start_def add.assoc add.commute add.left_commute del: dec_loop.simps)
qed

text \<open>One tolerated TLV: the decoder gets behind it, with the bytes of its group in the C struct.\<close>

lemma dec_piece:
  assumes wf: "wf_descr gs z" and un: "foreign gs [q]" "tolerated q"
    and gr: "\<And>g. q = Inl g \<Longrightarrow> g \<in> set gs \<and> group_in src b g \<and> group_plain src b g \<and> (present src b g \<longrightarrow> group_valid src b g)"
    and dl: "\<And>g f. q = Inl g \<Longrightarrow> g_len g = Some f \<Longrightarrow> unat (de_dlen st) < 2 ^ (8 * unat (elem_size f))"
    and out: "length (de_out st) = length src" "length src < 2 ^ 31"
    and inb: "holds inb (de_pos st) (piece_bytes src b q)"
    and l: "de_bytes st = of_nat l" "l + length (piece_bytes src b q) \<le> unat in_len" "unat in_len < 2 ^ 16"
  shows "\<exists>temp' dl out'. dec_loop False inb b in_len 1 (descr gs z) temp st =
      dec_loop False inb b in_len 1 (descr gs z) temp'
        (st\<lparr>de_dlen := dl, de_out := out', de_pos := de_pos st + length (piece_bytes src b q),
          de_bytes := of_nat (l + length (piece_bytes src b q))\<rparr>) \<and>
    overlay src (message_cover src b (groups_of [q])) (de_out st) out' \<and>
    (dl = de_dlen st \<or> (\<exists>g. q = Inl g \<and> present src b g \<and> unat dl = g_count src b g))"
proof (cases q)
  case (Inr x)
  obtain ty bs where q: "q = Inr (ty, bs)" using Inr by (cases x) simp
  have ty: "ty \<notin> g_type ` set gs" "\<not> ty < 16" using un q by (auto simp: foreign_def not_less)
  have h: "holds inb (de_pos st) (tlv_header ty (length bs) @ bs)" using inb q by simp
  have "l + 3 + length bs \<le> unat in_len" using l(2) q by simp
  from dec_unknown [OF wf ty(1) h l(1) this l(3)] ty(2) show ?thesis
    by (intro exI [of _ temp] exI [of _ "de_dlen st"] exI [of _ "de_out st"])
      (simp add: q del: dec_loop.simps of_nat_add)
next
  case (Inl g)
  then have g: "g \<in> set gs" "group_in src b g" "group_plain src b g" "present src b g \<Longrightarrow> group_valid src b g"
    using gr by auto
  show ?thesis
  proof (cases "present src b g")
    case False
    have "st\<lparr>de_dlen := de_dlen st, de_out := de_out st, de_pos := de_pos st, de_bytes := of_nat l\<rparr> = st"
      using l(1) by simp
    with False show ?thesis
      by (intro exI [of _ temp] exI [of _ "de_dlen st"] exI [of _ "de_out st"])
        (simp add: Inl group_bytes_def del: dec_loop.simps)
  next
    case True
    from g(1) obtain gs1 gs2 where gs: "gs = gs1 @ g # gs2" by (meson split_list)
    have "length (payload src b g) < length (group_bytes src b g)" using True by (simp add: group_bytes_def)
    then have pay: "length (payload src b g) < 2 ^ 16" using l(2,3) Inl by simp
    have "\<exists>out' dl' temp'. dec_loop False inb b in_len 1 (descr gs z) temp st =
        dec_loop False inb b in_len 1 (descr gs z) temp' (st\<lparr>de_dlen := dl', de_out := out',
          de_pos := de_pos st + length (group_bytes src b g), de_bytes := of_nat (l + length (group_bytes src b g))\<rparr>) \<and>
        unat dl' = g_count src b g \<and> overlay src (group_cover src b g) (de_out st) out'"
      unfolding gs by (rule dec_group [OF wf [unfolded gs]]) (use g True out inb l pay dl Inl in auto)
    then show ?thesis using Inl True by (simp del: dec_loop.simps of_nat_add) blast
  qed
qed

text \<open>A run of tolerated TLVs.\<close>

lemma dec_pieces:
  assumes wf: "wf_descr gs z" and sub: "set (groups_of ps) \<subseteq> G" "G \<subseteq> set gs" and ins: "\<forall>g \<in> G. group_in src b g"
    and ok: "\<forall>g \<in> G. present src b g \<longrightarrow> group_valid src b g" and pl: "\<forall>g \<in> G. group_plain src b g"
    and cf: "\<forall>g \<in> G. \<forall>f. g_len g = Some f \<longrightarrow> unat (de_dlen st) < 2 ^ (8 * unat (elem_size f)) \<and>
      (\<forall>h \<in> G. present src b h \<longrightarrow> g_count src b h < 2 ^ (8 * unat (elem_size f)))"
    and un: "foreign gs ps" "\<forall>q \<in> set ps. tolerated q"
    and out: "length (de_out st) = length src" "length src < 2 ^ 31"
    and inb: "holds inb (de_pos st) (pieces_bytes src b ps)"
    and l: "de_bytes st = of_nat l" "l + length (pieces_bytes src b ps) \<le> unat in_len" "unat in_len < 2 ^ 16"
  shows "\<exists>temp' dl out'. dec_loop False inb b in_len 1 (descr gs z) temp st =
      dec_loop False inb b in_len 1 (descr gs z) temp'
        (st\<lparr>de_dlen := dl, de_out := out', de_pos := de_pos st + length (pieces_bytes src b ps),
          de_bytes := of_nat (l + length (pieces_bytes src b ps))\<rparr>) \<and>
    overlay src (message_cover src b (groups_of ps)) (de_out st) out'"
  using sub(1) cf un out(1) inb l(1,2)
proof (induction ps arbitrary: st l temp)
  case Nil
  then have "st\<lparr>de_dlen := de_dlen st, de_out := de_out st, de_pos := de_pos st, de_bytes := of_nat l\<rparr> = st" by simp
  then show ?case by (intro exI [of _ temp] exI [of _ "de_dlen st"] exI [of _ "de_out st"]) simp
next
  case (Cons q ps)
  let ?L = "length (piece_bytes src b q)" and ?P = "pieces_bytes src b ps"
  have un': "foreign gs [q]" "foreign gs ps" "tolerated q" "\<forall>q \<in> set ps. tolerated q"
    using Cons.prems(3,4) by (auto simp: foreign_def)
  have gq: "g \<in> G" if "q = Inl g" for g using Cons.prems(1) that by simp
  have gp: "set (groups_of ps) \<subseteq> G" using Cons.prems(1) by (cases q) auto
  have h: "holds inb (de_pos st) (piece_bytes src b q)" "holds inb (de_pos st + ?L) ?P"
    using Cons.prems(6) by (simp_all add: holds_append)
  have "\<exists>temp' dl out'. dec_loop False inb b in_len 1 (descr gs z) temp st =
      dec_loop False inb b in_len 1 (descr gs z) temp' (st\<lparr>de_dlen := dl, de_out := out',
        de_pos := de_pos st + ?L, de_bytes := of_nat (l + ?L)\<rparr>) \<and>
      overlay src (message_cover src b (groups_of [q])) (de_out st) out' \<and>
      (dl = de_dlen st \<or> (\<exists>g. q = Inl g \<and> present src b g \<and> unat dl = g_count src b g))"
    by (rule dec_piece [OF wf un'(1,3)])
      (use gq sub(2) ins ok pl Cons.prems(2,5,7,8) out(2) h(1) l(3) in auto)
  then obtain t1 dl1 o1 where o1: "dec_loop False inb b in_len 1 (descr gs z) temp st =
      dec_loop False inb b in_len 1 (descr gs z) t1 (st\<lparr>de_dlen := dl1, de_out := o1,
        de_pos := de_pos st + ?L, de_bytes := of_nat (l + ?L)\<rparr>)"
    "overlay src (message_cover src b (groups_of [q])) (de_out st) o1"
    "dl1 = de_dlen st \<or> (\<exists>g. q = Inl g \<and> present src b g \<and> unat dl1 = g_count src b g)" by blast
  let ?st = "st\<lparr>de_dlen := dl1, de_out := o1, de_pos := de_pos st + ?L, de_bytes := of_nat (l + ?L)\<rparr>"
  have cf': "\<forall>g \<in> G. \<forall>f. g_len g = Some f \<longrightarrow> unat dl1 < 2 ^ (8 * unat (elem_size f)) \<and>
      (\<forall>h \<in> G. present src b h \<longrightarrow> g_count src b h < 2 ^ (8 * unat (elem_size f)))"
    using Cons.prems(2) o1(3) gq by metis
  have "\<exists>temp' dl out'. dec_loop False inb b in_len 1 (descr gs z) t1 ?st =
      dec_loop False inb b in_len 1 (descr gs z) temp' (?st\<lparr>de_dlen := dl, de_out := out',
        de_pos := de_pos ?st + length ?P, de_bytes := of_nat (l + ?L + length ?P)\<rparr>) \<and>
      overlay src (message_cover src b (groups_of ps)) (de_out ?st) out'"
    by (rule Cons.IH [OF gp _ un'(2,4)])
      (use Cons.prems(5,8) cf' h(2) overlay_length [OF o1(2)] in auto)
  then obtain t2 dl2 o2 where o2: "dec_loop False inb b in_len 1 (descr gs z) t1 ?st =
      dec_loop False inb b in_len 1 (descr gs z) t2 (?st\<lparr>de_dlen := dl2, de_out := o2,
        de_pos := de_pos ?st + length ?P, de_bytes := of_nat (l + ?L + length ?P)\<rparr>)"
    "overlay src (message_cover src b (groups_of ps)) o1 o2" by auto
  have "message_cover src b (groups_of (q # ps)) =
      message_cover src b (groups_of [q]) \<union> message_cover src b (groups_of ps)" by (cases q) simp_all
  with overlay_trans [OF o1(2) o2(2)] show ?case unfolding o1(1) o2(1)
    by (intro exI [of _ t2] exI [of _ dl2] exI [of _ o2]) (simp add: add.assoc del: dec_loop.simps of_nat_add)
qed

text \<open>The whole message, or what precedes the first unknown mandatory TLV.\<close>

lemma no_pieces:
  "pieces_bytes src b ps = [] \<Longrightarrow> (\<forall>q \<in> set ps. tolerated q) \<and> message_cover src b (groups_of ps) = {}"
proof (induction ps)
  case (Cons q ps)
  then show ?case by (cases q rule: tolerated.cases) (auto simp: group_bytes_def tlv_header_def split: if_splits)
qed simp

lemma qmi_decode_pieces:
  assumes wf: "wf_descr gs z" and sub: "set (groups_of ps) \<subseteq> set gs" and un: "foreign gs ps"
    and ins: "\<forall>g \<in> set (groups_of ps). group_in src b g"
    and ok: "message_ok src b (groups_of ps)" and pl: "message_plain src b (groups_of ps)"
    and out: "length out = length src" "length src < 2 ^ 31"
    and inb: "holds inb p (pieces_bytes src b ps)"
    and len: "unat in_len = length (pieces_bytes src b ps)" "unat in_len < 2 ^ 16"
  shows "\<exists>out'. qmi_decode False (Some (descr gs z)) out b inb p in_len 1 =
      Some (if \<forall>q \<in> set ps. tolerated q then int (unat in_len) else - EINVAL, out') \<and>
    overlay src (message_cover src b (groups_of (takeWhile tolerated ps))) out out'"
proof (cases "in_len = 0")
  case True
  then have none: "\<forall>q \<in> set ps. tolerated q" "message_cover src b (groups_of ps) = {}"
    using no_pieces [of src b ps] len by simp_all
  then show ?thesis using True none(1) by (simp add: qmi_decode_def takeWhile_eq_all_conv [THEN iffD2])
next
  case False
  let ?st = "\<lparr>de_out = out, de_pos = p, de_bytes = 0, de_dlen = 0\<rparr>"
  let ?k = "takeWhile tolerated ps" and ?r = "dropWhile tolerated ps"
  have split: "pieces_bytes src b ps = pieces_bytes src b ?k @ pieces_bytes src b ?r"
    using pieces_bytes_simps(3) [of src b ?k ?r] by simp
  have gk: "set (groups_of ?k) \<subseteq> set (groups_of ps)"
    using groups_of_append [of ?k ?r] by simp
  have h: "holds inb p (pieces_bytes src b ?k)" "holds inb (p + length (pieces_bytes src b ?k)) (pieces_bytes src b ?r)"
    using inb unfolding split by (simp_all add: holds_append)
  have dec: "qmi_decode False (Some (descr gs z)) out b inb p in_len 1 =
      dec_loop False inb b in_len 1 (descr gs z) (descr gs z) ?st"
    using False by (simp add: qmi_decode_def del: dec_loop.simps)
  have tk: "foreign gs ?k" "\<forall>q \<in> set ?k. tolerated q"
    using un by (auto simp: foreign_def dest: set_takeWhileD)
  have "\<exists>temp' dl out'. dec_loop False inb b in_len 1 (descr gs z) (descr gs z) ?st =
      dec_loop False inb b in_len 1 (descr gs z) temp'
        (?st\<lparr>de_dlen := dl, de_out := out', de_pos := de_pos ?st + length (pieces_bytes src b ?k),
          de_bytes := of_nat (0 + length (pieces_bytes src b ?k))\<rparr>) \<and>
    overlay src (message_cover src b (groups_of ?k)) (de_out ?st) out'"
    by (rule dec_pieces [OF wf gk sub ins])
      (use ok pl tk out h len split in \<open>auto simp: message_ok_def message_plain_def counts_fit_def\<close>)
  then obtain t dl out' where o: "dec_loop False inb b in_len 1 (descr gs z) (descr gs z) ?st =
      dec_loop False inb b in_len 1 (descr gs z) t
        \<lparr>de_out = out', de_pos = p + length (pieces_bytes src b ?k), de_bytes = of_nat (length (pieces_bytes src b ?k)), de_dlen = dl\<rparr>"
    "overlay src (message_cover src b (groups_of ?k)) out out'" by auto
  show ?thesis
  proof (cases "?r")
    case Nil
    then have all: "\<forall>q \<in> set ps. tolerated q" by simp
    then have "of_nat (length (pieces_bytes src b ?k)) = in_len"
      using len(1) by (simp add: takeWhile_eq_all_conv [THEN iffD2] word_eq_iff_unsigned flip: len(1))
    moreover have "sint in_len = int (unat in_len)" using len by (intro sint_small) simp
    ultimately show ?thesis using o all dec by auto
  next
    case (Cons q r)
    then have q: "q \<in> set ps" "\<not> tolerated q" using set_dropWhileD [of q tolerated ps] hd_dropWhile [of tolerated ps] by auto
    then obtain ty bs where x: "q = Inr (ty, bs)" "ty < 16" by (cases q rule: tolerated.cases) (simp_all add: not_le)
    have ty: "ty \<notin> g_type ` set gs" using un q(1) x by (auto simp: foreign_def)
    have u: "holds inb (p + length (pieces_bytes src b ?k)) (tlv_header ty (length bs) @ bs)"
      using h(2) Cons x by (simp add: holds_append)
    have room: "length (pieces_bytes src b ?k) + 3 + length bs \<le> unat in_len"
      using len(1) split Cons x by simp
    have "dec_loop False inb b in_len 1 (descr gs z) t
        \<lparr>de_out = out', de_pos = p + length (pieces_bytes src b ?k), de_bytes = of_nat (length (pieces_bytes src b ?k)), de_dlen = dl\<rparr> =
        Some (- EINVAL, out')"
      using dec_unknown [OF wf ty, of inb "\<lparr>de_out = out', de_pos = p + length (pieces_bytes src b ?k),
        de_bytes = of_nat (length (pieces_bytes src b ?k)), de_dlen = dl\<rparr>" bs "length (pieces_bytes src b ?k)" in_len b t]
        u room x len(2) by (simp del: dec_loop.simps)
    then show ?thesis using o q dec by auto
  qed
qed

end
