(* ===== verification/Qmi_Iteration.thy ===== *)
theory Qmi_Iteration
  imports Qmi
begin

text \<open>
  The decoder on arbitrary descriptors and bytes: one iteration of each of its two mutually
  recursive loops as a case distinction, for inductions over them.
\<close>

lemma update_decode_out: "update_decode rc st = Some st' \<Longrightarrow> de_out st' = de_out st"
  by (auto simp: update_decode_def split: bind_splits)

lemma dec_start_out:
  "dec_start inb in_len level ei temp st = Some (Dec_Skip st') \<Longrightarrow> de_out st' = de_out st"
  "dec_start inb in_len level ei temp st = Some (Dec_Elem t l st') \<Longrightarrow> de_out st' = de_out st"
  by (auto simp: dec_start_def Let_def split: bind_splits if_splits option.splits list.splits)

text \<open>One iteration of the decoder's loop.\<close>

lemma dec_loop_cases:
  assumes "dec_loop be inb base in_len level ei temp st = Some (rc, r)"
  obtains (stop) "rc = sint (de_bytes st)" "r = de_out st"
  | (leave) "dec_start inb in_len level ei temp st = Some (Dec_Return rc)" "r = de_out st" "de_bytes st < in_len"
  | (skip) st1 where "de_bytes st < in_len" "dec_start inb in_len level ei temp st = Some (Dec_Skip st1)"
      "dec_loop be inb base in_len level ei temp st1 = Some (rc, r)"
  | (refuse) t l st1 where "de_bytes st < in_len" "dec_start inb in_len level ei temp st = Some (Dec_Elem t l st1)"
      "dec_prepare be inb base t l st1 = Some (Inl (rc, r))"
  | (structs) t l st1 e es l' st2 rc' r' where "de_bytes st < in_len"
      "dec_start inb in_len level ei temp st = Some (Dec_Elem t l st1)"
      "dec_prepare be inb base t l st1 = Some (Inr (e, es, l', st2))" "data_type e = QMI_STRUCT"
      "dec_structs be inb l' (Suc level) (ei_array e) (unat (elem_size e)) (unat (de_dlen st2)) (de_out st2)
        (base + offset e) (de_pos st2) 0 = Some (rc', r')"
      "rc' < 0 \<and> rc = rc' \<and> r = r' \<or>
       (\<exists>st3. \<not> rc' < 0 \<and> update_decode rc' (st2\<lparr>de_out := r'\<rparr>) = Some st3 \<and>
          dec_loop be inb base in_len level ei es st3 = Some (rc, r))"
  | (elem) t l st1 e es l' st2 res where "de_bytes st < in_len"
      "dec_start inb in_len level ei temp st = Some (Dec_Elem t l st1)"
      "dec_prepare be inb base t l st1 = Some (Inr (e, es, l', st2))" "data_type e \<noteq> QMI_STRUCT"
      "dec_elem be inb base level e l' st2 = Some res"
      "res = Inl (rc, r) \<or> (\<exists>st3. res = Inr st3 \<and> dec_loop be inb base in_len level ei es st3 = Some (rc, r))"
proof (cases "de_bytes st < in_len")
  case False
  then show thesis using assms by (intro stop) auto
next
  case True
  then obtain go where go: "dec_start inb in_len level ei temp st = Some go"
    using assms by (cases "dec_start inb in_len level ei temp st") auto
  show thesis
  proof (cases go)
    case (Dec_Return x)
    then show thesis using True go assms by (intro leave) auto
  next
    case (Dec_Skip st1)
    then show thesis using True go assms by (intro skip [of st1]) auto
  next
    case (Dec_Elem t l st1)
    note start = go [unfolded Dec_Elem]
    obtain q where q: "dec_prepare be inb base t l st1 = Some q"
      using assms True start by (cases "dec_prepare be inb base t l st1") auto
    show thesis
    proof (cases q)
      case (Inl res)
      then show thesis using True start q assms by (intro refuse [of t l st1]) auto
    next
      case (Inr x)
      then obtain e es l' st2 where x: "q = Inr (e, es, l', st2)" by (metis prod.exhaust)
      note prep = q [unfolded x]
      show thesis
      proof (cases "data_type e = QMI_STRUCT")
        case struct: True
        obtain rc' r' where s: "dec_structs be inb l' (Suc level) (ei_array e) (unat (elem_size e)) (unat (de_dlen st2)) (de_out st2)
            (base + offset e) (de_pos st2) 0 = Some (rc', r')"
          using assms True start prep struct
          by (subst (asm) dec_loop.simps) (auto split: bind_splits simp del: dec_loop.simps dec_structs.simps)
        show thesis
          by (rule structs [OF True start prep struct s])
            (use assms True start prep struct s in \<open>subst (asm) dec_loop.simps,
              auto split: bind_splits if_splits simp del: dec_loop.simps dec_structs.simps\<close>)
      next
        case plain: False
        then obtain res where e: "dec_elem be inb base level e l' st2 = Some res"
          using assms True start prep by (cases "dec_elem be inb base level e l' st2") auto
        show thesis
          by (rule elem [OF True start prep plain e])
            (use assms True start prep plain e in \<open>subst (asm) dec_loop.simps,
              auto split: bind_splits sum.splits simp del: dec_loop.simps dec_structs.simps\<close>)
      qed
    qed
  qed
qed

lemma dec_structs_cases:
  assumes "dec_structs be inb tlv_len level arr sz n out d p bytes = Some (rc, r)"
  obtains (stop) "rc = dec_structs_end tlv_len level n bytes" "r = out"
  | (step) a rc' r' where "0 < n" "word_of_int bytes < tlv_len" "arr = Some a"
      "dec_loop be inb d (tlv_len - word_of_int bytes) level a a
        \<lparr>de_out = out, de_pos = p, de_bytes = 0, de_dlen = 0\<rparr> = Some (rc', r')"
      "rc' < 0 \<and> rc = rc' \<and> r = r' \<or>
       \<not> rc' < 0 \<and> int32 (bytes + rc') = Some (bytes + rc') \<and>
         dec_structs be inb tlv_len level arr sz (n - 1) r' (d + sz) (p + nat rc') (bytes + rc') = Some (rc, r)"
proof (cases "n = 0 \<or> \<not> word_of_int bytes < tlv_len")
  case True
  show thesis by (rule stop) (use assms True in \<open>subst (asm) dec_structs.simps, auto\<close>)+
next
  case False
  then obtain a rc' r' where a: "arr = Some a" "dec_loop be inb d (tlv_len - word_of_int bytes) level a a
        \<lparr>de_out = out, de_pos = p, de_bytes = 0, de_dlen = 0\<rparr> = Some (rc', r')"
    using assms by (subst (asm) dec_structs.simps) (auto split: bind_splits simp del: dec_loop.simps dec_structs.simps)
  from False have nz: "0 < n" "word_of_int bytes < tlv_len" by auto
  show thesis
    by (rule step [OF nz a]) (use assms a nz in \<open>subst (asm) dec_structs.simps,
      auto split: bind_splits if_splits simp del: dec_loop.simps dec_structs.simps\<close>)
qed

end
