(* ===== verification/Qmi_Frame.thy ===== *)
theory Qmi_Frame
  imports Qmi_Decode Qmi_Iteration
begin

text \<open>
  The bytes of the C struct that the decoder may write, whatever the message: the fields that the
  descriptor names. Nothing is assumed of the bytes of the message, of the byte order of the host or
  of the values that are in the struct before.
\<close>

section \<open>Memories that differ only in some places\<close>

definition frame :: "nat set \<Rightarrow> 'a list \<Rightarrow> 'a list \<Rightarrow> bool" where
  "frame C m m' \<longleftrightarrow> length m' = length m \<and> (\<forall>i < length m. i \<notin> C \<longrightarrow> m' ! i = m ! i)"

lemma frame_refl [simp]: "frame C m m"
  by (simp add: frame_def)

lemma frame_trans: "frame C m1 m2 \<Longrightarrow> frame C m2 m3 \<Longrightarrow> frame C m1 m3"
  by (simp add: frame_def)

lemma frame_mono: "frame C m m' \<Longrightarrow> C \<subseteq> D \<Longrightarrow> frame D m m'"
  by (auto simp: frame_def)

lemma mem_copy_frame:
  assumes "mem_copy dst d src s n = Some r"
  shows "frame {d ..< d + n} dst r"
proof -
  have "d + n \<le> length dst" "s + n \<le> length src" using assms by (auto simp: mem_copy_def split: if_splits)
  with assms mem_copy_eq [of d n dst s src] show ?thesis by (auto simp: frame_def blit_nth)
qed

lemma mem_put_frame: "mem_put dst d bs = Some r \<Longrightarrow> frame {d ..< d + length bs} dst r"
  by (simp add: mem_put_def mem_copy_frame)

lemma copy_elems_frame: "copy_elems n sz dst d src s = Some r \<Longrightarrow> frame {d ..< d + n * sz} dst r"
proof (induction n arbitrary: dst d s)
  case (Suc n)
  then obtain o1 where o: "mem_copy dst d src s sz = Some o1" "copy_elems n sz o1 (d + sz) src (s + sz) = Some r"
    by (auto split: bind_splits)
  have "frame {d ..< d + Suc n * sz} dst o1" by (rule frame_mono [OF mem_copy_frame [OF o(1)]]) auto
  moreover have "frame {d ..< d + Suc n * sz} o1 r" by (rule frame_mono [OF Suc.IH [OF o(2)]]) auto
  ultimately show ?case by (rule frame_trans)
qed simp

lemma decode_basic_frame:
  "qmi_decode_basic_elem dst d src s n sz = Some (rc, r) \<Longrightarrow> frame {d ..< d + unat n * unat sz} dst r"
  by (auto simp: qmi_decode_basic_elem_def copy_elems_frame)

lemma string_copy_frame:
  assumes "\<not> m < n" and c: "qmi_decode_basic_elem dst d src s n 1 = Some (k, o1)"
    and p: "mem_put o1 (d + unat n) [0] = Some r"
  shows "frame {d ..< d + unat m + 1} dst r"
proof -
  have n: "unat n \<le> unat m" using assms(1) by (simp add: word_less_nat_alt)
  have "frame {d ..< d + unat m + 1} dst o1"
    by (rule frame_mono [OF decode_basic_frame [OF c]]) (use n in auto)
  moreover have "frame {d ..< d + unat m + 1} o1 r"
    by (rule frame_mono [OF mem_put_frame [OF p]]) (use n in auto)
  ultimately show ?thesis by (rule frame_trans)
qed

lemma decode_string_frame:
  assumes "qmi_decode_string_elem be e dst d src s l level = Some (rc, r)" "elem_size e = 1"
  shows "frame {d ..< d + unat (elem_len e) + 1} dst r"
proof -
  have "r = dst \<or> (\<exists>n s' k o1. \<not> elem_len e < n \<and> qmi_decode_basic_elem dst d src s' n 1 = Some (k, o1) \<and>
      mem_put o1 (d + unat n) [0] = Some r)"
    using assms by (auto simp: qmi_decode_string_elem_def Let_def split: bind_splits if_split_asm) blast+
  then show ?thesis using string_copy_frame by auto
qed

section \<open>The fields of a descriptor\<close>

definition body_area :: "nat \<Rightarrow> qmi_elem_info \<Rightarrow> nat set" where
  "body_area b e =
     (if data_type e = QMI_STRING then {b + offset e ..< b + offset e + unat (elem_len e) + 1}
      else if data_type e = QMI_STRUCT
      then structs_cover (b + offset e) (unat (elem_size e)) (elem_count e) (members e)
      else {b + offset e ..< b + offset e + elem_bytes e})"

definition group_area :: "nat \<Rightarrow> group \<Rightarrow> nat set" where
  "group_area b g =
     (case g_flag g of None \<Rightarrow> {} | Some f \<Rightarrow> {b + offset f ..< b + offset f + 1}) \<union>
     (case g_len g of None \<Rightarrow> {} | Some f \<Rightarrow> {b + offset f ..< b + offset f + 4}) \<union>
     body_area b (g_body g)"

definition descr_area :: "nat \<Rightarrow> group list \<Rightarrow> nat set" where
  "descr_area b gs = (\<Union>g \<in> set gs. group_area b g)"

lemma structs_cover_mono: "m \<le> n \<Longrightarrow> structs_cover s sz m bs \<subseteq> structs_cover s sz n bs"
proof (induction m arbitrary: n s)
  case (Suc m)
  then obtain k where "n = Suc k" "m \<le> k" by (cases n) auto
  with Suc.IH [of k "s + sz"] show ?case by auto
qed simp

section \<open>Nested structs\<close>

text \<open>A count that passed the check is at most the length of the field.\<close>

lemma dec_count_le: "dec_count e dl = Some n \<Longrightarrow> unat n \<le> elem_count e"
  by (auto simp: dec_count_def elem_count_def word_less_nat_alt split: qmi_array_type.splits if_splits)

lemma dec_elem_basic_frame:
  assumes "dec_elem be inb base level e l st = Some (Inr st')" "basic_type (data_type e)" "unat (de_dlen st) \<le> elem_count e"
  shows "frame (member_cover base e) (de_out st) (de_out st')"
proof -
  obtain rc o1 where o1: "qmi_decode_basic_elem (de_out st) (base + offset e) inb (de_pos st) (de_dlen st) (elem_size e) = Some (rc, o1)"
    "update_decode rc (st\<lparr>de_out := o1\<rparr>) = Some st'"
    using assms(1,2) by (auto simp: dec_elem_def split: bind_splits)
  have "unat (de_dlen st) * unat (elem_size e) \<le> elem_bytes e" using assms(3) by (simp add: elem_bytes_def)
  then show ?thesis
    using frame_mono [OF decode_basic_frame [OF o1(1)], of "member_cover base e"] update_decode_out [OF o1(2)]
    by (auto simp: member_cover_def)
qed

lemma dec_prepare_member:
  assumes "dec_prepare be inb base (x # t) len st = Some r" "wf_member x"
  obtains n where "r = Inr (x, t, len, st\<lparr>de_dlen := n\<rparr>)" "unat n \<le> elem_count x"
proof -
  obtain n where n: "dec_count x (de_dlen st) = Some n" "unat n = elem_count x"
    using dec_count_plain [of x "de_dlen st"] assms(2) by (auto simp: wf_member_def)
  then have "r = Inr (x, t, len, st\<lparr>de_dlen := n\<rparr>)"
    using assms wf_member_not [OF assms(2)] by (simp add: dec_prepare_def dec_flag_def dec_data_len_def)
  with n(2) show thesis using that by auto
qed

lemma dec_members_frame:
  assumes "\<forall>x \<in> set xs. wf_member x" "data_type z = QMI_EOTI" "level \<noteq> 1"
    and "dec_loop be inb base in_len level ei (xs @ [z]) st = Some (rc, r)"
  shows "frame (\<Union>x \<in> set xs. member_cover base x) (de_out st) r"
  using assms(1,4)
proof (induction xs arbitrary: st)
  case Nil
  from Nil.prems(2) show ?case
    by (cases rule: dec_loop_cases) (use assms(2,3) in \<open>auto simp: dec_start_def\<close>)
next
  case (Cons x xs)
  have x: "wf_member x" "data_type x \<noteq> QMI_EOTI" using Cons.prems(1) wf_member_not by auto
  have start: "dec_start inb in_len level ei ((x # xs) @ [z]) st =
      Some (Dec_Elem (x # xs @ [z]) (in_len - de_bytes st) st)"
    using x(2) assms(3) by (simp add: dec_start_def)
  let ?C = "\<Union>x \<in> set (x # xs). member_cover base x"
  from Cons.prems(2) show ?case
  proof (cases rule: dec_loop_cases)
    case (refuse t l st1)
    then show ?thesis using start by (auto elim: dec_prepare_member [OF _ x(1)])
  next
    case (structs t l st1 e es l' st2 rc' r')
    then show ?thesis using start wf_member_not [OF x(1)] by (auto elim: dec_prepare_member [OF _ x(1)])
  next
    case (elem t l st1 e es l' st2 res)
    from elem(2) start have prep: "dec_prepare be inb base (x # xs @ [z]) l st = Some (Inr (e, es, l', st2))"
      using elem(3) by simp
    obtain n where st2: "e = x" "es = xs @ [z]" "st2 = st\<lparr>de_dlen := n\<rparr>" "unat n \<le> elem_count x"
      by (rule dec_prepare_member [OF prep x(1)]) blast
    have "res \<noteq> Inl y" for y using elem(5) x(1) st2(1) by (auto simp: dec_elem_def wf_member_def split: bind_splits)
    then obtain st3 where st3: "res = Inr st3" "dec_loop be inb base in_len level ei (xs @ [z]) st3 = Some (rc, r)"
      using elem(6) st2(2) by auto
    have "frame (member_cover base x) (de_out st) (de_out st3)"
      using dec_elem_basic_frame [OF elem(5) [unfolded st3(1)]] x(1) st2 by (simp add: wf_member_def)
    then have "frame ?C (de_out st) (de_out st3)" by (rule frame_mono) auto
    moreover have "frame ?C (de_out st3) r" by (rule frame_mono [OF Cons.IH [OF _ st3(2)]]) (use Cons.prems in auto)
    ultimately show ?thesis by (rule frame_trans)
  qed (use start in auto)
qed

lemma dec_structs_frame:
  assumes "\<forall>x \<in> set xs. wf_member x" "data_type z = QMI_EOTI" "level \<noteq> 1"
    and "dec_structs be inb tlv_len level (Some (xs @ [z])) sz n out d p bytes = Some (rc, r)"
  shows "frame (structs_cover d sz n xs) out r"
  using assms(4)
proof (induction n arbitrary: out d p bytes)
  case 0
  then show ?case by simp
next
  case (Suc n)
  let ?C = "structs_cover d sz (Suc n) xs"
  from Suc.prems show ?case
  proof (cases rule: dec_structs_cases)
    case (step a rc' r')
    have "frame (\<Union>x \<in> set xs. member_cover d x) out r'"
      using dec_members_frame [OF assms(1-3), of be inb d _ _ _ rc' r'] step(3,4) by fastforce
    then have f: "frame ?C out r'" by (rule frame_mono) auto
    from step(5) show ?thesis
    proof
      assume "rc' < 0 \<and> rc = rc' \<and> r = r'"
      with f show ?thesis by simp
    next
      assume *: "\<not> rc' < 0 \<and> int32 (bytes + rc') = Some (bytes + rc') \<and>
        dec_structs be inb tlv_len level (Some (xs @ [z])) sz (Suc n - 1) r' (d + sz) (p + nat rc') (bytes + rc') = Some (rc, r)"
      then have "dec_structs be inb tlv_len level (Some (xs @ [z])) sz n r' (d + sz) (p + nat rc') (bytes + rc') = Some (rc, r)"
        by (simp del: dec_structs.simps)
      then have "frame (structs_cover (d + sz) sz n xs) r' r" by (rule Suc.IH)
      then have "frame ?C r' r" by (rule frame_mono) auto
      with f show ?thesis by (rule frame_trans)
    qed
  qed simp
qed

section \<open>Whole messages\<close>

text \<open>Where the search for a type ends: at the first element of a group, or nowhere.\<close>

lemma find_ei_group:
  assumes wf: "wf_descr gs z" and f: "find_ei (descr gs z) ty = Some (Some t)"
  shows "\<exists>g rest. g \<in> set gs \<and> t = g_elems g @ rest"
  using f wf unfolding wf_descr_def
proof (induction gs)
  case Nil
  then show ?case by simp
next
  case (Cons g gs)
  then have wfg: "wf_group g" by simp
  show ?case
  proof (cases "ucast ty = g_type g")
    case True
    obtain x xs where x: "g_elems g = x # xs" by (cases "g_elems g") (auto simp: g_elems_def)
    with wfg have "tlv_type x = g_type g" "data_type x \<noteq> QMI_EOTI"
      using g_elems_type [OF wfg, of x] g_elems_no_end [OF wfg, of x] by auto
    with Cons.prems(1) True x show ?thesis by (intro exI [of _ g] exI [of _ "descr gs z"]) simp
  next
    case False
    have "\<forall>x \<in> set (g_elems g). data_type x \<noteq> QMI_EOTI \<and> tlv_type x \<noteq> ucast ty"
      using g_elems_type [OF wfg] g_elems_no_end [OF wfg] False by metis
    then have "find_ei (descr (g # gs) z) ty = find_ei (descr gs z) ty" by (simp add: find_ei_skip)
    with Cons show ?thesis by auto
  qed
qed

lemma dec_flag_group:
  assumes "wf_group g" "dec_flag base (g_elems g @ rest) st = Some (t, st')"
  shows "t = opt_list (g_len g) @ g_body g # rest" "frame (group_area base g) (de_out st) (de_out st')"
proof -
  note b = wf_body_not [of "g_len g \<noteq> None" "g_body g"]
  have wfb: "wf_body (g_len g \<noteq> None) (g_body g)" using assms(1) by (simp add: wf_group_def)
  show "t = opt_list (g_len g) @ g_body g # rest"
    using assms b [OF wfb]
    by (cases "g_flag g"; cases "g_len g") (auto simp: dec_flag_def g_elems_def wf_group_def split: bind_splits)
  show "frame (group_area base g) (de_out st) (de_out st')"
  proof (cases "g_flag g")
    case None
    then have "st' = st" using assms b [OF wfb] by (cases "g_len g") (auto simp: dec_flag_def g_elems_def wf_group_def)
    then show ?thesis by simp
  next
    case (Some f)
    then obtain o1 where "mem_put (de_out st) (base + offset f) [1] = Some o1" "de_out st' = o1"
      using assms by (auto simp: dec_flag_def g_elems_def wf_group_def split: bind_splits)
    with frame_mono [OF mem_put_frame, of _ _ _ _ "group_area base g"] Some show ?thesis
      by (simp add: group_area_def)
  qed
qed

lemma dec_len_group:
  assumes "wf_group g" "dec_data_len be inb base (opt_list (g_len g) @ g_body g # rest) len st = Some (t, len', st')"
  shows "t = g_body g # rest" "frame (group_area base g) (de_out st) (de_out st')"
proof -
  have wfb: "wf_body (g_len g \<noteq> None) (g_body g)" using assms(1) by (simp add: wf_group_def)
  show "t = g_body g # rest"
    using assms wf_body_not [OF wfb]
    by (cases "g_len g") (auto simp: dec_data_len_def Let_def wf_group_def split: bind_splits)
  show "frame (group_area base g) (de_out st) (de_out st')"
  proof (cases "g_len g")
    case None
    then have "st' = st" using assms wf_body_not [OF wfb] by (auto simp: dec_data_len_def)
    then show ?thesis by simp
  next
    case (Some f)
    then obtain w where "mem_put (de_out st) (base + offset f) (mem_bytes be w) = Some (de_out st')"
      using assms by (auto simp: dec_data_len_def Let_def wf_group_def split: bind_splits dest!: update_decode_out)
    from mem_put_frame [OF this] show ?thesis
      by (rule frame_mono) (auto simp: group_area_def Some mem_bytes_def le_bytes_def)
  qed
qed

lemma dec_prepare_group:
  assumes wf: "wf_group g" and p: "dec_prepare be inb base (g_elems g @ rest) len st = Some q"
  shows "\<And>rc r. q = Inl (rc, r) \<Longrightarrow> frame (group_area base g) (de_out st) r"
    and "\<And>e es l st'. q = Inr (e, es, l, st') \<Longrightarrow> e = g_body g \<and> unat (de_dlen st') \<le> elem_count e \<and>
      frame (group_area base g) (de_out st) (de_out st')"
proof -
  obtain t1 s1 where s1: "dec_flag base (g_elems g @ rest) st = Some (t1, s1)"
    using p by (auto simp: dec_prepare_def split: bind_splits)
  note f = dec_flag_group [OF wf s1]
  obtain t2 l2 s2 where s2: "dec_data_len be inb base (opt_list (g_len g) @ g_body g # rest) len s1 = Some (t2, l2, s2)"
    using p s1 f(1) by (auto simp: dec_prepare_def split: bind_splits)
  note d = dec_len_group [OF wf s2]
  have fr: "frame (group_area base g) (de_out st) (de_out s2)" by (rule frame_trans [OF f(2) d(2)])
  show "frame (group_area base g) (de_out st) r" if "q = Inl (rc, r)" for rc r
    using p s1 f(1) s2 d(1) that fr by (auto simp: dec_prepare_def split: option.splits)
  show "e = g_body g \<and> unat (de_dlen st') \<le> elem_count e \<and> frame (group_area base g) (de_out st) (de_out st')"
    if "q = Inr (e, es, l, st')" for e es l st'
    using p s1 f(1) s2 d(1) that fr by (auto simp: dec_prepare_def split: option.splits dest!: dec_count_le)
qed

text \<open>The element of a group: a value, an array, a string or an array of structs.\<close>

lemma dec_elem_group:
  assumes wf: "wf_group g" and e: "dec_elem be inb base level (g_body g) l st = Some res"
    and n: "unat (de_dlen st) \<le> elem_count (g_body g)" and ns: "data_type (g_body g) \<noteq> QMI_STRUCT"
  shows "\<And>rc r. res = Inl (rc, r) \<Longrightarrow> frame (group_area base g) (de_out st) r"
    and "\<And>st'. res = Inr st' \<Longrightarrow> frame (group_area base g) (de_out st) (de_out st')"
proof -
  let ?e = "g_body g"
  have wfb: "wf_body (g_len g \<noteq> None) ?e" using wf by (simp add: wf_group_def)
  have area: "body_area base ?e \<subseteq> group_area base g" by (auto simp: group_area_def)
  consider (basic) "basic_type (data_type ?e)" | (string) "data_type ?e = QMI_STRING" "elem_size ?e = 1"
    using wfb ns by (auto simp: wf_body_def)
  then have *: "(\<forall>rc r. res = Inl (rc, r) \<longrightarrow> frame (body_area base ?e) (de_out st) r) \<and>
      (\<forall>st'. res = Inr st' \<longrightarrow> frame (body_area base ?e) (de_out st) (de_out st'))"
  proof cases
    case basic
    then have "body_area base ?e = member_cover base ?e" using ns by (auto simp: body_area_def member_cover_def)
    moreover have "res \<noteq> Inl y" for y using e basic by (auto simp: dec_elem_def split: bind_splits)
    ultimately show ?thesis using dec_elem_basic_frame basic e n by auto
  next
    case string
    then show ?thesis using e
      by (auto simp: dec_elem_def body_area_def split: bind_splits if_splits
          dest!: decode_string_frame [OF _ string(2)] update_decode_out)
  qed
  show "frame (group_area base g) (de_out st) r" if "res = Inl (rc, r)" for rc r
    using * that frame_mono [OF _ area] by blast
  show "frame (group_area base g) (de_out st) (de_out st')" if "res = Inr st'" for st'
    using * that frame_mono [OF _ area] by blast
qed

lemma dec_structs_group:
  assumes wf: "wf_group g" and st: "data_type (g_body g) = QMI_STRUCT" and n: "n \<le> elem_count (g_body g)" and l: "level \<noteq> 1"
    and d: "dec_structs be inb tlv_len level (ei_array (g_body g)) (unat (elem_size (g_body g))) n out
      (base + offset (g_body g)) p bytes = Some (rc, r)"
  shows "frame (group_area base g) out r"
proof -
  let ?e = "g_body g"
  obtain z where z: "ei_array ?e = Some (members ?e @ [z])" "data_type z = QMI_EOTI" "\<forall>x \<in> set (members ?e). wf_member x"
    using wf st by (auto simp: wf_group_def wf_body_def)
  have "frame (structs_cover (base + offset ?e) (unat (elem_size ?e)) n (members ?e)) out r"
    by (rule dec_structs_frame [OF z(3,2) l d [unfolded z(1)]])
  then show ?thesis
    by (rule frame_mono) (use structs_cover_mono [OF n] st in \<open>auto simp: group_area_def body_area_def\<close>)
qed

text \<open>One iteration of the loop at the top level.\<close>

lemma dec_start_group:
  assumes "wf_descr gs z" "dec_start inb in_len 1 (descr gs z) temp st = Some (Dec_Elem t l st')"
  obtains g rest where "g \<in> set gs" "wf_group g" "t = g_elems g @ rest" "de_out st' = de_out st"
    "group_area b g \<subseteq> descr_area b gs"
proof -
  obtain ty where "find_ei (descr gs z) ty = Some (Some t)"
    using assms(2) by (auto simp: dec_start_def Let_def split: bind_splits option.splits if_splits)
  from find_ei_group [OF assms(1) this] obtain g rest where g: "g \<in> set gs" "t = g_elems g @ rest" by blast
  show thesis
    by (rule that [OF g(1) _ g(2) dec_start_out(2) [OF assms(2)]])
      (use assms(1) g(1) in \<open>auto simp: wf_descr_def descr_area_def\<close>)
qed

lemma dec_refuse_area:
  assumes "wf_descr gs z" "dec_start inb in_len 1 (descr gs z) temp st = Some (Dec_Elem t l st1)"
    and "dec_prepare be inb base t l st1 = Some (Inl (rc, r))"
  shows "frame (descr_area base gs) (de_out st) r"
proof (rule dec_start_group [OF assms(1,2), of base])
  fix g rest
  assume g: "wf_group g" "t = g_elems g @ rest" "de_out st1 = de_out st" "group_area base g \<subseteq> descr_area base gs"
  from dec_prepare_group(1) [OF g(1) assms(3) [unfolded g(2)] refl] g(3,4) show ?thesis
    using frame_mono by auto
qed

lemma dec_structs_area:
  assumes "wf_descr gs z" "dec_start inb in_len 1 (descr gs z) temp st = Some (Dec_Elem t l st1)"
    and "dec_prepare be inb base t l st1 = Some (Inr (e, es, l', st2))" "data_type e = QMI_STRUCT"
    and "dec_structs be inb l' (Suc 1) (ei_array e) (unat (elem_size e)) (unat (de_dlen st2)) (de_out st2)
      (base + offset e) (de_pos st2) 0 = Some (rc, r)"
  shows "frame (descr_area base gs) (de_out st) r"
proof (rule dec_start_group [OF assms(1,2), of base])
  fix g rest
  assume g: "wf_group g" "t = g_elems g @ rest" "de_out st1 = de_out st" "group_area base g \<subseteq> descr_area base gs"
  have p: "e = g_body g" "unat (de_dlen st2) \<le> elem_count e" "frame (group_area base g) (de_out st) (de_out st2)"
    using dec_prepare_group(2) [OF g(1) assms(3) [unfolded g(2)] refl] g(3) by auto
  have "frame (group_area base g) (de_out st2) r"
    by (rule dec_structs_group [OF g(1) _ _ _ assms(5) [unfolded p(1)]]) (use assms(4) p in auto)
  from frame_mono [OF frame_trans [OF p(3) this] g(4)] show ?thesis .
qed

lemma dec_elem_area:
  assumes "wf_descr gs z" "dec_start inb in_len 1 (descr gs z) temp st = Some (Dec_Elem t l st1)"
    and "dec_prepare be inb base t l st1 = Some (Inr (e, es, l', st2))" "data_type e \<noteq> QMI_STRUCT"
    and "dec_elem be inb base 1 e l' st2 = Some res"
  shows "res = Inl (rc, r) \<Longrightarrow> frame (descr_area base gs) (de_out st) r"
    and "res = Inr st3 \<Longrightarrow> frame (descr_area base gs) (de_out st) (de_out st3)"
proof (atomize (full), rule dec_start_group [OF assms(1,2), of base], intro conjI impI)
  fix g rest
  assume g: "wf_group g" "t = g_elems g @ rest" "de_out st1 = de_out st" "group_area base g \<subseteq> descr_area base gs"
  have p: "e = g_body g" "unat (de_dlen st2) \<le> elem_count e" "frame (group_area base g) (de_out st) (de_out st2)"
    using dec_prepare_group(2) [OF g(1) assms(3) [unfolded g(2)] refl] g(3) by auto
  note body = dec_elem_group [OF g(1) assms(5) [unfolded p(1)] p(2) [unfolded p(1)] assms(4) [unfolded p(1)]]
  show "frame (descr_area base gs) (de_out st) r" if "res = Inl (rc, r)"
    by (rule frame_mono [OF frame_trans [OF p(3) body(1) [OF that]] g(4)])
  show "frame (descr_area base gs) (de_out st) (de_out st3)" if "res = Inr st3"
    by (rule frame_mono [OF frame_trans [OF p(3) body(2) [OF that]] g(4)])
qed

lemma dec_loop_frame:
  assumes wf: "wf_descr gs z"
  shows "dec_loop be inb base in_len level ei temp st = Some (rc, r) \<Longrightarrow> level = 1 \<Longrightarrow> ei = descr gs z \<Longrightarrow>
      frame (descr_area base gs) (de_out st) r"
    and "dec_structs be inb tlv_len level' arr sz n out d p bytes = Some (rc', r') \<Longrightarrow> True"
proof (induction be inb base in_len level ei temp st and be inb tlv_len level' arr sz n out d p bytes
    arbitrary: rc r and rc' r' rule: dec_loop_dec_structs.induct)
  case (1 be inb base in_len level ei temp st)
  note lev = "1.prems"(2,3)
  from "1.prems"(1) show ?case
  proof (cases rule: dec_loop_cases)
    case (skip st1)
    then show ?thesis using "1.IH"(1) [of _ st1 rc r] lev dec_start_out(1) by auto
  next
    case (refuse t l st1)
    from dec_refuse_area [OF wf refuse(2) [unfolded lev] refuse(3)] show ?thesis .
  next
    case (structs t l st1 e es l' st2 rc' r')
    note f = dec_structs_area [OF wf structs(2) [unfolded lev] structs(3,4) structs(5) [unfolded lev]]
    show ?thesis using structs(6)
    proof
      assume "\<exists>st3. \<not> rc' < 0 \<and> update_decode rc' (st2\<lparr>de_out := r'\<rparr>) = Some st3 \<and>
          dec_loop be inb base in_len level ei es st3 = Some (rc, r)"
      then obtain st3 where st3: "\<not> rc' < 0" "update_decode rc' (st2\<lparr>de_out := r'\<rparr>) = Some st3"
        "dec_loop be inb base in_len level ei es st3 = Some (rc, r)" by blast
      from "1.IH"(3) [OF _ structs(2) refl structs(3) refl refl refl refl structs(4,5) refl st3(1,2,3)] structs(1)
      show ?thesis using lev update_decode_out [OF st3(2)] f frame_trans by auto
    qed (use f in simp)
  next
    case (elem t l st1 e es l' st2 res)
    note f = dec_elem_area [OF wf elem(2) [unfolded lev] elem(3,4) elem(5) [unfolded lev]]
    from elem(6) show ?thesis
    proof
      assume "\<exists>st3. res = Inr st3 \<and> dec_loop be inb base in_len level ei es st3 = Some (rc, r)"
      then obtain st3 where st3: "res = Inr st3" "dec_loop be inb base in_len level ei es st3 = Some (rc, r)" by blast
      have "frame (descr_area base gs) (de_out st3) r"
        using "1.IH"(4) [OF _ elem(2) refl elem(3) refl refl refl refl elem(4,5) st3(1,2)] elem(1) lev by simp
      with f(2) [OF st3(1)] show ?thesis by (rule frame_trans)
    qed (rule f(1))
  qed (use dec_start_out in simp_all)
qed simp

lemma qmi_decode_frame:
  assumes "wf_descr gs z" "qmi_decode be (Some (descr gs z)) out d inb p in_len 1 = Some (rc, out')"
  shows "frame (descr_area d gs) out out'"
proof (cases "in_len = 0")
  case False
  with assms(2) have "dec_loop be inb d in_len 1 (descr gs z) (descr gs z)
      \<lparr>de_out = out, de_pos = p, de_bytes = 0, de_dlen = 0\<rparr> = Some (rc, out')"
    by (simp add: qmi_decode_def del: dec_loop.simps)
  from dec_loop_frame(1) [OF assms(1) this refl refl] show ?thesis by simp
qed (use assms in \<open>simp add: qmi_decode_def\<close>)

end
