(* ===== verification/Qmi_Props.thy ===== *)
theory Qmi_Props
  imports Qmi_Message Qmi_Unknown Qmi_Frame
begin

text \<open>
  The properties of the QMI codec, with a sample message for the witnesses: whole packets through
  \<open>qmi_encode_message\<close>, \<open>qmi_decode_header\<close> and \<open>qmi_decode_message\<close>, TLVs that the descriptor does not know,
  and the inputs on which the code leaves its buffers or refuses its own messages.
\<close>

section \<open>Arrays of different lengths\<close>

lemma stale_length:
  assumes "256 \<le> unat dl"
  shows "256 \<le> unat (mem_word False (blit (mem_bytes False dl) 0 [x]))"
proof -
  have "drop_bit 8 (mem_word False (blit (mem_bytes False dl) 0 [x])) = drop_bit 8 dl"
  proof (rule bit_word_eqI)
    fix i assume "i < LENGTH(32)"
    then consider "i < 8" | "8 \<le> i" "i < 16" | "16 \<le> i" "i < 24" | "24 \<le> i" "i < 32" by fastforce
    then show "bit (drop_bit 8 (mem_word False (blit (mem_bytes False dl) 0 [x]))) i = bit (drop_bit 8 dl) i"
      by cases (auto simp: mem_word_def mem_bytes_def le_bytes_def blit_def bit_simps dest: bit_imp_le_length)
  qed
  from arg_cong [of _ _ unat, OF this]
  have "unat (mem_word False (blit (mem_bytes False dl) 0 [x])) div 256 = unat dl div 256"
    by (simp only: unat_drop_bit_eq) (simp add: drop_bit_eq_div)
  then have "1 \<le> unat (mem_word False (blit (mem_bytes False dl) 0 [x])) div 256"
    using assms by simp
  then show ?thesis by simp
qed

lemma holds_blit: "d + length bs \<le> length mem \<Longrightarrow> holds (blit mem d bs) d bs"
  by (simp add: holds_def)

lemma dec_stale:
  assumes wf: "wf_group h" and ins: "group_in src b h" and pl: "group_plain src b h" "present src b h"
    and f: "g_len h = Some f" "elem_size f = 1" "unat (elem_len (g_body h)) < 256"
    and out: "length (de_out st) = length src" and pos: "de_pos st < length inb" and dl: "256 \<le> unat (de_dlen st)"
  shows "\<exists>out'. dec_prepare False inb b (g_elems h @ rest) len st = Some (Inl (- EINVAL, out'))"
proof -
  obtain o1 where o1: "dec_flag b (g_elems h @ rest) st = Some (opt_list (g_len h) @ g_body h # rest, st\<lparr>de_out := o1\<rparr>)"
    "length o1 = length src"
    using dec_flag_step [OF wf ins pl out, of rest] overlay_length out by fastforce
  let ?st = "st\<lparr>de_out := o1\<rparr>"
  have fl: "data_type f = QMI_DATA_LEN" using wf f(1) by (auto simp: wf_group_def)
  let ?var = "blit (mem_bytes False (de_dlen st)) 0 (slice inb (de_pos st) 1)"
  let ?n = "mem_word False ?var"
  have n: "256 \<le> unat ?n" using stale_length [OF dl] slice_1 [OF pos] by simp
  have dec: "qmi_decode_basic_elem (mem_bytes False (de_dlen st)) 0 inb (de_pos st) 1 1 = Some (1, ?var)"
    using decode_basic_eq [of 1 1 0 "mem_bytes False (de_dlen st)" "de_pos st" inb] pos by simp
  have put: "mem_put o1 (b + offset f) (mem_bytes False ?n) = Some (blit o1 (b + offset f) (mem_bytes False ?n))"
    using pl(1) f(1) o1(2) by (intro mem_put_eq) (auto simp: group_plain_def)
  let ?st' = "st\<lparr>de_out := blit o1 (b + offset f) (mem_bytes False ?n), de_dlen := ?n, de_pos := de_pos st + 1,
      de_bytes := de_bytes st + 1\<rparr>"
  have d: "dec_data_len False inb b (opt_list (g_len h) @ g_body h # rest) len ?st = Some (g_body h # rest, len - 1, ?st')"
    using f fl dec put update_decode_int [of 1] by (simp add: dec_data_len_def Let_def len_size_def)
  have "array_type (g_body h) = VAR_LEN_ARRAY" using wf f(1) by (simp add: wf_group_def wf_body_def)
  then have "dec_count (g_body h) ?n = None" using n f(3) by (simp add: dec_count_def word_less_nat_alt)
  then show ?thesis using o1(1) d by (simp add: dec_prepare_def)
qed

section \<open>A sample message\<close>

text \<open>
  An array with a length field, a nested response, a string, an optional element that is present and
  one that is not; a C struct for it and the bytes of the message.
\<close>

definition sample_groups :: "group list" where
  "sample_groups =
    [Group None (Some (Elem QMI_DATA_LEN 1 1 NO_ARRAY 1 4 None)) (Elem QMI_UNSIGNED_1_BYTE 3 1 VAR_LEN_ARRAY 1 8 None),
     Group None None (Elem QMI_STRUCT 1 4 NO_ARRAY 2 16 (Some qmi_response_type_v01_ei)),
     Group None None (Elem QMI_STRING 4 1 NO_ARRAY 3 11 None),
     Group (Some (Elem QMI_OPT_FLAG 1 1 NO_ARRAY 16 0 None)) None (Elem QMI_UNSIGNED_2_BYTE 1 2 NO_ARRAY 16 2 None),
     Group (Some (Elem QMI_OPT_FLAG 1 1 NO_ARRAY 17 1 None)) None (Elem QMI_UNSIGNED_8_BYTE 1 8 NO_ARRAY 17 2 None)]"

definition sample_end :: qmi_elem_info where
  "sample_end = Elem QMI_EOTI 0 0 NO_ARRAY 0 0 None"

definition sample_struct :: "u8 list" where
  "sample_struct = [1, 0, 52, 18, 2, 0, 0, 0, 7, 8, 9, 104, 105, 0, 0, 0, 1, 0, 3, 0]"

definition sample_message :: "u8 list" where
  "sample_message = [1, 3, 0, 2, 7, 8, 2, 4, 0, 1, 0, 3, 0, 3, 2, 0, 104, 105, 16, 2, 0, 52, 18]"

lemma sample_ok:
  "wf_descr sample_groups sample_end" 
  "\<forall>g \<in> set sample_groups. group_in sample_struct 0 g"
  "message_ok sample_struct 0 sample_groups" "message_plain sample_struct 0 sample_groups"
  "message_bytes sample_struct 0 sample_groups = sample_message"
proof -
  show "wf_descr sample_groups sample_end"
    by (simp add: wf_descr_def sample_groups_def sample_end_def wf_group_def wf_body_def g_type_def elem_bytes_def
        elem_count_def basic_type_def members_def wf_member_def qmi_response_type_v01_ei_def)
  show "\<forall>g \<in> set sample_groups. group_in sample_struct 0 g"
    by (simp add: sample_groups_def group_in_def body_in_def sample_struct_def elem_bytes_def
        elem_count_def members_def qmi_response_type_v01_ei_def)
  show "message_ok sample_struct 0 sample_groups"
    by (simp add: message_ok_def sample_groups_def group_valid_def present_def g_count_def len_value_def sample_struct_def
        c_string_def)
  show "message_plain sample_struct 0 sample_groups"
    by (simp add: message_plain_def counts_fit_def group_plain_def sample_groups_def present_def g_count_def len_value_def
        sample_struct_def slice_def mem_bytes_def le_bytes_def elem_count_def)
  show "message_bytes sample_struct 0 sample_groups = sample_message"
    by (simp add: message_bytes_def sample_groups_def group_bytes_def payload_def present_def g_count_def len_value_def
        sample_struct_def len_bytes_def body_bytes_def slice_def members_def qmi_response_type_v01_ei_def c_string_def
        tlv_header_def g_type_def elem_count_def elem_bytes_def sample_message_def struct_bytes_def)
qed

text \<open>The first two TLVs of the message and the others.\<close>

lemma sample_pieces:
  "pieces_bytes sample_struct 0 (map Inl (take 2 sample_groups)) = [1, 3, 0, 2, 7, 8, 2, 4, 0, 1, 0, 3, 0]"
  "pieces_bytes sample_struct 0 (map Inl (drop 2 sample_groups)) = [3, 2, 0, 104, 105, 16, 2, 0, 52, 18]"
  by (simp_all add: sample_groups_def group_bytes_def payload_def present_def g_count_def len_value_def
      sample_struct_def len_bytes_def body_bytes_def slice_def members_def qmi_response_type_v01_ei_def c_string_def
      tlv_header_def g_type_def elem_count_def elem_bytes_def struct_bytes_def)

definition sample_packet :: qrtr_packet where
  "sample_packet = \<lparr>qp_type = 0, qp_node = 0, qp_port = 0, qp_service = 0, qp_instance = 0, qp_version = 0,
     qp_data = replicate 40 255, qp_data_len = 40\<rparr>"

definition long_groups :: "group list" where
  "long_groups =
    [Group None None (Elem QMI_UNSIGNED_1_BYTE 300 1 STATIC_ARRAY 1 0 None),
     Group None (Some (Elem QMI_DATA_LEN 1 1 NO_ARRAY 2 300 None)) (Elem QMI_UNSIGNED_1_BYTE 3 1 VAR_LEN_ARRAY 2 304 None)]"

section \<open>Properties\<close>

text \<open>Claim C8: On a little-endian host, for descriptors of the reference class (optional flags, length
  fields, values and arrays of the basic types, strings, and structs or arrays of structs of basic
  elements; no strings inside nested structs, for which the code does leave its buffer),
  \<open>qmi_encode_message\<close> on a C struct that fits the descriptor is always defined. A
  buffer below the seven bytes of the header is refused with \<open>-EMSGSIZE\<close>; if all lengths are within the
  limits and the message fits, the packet holds exactly the header and the TLVs of the present elements
  in the order of the descriptor and its length is returned; otherwise the result is \<open>-EINVAL\<close> and only
  bytes of the buffer behind the header have changed.\<close>
theorem qmi_encode_message_result:
  assumes "wf_descr gs z" "\<forall>g \<in> set gs. group_in src 0 g" "length src < 2 ^ 31"
    and "qp_data_len pkt \<le> length (qp_data pkt)" "qp_data_len pkt < 2 ^ 31"
  shows "if qp_data_len pkt < 7
      then qmi_encode_message False pkt type msg_id txn_id (Some src) (Some (descr gs z)) = Some (- EMSGSIZE, pkt)
    else if message_ok src 0 gs \<and> 7 + length (message_bytes src 0 gs) \<le> qp_data_len pkt
      then qmi_encode_message False pkt type msg_id txn_id (Some src) (Some (descr gs z)) =
        Some (7 + int (length (message_bytes src 0 gs)), message_packet pkt type msg_id txn_id (message_bytes src 0 gs))
    else \<exists>mem. qmi_encode_message False pkt type msg_id txn_id (Some src) (Some (descr gs z)) =
        Some (- EINVAL, pkt\<lparr>qp_data := mem\<rparr>) \<and> inside (qp_data pkt) 7 (qp_data_len pkt - 7) mem"
  using assms by (rule encode_message_cases)

theorem qmi_encode_message_result_witness:
  "qmi_encode_message False sample_packet 2 32 77 (Some sample_struct) (Some (descr sample_groups sample_end)) =
    Some (30, message_packet sample_packet 2 32 77 sample_message)"
  using qmi_encode_message_result [OF sample_ok(1,2), of sample_packet 2 32 77] sample_ok(3,5)
  by (simp add: sample_struct_def sample_packet_def sample_message_def)

text \<open>Claim C9: a canonical C struct that is encoded into a packet comes back from the packet:
  \<open>qmi_decode_header\<close> accepts the packet and returns the message id, and \<open>qmi_decode_message\<close> consumes
  the whole message, returns the transaction id and overlays the output struct with the input struct
  exactly at the bytes of the present elements (flags, lengths, values and strings with their zero).\<close>
theorem qmi_message_roundtrip:
  assumes "wf_descr gs z" "\<forall>g \<in> set gs. group_in src 0 g" "length src < 2 ^ 31"
    and "qp_data_len pkt \<le> length (qp_data pkt)" "qp_data_len pkt < 2 ^ 31"
    and "message_ok src 0 gs" "message_plain src 0 gs" "length (message_bytes src 0 gs) < 2 ^ 16"
    and "7 + length (message_bytes src 0 gs) \<le> qp_data_len pkt" "length out = length src"
    and "0 \<le> type" "type < 2 ^ 8" "0 \<le> msg_id" "msg_id < 2 ^ 16"
  shows "\<exists>pkt' out'. qmi_encode_message False pkt type msg_id txn_id (Some src) (Some (descr gs z)) =
      Some (int (qp_data_len pkt'), pkt') \<and>
    qmi_decode_header False pkt' = Some (Inr (word_of_int msg_id)) \<and>
    qmi_decode_message False (Some out) (Some (qp_data pkt')) (qp_data_len pkt') type msg_id (Some (descr gs z)) =
      Some (int (length (message_bytes src 0 gs)), Some out', Some (word_of_int txn_id)) \<and>
    overlay src (message_cover src 0 gs) out out'"
  using assms by (rule message_roundtrip)

theorem qmi_message_roundtrip_witness:
  "\<exists>pkt' out'. qmi_encode_message False sample_packet 2 32 77 (Some sample_struct)
        (Some (descr sample_groups sample_end)) = Some (int (qp_data_len pkt'), pkt') \<and>
      qmi_decode_header False pkt' = Some (Inr 32) \<and>
      qmi_decode_message False (Some (replicate 20 0)) (Some (qp_data pkt')) (qp_data_len pkt') 2 32
        (Some (descr sample_groups sample_end)) = Some (23, Some out', Some 77) \<and>
      overlay sample_struct (message_cover sample_struct 0 sample_groups) (replicate 20 0) out'"
  using qmi_message_roundtrip [OF sample_ok(1,2), of sample_packet "replicate 20 0" 2 32 77] sample_ok(3-5)
  by (simp add: sample_struct_def sample_packet_def sample_message_def)

text \<open>Claim C11: Take a message of any TLVs, in any order: TLVs of elements of the descriptor and, at any
  place between them, TLVs of types that the descriptor does not have. If all the unknown types are
  optional (16 or more), \<open>qmi_decode\<close> skips them, consumes the whole message and overlays the output
  struct with the known elements as if the others were not there. If there is a mandatory one among
  them, the message is refused with \<open>-EINVAL\<close> at the first of these, and exactly the known elements
  before it have been written. (Little-endian host, descriptors of the reference class, and elements
  of a C struct as the encoder would send them.)\<close>
theorem unknown_tlv:
  assumes "wf_descr gs z" "set (groups_of ps) \<subseteq> set gs" "foreign gs ps" "\<forall>g \<in> set (groups_of ps). group_in src b g"
    and "message_ok src b (groups_of ps)" "message_plain src b (groups_of ps)"
    and "length out = length src" "length src < 2 ^ 31"
    and "holds inb p (pieces_bytes src b ps)" "unat in_len = length (pieces_bytes src b ps)" "unat in_len < 2 ^ 16"
  shows "\<exists>out'. qmi_decode False (Some (descr gs z)) out b inb p in_len 1 =
      Some (if \<forall>q \<in> set ps. tolerated q then int (unat in_len) else - EINVAL, out') \<and>
    overlay src (message_cover src b (groups_of (takeWhile tolerated ps))) out out'"
  using assms by (rule qmi_decode_pieces)

theorem unknown_tlv_witness:
  "(\<exists>out'. qmi_decode False (Some (descr sample_groups sample_end)) (replicate 20 0) 0
      [99, 2, 0, 1, 1, 1, 3, 0, 2, 7, 8, 2, 4, 0, 1, 0, 3, 0, 200, 1, 0, 5, 3, 2, 0, 104, 105, 16, 2, 0, 52, 18] 0 32 1 =
      Some (32, out') \<and>
    overlay sample_struct (message_cover sample_struct 0 sample_groups) (replicate 20 0) out') \<and>
   (\<exists>out'. qmi_decode False (Some (descr sample_groups sample_end)) (replicate 20 0) 0
      [99, 2, 0, 1, 1, 1, 3, 0, 2, 7, 8, 2, 4, 0, 1, 0, 3, 0, 9, 1, 0, 5, 3, 2, 0, 104, 105, 16, 2, 0, 52, 18] 0 32 1 =
      Some (- EINVAL, out') \<and>
    overlay sample_struct (message_cover sample_struct 0 (take 2 sample_groups)) (replicate 20 0) out')"
proof -
  let ?ps = "\<lambda>ty :: u8. Inr (99, [1, 1]) # map Inl (take 2 sample_groups) @ Inr (ty, [5]) # map Inl (drop 2 sample_groups)"
  let ?bs = "\<lambda>ty :: u8. [99, 2, 0, 1, 1, 1, 3, 0, 2, 7, 8, 2, 4, 0, 1, 0, 3, 0, ty, 1, 0, 5, 3, 2, 0, 104, 105, 16, 2, 0, 52, 18]"
  have gr: "groups_of (?ps ty) = sample_groups" for ty by simp
  have bytes: "pieces_bytes sample_struct 0 (?ps ty) = ?bs ty" for ty
    using sample_ok(5) sample_pieces by (simp add: tlv_header_def)
  have un: "foreign sample_groups (?ps ty)" if "ty \<in> {9, 200}" for ty
    using that by (auto simp: foreign_def sample_groups_def g_type_def)
  have hold: "holds (?bs ty) 0 (pieces_bytes sample_struct 0 (?ps ty))" for ty
    unfolding bytes by (simp add: holds_def slice_def)
  have "\<exists>out'. qmi_decode False (Some (descr sample_groups sample_end)) (replicate 20 0) 0 (?bs ty) 0 32 1 =
      Some (if \<forall>q \<in> set (?ps ty). tolerated q then int (unat (32 :: u32)) else - EINVAL, out') \<and>
    overlay sample_struct (message_cover sample_struct 0 (groups_of (takeWhile tolerated (?ps ty)))) (replicate 20 0) out'"
    if "ty \<in> {9, 200}" for ty
    by (rule unknown_tlv [OF sample_ok(1) _ un [OF that] _ _ _ _ _ hold])
      (unfold gr bytes, use sample_ok in \<open>simp_all add: sample_struct_def\<close>)
  note dec = this
  have all: "(\<forall>q \<in> set (?ps ty). tolerated q) \<longleftrightarrow> 16 \<le> ty" for ty by auto
  have known: "groups_of (takeWhile tolerated (?ps ty)) = (if 16 \<le> ty then sample_groups else take 2 sample_groups)" for ty
    by (simp add: takeWhile_known)
  have u: "unat (32 :: u32) = 32" by simp
  show ?thesis using dec [of 200, unfolded all known u] dec [of 9, unfolded all known u] by simp
qed

text \<open>Claim C12: Whatever bytes a message consists of, on hosts of either byte order,
  \<open>qmi_decode_message\<close> writes only to the fields that the descriptor names: the byte of a flag, the four
  bytes of a length, a value, an array or an array of structs at its full length, and a string of
  \<open>elem_len\<close> bytes with one more byte for its zero. If it returns, with success or with an error, the
  memory of the C struct has its size and all its other bytes as before, so no count, string length or
  order of TLVs in a message reaches them. (Descriptors of the reference class.)\<close>
theorem qmi_decode_confined:
  assumes "wf_descr gs z"
    and "qmi_decode_message be (Some out) (Some bs) data_len type mid (Some (descr gs z)) = Some (rc, Some out', txn)"
  shows "frame (descr_area 0 gs) out out'"
proof (cases "out' = out")
  case False
  then obtain rc' where "qmi_decode be (Some (descr gs z)) out 0 bs 7 (ucast (sub7 data_len)) 1 = Some (rc', out')"
    using assms(2) by (auto simp: qmi_decode_message_def split: bind_splits if_split_asm)
  from qmi_decode_frame [OF assms(1) this] show ?thesis .
qed simp

text \<open>A message whose string is too long for its field, behind an array of two bytes.\<close>

theorem qmi_decode_confined_witness:
  "qmi_decode_message False (Some (replicate 24 255))
      (Some [2, 77, 0, 32, 0, 14, 0, 1, 3, 0, 2, 7, 8, 3, 5, 0, 65, 66, 67, 68, 69]) 21 2 32
      (Some (descr sample_groups sample_end)) =
    Some (- EINVAL, Some [255, 255, 255, 255, 2, 0, 0, 0, 7, 8, 255, 255, 255, 255, 255, 255,
      255, 255, 255, 255, 255, 255, 255, 255], Some 77) \<and>
    frame (descr_area 0 sample_groups) (replicate 24 (255 :: u8)) [255, 255, 255, 255, 2, 0, 0, 0, 7, 8, 255, 255, 255, 255, 255, 255,
      255, 255, 255, 255, 255, 255, 255, 255]"
proof -
  have dec: "qmi_decode_message False (Some (replicate 24 255))
      (Some [2, 77, 0, 32, 0, 14, 0, 1, 3, 0, 2, 7, 8, 3, 5, 0, 65, 66, 67, 68, 69]) 21 2 32
      (Some (descr sample_groups sample_end)) = Some (- EINVAL, Some [255, 255, 255, 255, 2, 0, 0, 0, 7, 8, 255, 255, 255, 255, 255, 255,
      255, 255, 255, 255, 255, 255, 255, 255], Some 77)"
    by code_simp
  with qmi_decode_confined [OF sample_ok(1) dec] show ?thesis by blast
qed

lemma nested_string_elem:
  assumes n_def: "n = length (c_string src (o1 + o2))"
    and nul: "0 \<in> set (drop (o1 + o2) src)" and n: "n \<le> unat max_len" "unat max_len \<le> 256" "n + 1 \<le> unat out_len"
    and room: "d + n + 4 \<le> length mem"
  shows "qmi_encode_string_elem False (Elem QMI_STRING max_len 1 NO_ARRAY ty' o2 None) mem (d + 3) src (o1 + o2) out_len 2 =
    Some (int (1 + n), blit mem (d + 3) (of_nat n # c_string src (o1 + o2)))"
proof -
  let ?C = "c_string src (o1 + o2)"
  let ?N = "of_nat n :: u32"
  note ce = c_string_end [OF nul, unfolded n_def [symmetric]]
  have n256: "n \<le> 256" using n(1,2) by simp
  have N: "unat ?N = n" "unat (?N + 1) = n + 1"
    using n256 unat32 [of n] unat32 [of "n + 1"] by (simp_all add: add.commute)
  have sl: "strlen_at src (o1 + o2) = Some n" using strlen_at_eq [OF nul] by (simp add: n_def)
  have one: "string_len_size max_len = 1" using n(2) by (simp add: string_len_size_def word_le_nat_alt)
  let ?m1 = "blit mem (d + 3) [of_nat n]"
  have c0: "slice (mem_bytes False ?N) 0 1 = [of_nat n]"
    using n256 by (simp add: slice_def mem_bytes_def le_bytes_def unsigned_of_nat take_bit_nat_eq_self)
  have lenb: "qmi_encode_basic_elem mem (d + 3) (mem_bytes False ?N) 0 1 1 = Some (1, ?m1)"
    using encode_basic_eq [of 1 1 "d + 3" mem 0 "mem_bytes False ?N"] room c0 by simp
  have m1: "length ?m1 = length mem" using room by simp
  have chars: "qmi_encode_basic_elem ?m1 (4 + d) src (o1 + o2) ?N 1 = Some (int n, blit ?m1 (4 + d) ?C)"
    using encode_basic_eq [of ?N 1 "4 + d" ?m1 "o1 + o2" src] N(1) n256 ce m1 room by simp
  have m2: "blit ?m1 (4 + d) ?C = blit mem (d + 3) (of_nat n # ?C)"
    using blit_append [of "d + 3" "[of_nat n]" ?C mem] room by (simp add: n_def add.commute)
  show ?thesis
    using sl one lenb chars m2 N n(1,3) n256
    by (simp add: qmi_encode_string_elem_def Let_def advance_def word_less_nat_alt not_less)
qed

text \<open>Claim C14: the room check for a string inside a nested struct leaves out the three bytes of the
  TLV header. A string of \<open>n\<close> bytes is accepted with \<open>n + 1\<close> bytes of room, and the code then writes
  \<open>n + 4\<close> bytes, up to three behind the end of the buffer, and returns a length above its size.\<close>
theorem nested_string_overflow:
  assumes n_def: "n = length (c_string src (o1 + o2))"
    and "0 \<in> set (drop (o1 + o2) src)" "n \<le> unat max_len" "unat max_len \<le> 256"
    and "n + 1 \<le> unat out_len" "unat out_len < n + 4" "d + n + 4 \<le> length mem"
    and "data_type z = QMI_EOTI" "data_type z' = QMI_EOTI"
  shows "qmi_encode False (Some [Elem QMI_STRUCT k sz NO_ARRAY ty o1
      (Some [Elem QMI_STRING max_len 1 NO_ARRAY ty' o2 None, z]), z']) mem d src 0 out_len 1 =
    Some (int (n + 4), blit mem d (tlv_header ty (n + 1) @ of_nat n # c_string src (o1 + o2)))"
proof -
  let ?e = "Elem QMI_STRING max_len 1 NO_ARRAY ty' o2 None"
  let ?C = "c_string src (o1 + o2)"
  have n256: "n \<le> 256" using assms(3,4) by simp
  note str = nested_string_elem [OF assms(1-5,7)]
  have s1: "sint (1 + of_nat n :: u32) = 1 + int n" using sint32 [of "1 + n"] n256 by simp
  have inner: "enc_loop False src o1 out_len 2 [?e, z] (enc_init 2 mem (d + 3)) =
      Some (int (1 + n), blit mem (d + 3) (of_nat n # ?C))"
    using str assms(8) n256 s1 update_encode_int [of "1 + n"]
    by (simp add: enc_count_def enc_elem_def enc_init_def enc_tlv_def numeral_2_eq_2 del: update_encode_int)
  let ?p = "of_nat n # ?C"
  have tlv: "enc_tlv 1 ty (en_mid mem d 0 ?p 1\<lparr>en_tlv := True\<rparr>) = Some (en_done mem d 0 ty ?p 1)"
    using assms(7) by (intro enc_tlv_mid) (simp add: n_def)
  have st: "en_mid mem d 0 ?p 1\<lparr>en_tlv := True\<rparr> = (enc_init 1 mem d)\<lparr>en_dlen := 1, en_mem := blit mem (d + 3) ?p,
      en_dst := d + 3 + (1 + n), en_bytes := of_nat (1 + n), en_tlv_len := of_nat (1 + n), en_tlv := True\<rparr>"
    by (simp add: en_mid_def enc_init_def n_def)
  let ?E = "Elem QMI_STRUCT k sz NO_ARRAY ty o1 (Some [?e, z])"
  have structs: "enc_structs False src o1 out_len 2 (Some [?e, z]) (unat sz) 1 mem (d + 3) 0 =
      Some (int (1 + n), blit mem (d + 3) ?p)"
    using inner n256 by (simp del: enc_loop.simps)
  have "enc_loop False src 0 out_len 1 [?E, z'] (enc_init 1 mem d) =
      do { st \<leftarrow> enc_tlv 1 ty (en_mid mem d 0 ?p 1\<lparr>en_tlv := True\<rparr>); enc_loop False src 0 out_len 1 [z'] st }"
    unfolding st using structs update_encode_int [of "1 + n"]
    by (subst enc_loop.simps(2))
      (simp add: enc_count_def enc_init_def numeral_2_eq_2 del: enc_loop.simps enc_structs.simps update_encode_int)
  also have "\<dots> = Some (int (n + 4), blit mem d (tlv_header ty (n + 1) @ ?p))"
    using tlv assms(9) n256 sint32 [of "n + 4"] by (simp add: en_done_def en_mid_def n_def add.commute)
  finally show ?thesis by (simp add: qmi_encode_def)
qed

theorem nested_string_overflow_witness:
  "qmi_encode False (Some [Elem QMI_STRUCT 1 6 NO_ARRAY 1 0
      (Some [Elem QMI_STRING 5 1 NO_ARRAY 0 0 None, Elem QMI_EOTI 0 0 NO_ARRAY 0 0 None]), Elem QMI_EOTI 0 0 NO_ARRAY 0 0 None])
      (replicate 6 0) 0 [104, 105, 0] 0 3 1 = Some (6, [1, 3, 0, 2, 104, 105])"
  using nested_string_overflow [of 2 "[104, 105, 0]" 0 0 5 3 0 "replicate 6 0" "Elem QMI_EOTI 0 0 NO_ARRAY 0 0 None"
      "Elem QMI_EOTI 0 0 NO_ARRAY 0 0 None" 1 6 1 0]
  by (simp add: c_string_def blit_def tlv_header_def)

text \<open>Claim C13: the decoder does not compare the size of an element with the length of its TLV or with
  what is left of the message. A message that ends inside the first element, whatever length its TLV
  claims, makes \<open>qmi_decode_message\<close> read behind the end of the packet.\<close>
theorem short_tlv_reads_past_end:
  assumes "bs = qmi_header_bytes False ty txn mid len @ [tlv_type e, l0, l1] @ rest"
    and "basic_type (data_type e)" "array_type e = NO_ARRAY" "length rest < unat (elem_size e)" "unat (elem_size e) \<le> 8"
  shows "qmi_decode_message False (Some out) (Some bs) (length bs) (uint ty) (uint mid) (Some (e # es)) = None"
proof -
  have u: "ucast (ucast (tlv_type e) :: u32) = tlv_type e" by (rule bit_word_eqI) (auto simp: bit_simps)
  have half: "half_word False (ucast x) (ucast (drop_bit 8 x)) = x" for x :: u16
    by (rule bit_word_eqI) (auto simp: half_word_def bit_simps)
  have len: "length bs = 10 + length rest" using assms(1) by (simp add: qmi_header_bytes_def half_bytes_def)
  have "length rest < 8" using assms(4,5) by simp
  then have il: "(ucast (sub7 (length bs)) :: u32) = of_nat (3 + length rest)"
    using sub7_add(2) [of "3 + length rest"] len by simp
  have "unat (of_nat (3 + length rest) :: u32) = 3 + length rest" using \<open>length rest < 8\<close> by (intro unat32) simp
  then have pos: "(0 :: u32) < of_nat (3 + length rest)" "of_nat (3 + length rest) \<noteq> (0 :: u32)"
    by (auto simp: word_less_nat_alt)
  have hold: "holds bs 0 (qmi_header_bytes False ty txn mid len @ [tlv_type e, l0, l1] @ rest)"
    using assms(1) by (simp add: holds_def slice_def)
  note hf = header_fields [OF hold]
  have "holds bs 7 ([tlv_type e, l0, l1] @ rest)" using hold by (simp add: holds_append)
  then have "holds bs 7 [tlv_type e, l0, l1]" by (simp only: holds_append)
  from holds_nth [OF this, of 0] holds_nth [OF this, of 1] holds_nth [OF this, of 2]
  have tlv: "decode_tlv bs 7 = Some (ucast (tlv_type e), or (ucast l0) (push_bit 8 (ucast l1)))"
    by (simp add: decode_tlv_def)
  have cnt: "dec_count e 0 = Some 1" using assms(3) by (simp add: dec_count_def)
  have basic: "qmi_decode_basic_elem out (offset e) bs 10 1 (elem_size e) = None"
    using assms(4) len by (simp add: qmi_decode_basic_elem_def mem_copy_def)
  have nt: "data_type e \<noteq> QMI_EOTI" "data_type e \<noteq> QMI_OPT_FLAG" "data_type e \<noteq> QMI_DATA_LEN" "data_type e \<noteq> QMI_STRUCT"
    using assms(2) by auto
  have "qmi_decode False (Some (e # es)) out 0 bs 7 (of_nat (3 + length rest)) 1 = None"
    using pos tlv nt assms(2) cnt basic
    by (simp add: qmi_decode_def dec_start_def u dec_prepare_def dec_flag_def dec_data_len_def dec_elem_def)
  then show ?thesis using hf(1-3) il len by (simp add: qmi_decode_message_def)
qed

theorem short_tlv_reads_past_end_witness:
  "qmi_decode_message False (Some [0, 0, 0, 0]) (Some [2, 1, 0, 32, 0, 5, 0, 1, 2, 0, 8, 9])
      (length [2 :: u8, 1, 0, 32, 0, 5, 0, 1, 2, 0, 8, 9]) 2 32
      (Some [Elem QMI_UNSIGNED_4_BYTE 1 4 NO_ARRAY 1 0 None, Elem QMI_EOTI 0 0 NO_ARRAY 0 0 None]) = None"
  using short_tlv_reads_past_end [of "[2, 1, 0, 32, 0, 5, 0, 1, 2, 0, 8, 9]" 2 1 32 5
      "Elem QMI_UNSIGNED_4_BYTE 1 4 NO_ARRAY 1 0 None" 2 0 "[8, 9]" "[0, 0, 0, 0]" "[Elem QMI_EOTI 0 0 NO_ARRAY 0 0 None]"]
  by (simp add: qmi_header_bytes_def half_bytes_def basic_type_def)

text \<open>A length field of one byte overwrites only the lowest byte of the variable that all
  elements share. Behind an array of 256 or more elements the decoder therefore reads a length of at
  least 256 from it, and refuses with \<open>-EINVAL\<close> a message that the encoder has just produced.\<close>
lemma length_field_keeps_stale_bytes:
  assumes "wf_descr [g, h] z" "\<forall>x \<in> {g, h}. group_in src 0 x \<and> group_plain src 0 x \<and> present src 0 x"
    and "message_ok src 0 [g, h]" "256 \<le> g_count src 0 g"
    and "g_len h = Some f" "elem_size f = 1" "unat (elem_len (g_body h)) < 256"
    and "length out = length src" "length src < 2 ^ 31" "length (message_bytes src 0 [g, h]) < 2 ^ 16"
    and "length (message_bytes src 0 [g, h]) \<le> unat out_len" "unat out_len < 2 ^ 31" "d + unat out_len \<le> length mem"
  shows "\<exists>msg out'. qmi_encode False (Some (descr [g, h] z)) mem d src 0 out_len 1 =
      Some (int (length (message_bytes src 0 [g, h])), msg) \<and>
    qmi_decode False (Some (descr [g, h] z)) out 0 msg d (of_nat (length (message_bytes src 0 [g, h]))) 1 =
      Some (- EINVAL, out')"
proof -
  let ?gs = "[g, h]"
  let ?M = "message_bytes src 0 ?gs" and ?G = "group_bytes src 0 g" and ?H = "group_bytes src 0 h"
  let ?inb = "blit mem d ?M" and ?in_len = "of_nat (length ?M) :: u32"
  let ?st = "\<lparr>de_out = out, de_pos = d, de_bytes = 0, de_dlen = 0\<rparr>"
  have pg: "group_in src 0 g" "group_plain src 0 g" "present src 0 g"
    and ph: "group_in src 0 h" "group_plain src 0 h" "present src 0 h" using assms(2) by auto
  have room: "d + length ?M \<le> length mem" using assms(11,13) by linarith
  have enc: "qmi_encode False (Some (descr ?gs z)) mem d src 0 out_len 1 = Some (int (length ?M), ?inb)"
  proof -
    have ins: "\<forall>x \<in> set ?gs. group_in src 0 x" using pg ph by simp
    have c: "message_ok src 0 ?gs \<and> length ?M \<le> unat out_len" using assms(3,11) by blast
    from qmi_encode_message_bytes [OF assms(1) ins assms(12,13,9)] show ?thesis unfolding if_P [OF c] .
  qed
  have hold: "holds ?inb d (?G @ ?H)" using holds_blit [OF room] by simp
  have il: "unat ?in_len = length ?M" using assms(10) by (intro unat32) simp
  have "3 \<le> length ?M" using pg(3) by (simp add: group_bytes_def)
  then have nz: "?in_len \<noteq> 0" using il by (metis not_numeral_le_zero unat_0)
  have pay: "length (payload src 0 g) < 2 ^ 16" "length (payload src 0 h) < 2 ^ 16"
    using payload_in_message [of g ?gs src 0] payload_in_message [of h ?gs src 0] pg ph assms(10) by auto
  have "\<exists>out' dl' temp'. dec_loop False ?inb 0 ?in_len 1 (descr ([] @ g # [h]) z) (descr ?gs z) ?st =
      dec_loop False ?inb 0 ?in_len 1 (descr ([] @ g # [h]) z) temp'
        (?st\<lparr>de_dlen := dl', de_out := out', de_pos := de_pos ?st + length ?G, de_bytes := of_nat (0 + length ?G)\<rparr>) \<and>
    unat dl' = g_count src 0 g \<and> overlay src (group_cover src 0 g) (de_out ?st) out'"
    by (rule dec_group) (use assms(1,3,8-10) pg hold il pay in \<open>auto simp: message_ok_def holds_append\<close>)
  then obtain o1 dl temp where o1: "dec_loop False ?inb 0 ?in_len 1 (descr ?gs z) (descr ?gs z) ?st =
      dec_loop False ?inb 0 ?in_len 1 (descr ?gs z) temp
        \<lparr>de_out = o1, de_pos = d + length ?G, de_bytes = of_nat (length ?G), de_dlen = dl\<rparr>"
    "unat dl = g_count src 0 g" "length o1 = length src"
    using overlay_length assms(8) by fastforce
  let ?st1 = "\<lparr>de_out = o1, de_pos = d + length ?G, de_bytes = of_nat (length ?G), de_dlen = dl\<rparr>"
  have H: "?H = tlv_header (g_type h) (length (payload src 0 h)) @ payload src 0 h" using ph(3) by (simp add: group_bytes_def)
  have hH: "holds ?inb (d + length ?G) ?H" using hold by (simp only: holds_append)
  have "1 \<le> length (payload src 0 h)"
    using ph(1) assms(5,6) by (auto simp: payload_def len_bytes_def group_in_def)
  then have lens: "4 \<le> length ?H" "length ?M = length ?G + length ?H" using H by simp_all
  have more: "of_nat (length ?G) < ?in_len" using lens il assms(10) by (auto simp: word_less_nat_alt unat32)
  have tlv: "decode_tlv ?inb (d + length ?G) = Some (ucast (g_type h), of_nat (length (payload src 0 h)))"
    by (rule decode_tlv_header [OF hH [unfolded H] pay(2)])
  have wf: "wf_descr ([g] @ h # []) z" using assms(1) by simp
  let ?st2 = "?st1\<lparr>de_pos := d + length ?G + 3, de_bytes := of_nat (length ?G) + 3\<rparr>"
  have start: "dec_start ?inb ?in_len 1 (descr ?gs z) temp ?st1 =
      Some (Dec_Elem (g_elems h @ [z]) (of_nat (length (payload src 0 h))) ?st2)"
    using tlv find_ei_descr [OF wf] by (simp add: dec_start_def)
  have wfh: "wf_group h" using assms(1) by (simp add: wf_descr_def)
  have "\<exists>out'. dec_prepare False ?inb 0 (g_elems h @ [z]) (of_nat (length (payload src 0 h))) ?st2 = Some (Inl (- EINVAL, out'))"
    by (rule dec_stale [OF wfh ph(1-3) assms(5-7)]) (use o1(2,3) assms(4) lens room in auto)
  then obtain out' where "dec_prepare False ?inb 0 (g_elems h @ [z]) (of_nat (length (payload src 0 h))) ?st2 =
      Some (Inl (- EINVAL, out'))" ..
  with more start have "dec_loop False ?inb 0 ?in_len 1 (descr ?gs z) temp ?st1 = Some (- EINVAL, out')"
    by (subst dec_loop.simps) (simp del: dec_loop.simps descr_simps message_bytes_simps)
  with o1(1) nz have "qmi_decode False (Some (descr ?gs z)) out 0 ?inb d ?in_len 1 = Some (- EINVAL, out')"
    by (simp add: qmi_decode_def del: dec_loop.simps descr_simps message_bytes_simps)
  with enc show ?thesis by blast
qed

end
