(* ===== verification/Qmi_Response.thy ===== *)
theory Qmi_Response
  imports Qmi_Message
begin

text \<open>
  The client library and the QMI codec together: a message built in a packet of
  \<open>DEFINE_QRTR_PACKET\<close> by \<open>qmi_encode_message\<close>, sent with \<open>qrtr_sendto\<close>, and taken apart on the other
  side by \<open>qrtr_decode\<close>, \<open>qmi_decode_header\<close> and \<open>qmi_decode_message\<close>; in particular the common
  response \<open>struct qmi_response_type_v01\<close>.
\<close>

section \<open>Delivery of a message\<close>

text \<open>
  What is sent is the wire format. The receiver may hold it in a larger buffer and passes the
  length \<open>recvfrom\<close> returned; the sender is not the control port.
\<close>

lemma qmi_message_delivered:
  fixes txn_id :: int
  assumes "wf_descr gs z" "\<forall>g \<in> set gs. group_in src 0 g" "length src < 2 ^ 31"
    and "length stack < 2 ^ 31"
    and "message_ok src 0 gs" "message_plain src 0 gs" "length (message_bytes src 0 gs) < 2 ^ 16"
    and "7 + length (message_bytes src 0 gs) \<le> length stack" "length out = length src"
    and "0 \<le> type" "type < 2 ^ 8" "0 \<le> msg_id" "msg_id < 2 ^ 16" "sq_port sq \<noteq> QRTR_PORT_CTRL"
  defines "bs \<equiv> message_wire type msg_id txn_id (message_bytes src 0 gs)"
  shows "\<exists>pkt. qmi_encode_message False (DEFINE_QRTR_PACKET stack) type msg_id txn_id (Some src) (Some (descr gs z)) =
      Some (int (length bs), pkt) \<and>
    snd (qrtr_sendto oc sock node port (take (qp_data_len pkt) (qp_data pkt))) =
      [Sendto sock \<lparr>sq_family = AF_QIPCRTR, sq_node = node, sq_port = port\<rparr> bs]"
    "\<exists>dest' out'. qrtr_decode False dest (bs @ rest) (length bs) sq = Some (0, dest') \<and>
      qp_type dest' = QRTR_TYPE_DATA \<and> qp_node dest' = sq_node sq \<and> qp_port dest' = sq_port sq \<and>
      qmi_decode_header False dest' = Some (Inr (word_of_int msg_id)) \<and>
      qmi_decode_message False (Some out) (Some (qp_data dest')) (qp_data_len dest') type msg_id (Some (descr gs z)) =
        Some (int (length (message_bytes src 0 gs)), Some out', Some (word_of_int txn_id)) \<and>
      overlay src (message_cover src 0 gs) out out'"
proof -
  have room: "qp_data_len (DEFINE_QRTR_PACKET stack) \<le> length (qp_data (DEFINE_QRTR_PACKET stack))"
    "qp_data_len (DEFINE_QRTR_PACKET stack) < 2 ^ 31"
    "7 + length (message_bytes src 0 gs) \<le> qp_data_len (DEFINE_QRTR_PACKET stack)"
    using assms(4,8) by (simp_all add: DEFINE_QRTR_PACKET_def)
  from message_encodes [OF assms(1-3) room(1,2) assms(5) room(3), of type msg_id txn_id]
  show "\<exists>pkt. qmi_encode_message False (DEFINE_QRTR_PACKET stack) type msg_id txn_id (Some src) (Some (descr gs z)) =
      Some (int (length bs), pkt) \<and>
    snd (qrtr_sendto oc sock node port (take (qp_data_len pkt) (qp_data pkt))) =
      [Sendto sock \<lparr>sq_family = AF_QIPCRTR, sq_node = node, sq_port = port\<rparr> bs]"
    by (auto simp: qrtr_sendto_def bs_def)
  let ?dest' = "dest\<lparr>qp_type := QRTR_TYPE_DATA, qp_node := sq_node sq, qp_port := sq_port sq,
      qp_data := bs @ rest, qp_data_len := length bs\<rparr>"
  have "holds (qp_data ?dest') 0 bs" by (simp add: holds_def slice_def)
  from message_decodes [OF assms(1-3,5-7,9-13) this [unfolded bs_def]] assms(14)
  show "\<exists>dest' out'. qrtr_decode False dest (bs @ rest) (length bs) sq = Some (0, dest') \<and>
      qp_type dest' = QRTR_TYPE_DATA \<and> qp_node dest' = sq_node sq \<and> qp_port dest' = sq_port sq \<and>
      qmi_decode_header False dest' = Some (Inr (word_of_int msg_id)) \<and>
      qmi_decode_message False (Some out) (Some (qp_data dest')) (qp_data_len dest') type msg_id (Some (descr gs z)) =
        Some (int (length (message_bytes src 0 gs)), Some out', Some (word_of_int txn_id)) \<and>
      overlay src (message_cover src 0 gs) out out'"
    by (auto simp: qrtr_decode_def bs_def)
qed

section \<open>The response element\<close>

text \<open>A message whose only element is the response header, TLV type 2.\<close>

definition response_group :: group where
  "response_group = Group None None (Elem QMI_STRUCT 1 4 NO_ARRAY 2 0 (Some qmi_response_type_v01_ei))"

definition response_ei :: "qmi_elem_info list" where
  "response_ei = [Elem QMI_STRUCT 1 4 NO_ARRAY 2 0 (Some qmi_response_type_v01_ei), Elem QMI_EOTI 0 0 NO_ARRAY 0 0 None]"

lemma response_ei_descr: "response_ei = descr [response_group] (Elem QMI_EOTI 0 0 NO_ARRAY 0 0 None)"
  by (simp add: response_ei_def response_group_def g_elems_def descr_def)

lemma response_group_ok:
  assumes "length resp = 4"
  shows "wf_descr [response_group] (Elem QMI_EOTI 0 0 NO_ARRAY 0 0 None)" "\<forall>g \<in> set [response_group]. group_in resp 0 g"
    "message_ok resp 0 [response_group]" "message_plain resp 0 [response_group]"
    "message_cover resp 0 [response_group] = {0..<4}"
  using assms
  by (auto simp: response_group_def wf_descr_def wf_group_def wf_body_def g_type_def elem_bytes_def elem_count_def
      basic_type_def members_def wf_member_def qmi_response_type_v01_ei_def group_in_def body_in_def message_ok_def
      group_valid_def message_plain_def counts_fit_def group_plain_def message_cover_def group_cover_def body_cover_def
      member_cover_def present_def g_count_def)

lemma response_message_bytes:
  assumes "length resp = 4"
  shows "message_bytes resp 0 [response_group] = [2, 4, 0] @ resp"
proof -
  obtain r0 r1 e0 e1 where resp: "resp = [r0, r1, e0, e1]"
    using assms by (auto simp: length_Suc_conv numeral_eq_Suc)
  show ?thesis unfolding resp
    by (simp add: response_group_def group_bytes_def present_def g_type_def payload_def len_bytes_def g_count_def
        elem_count_def elem_bytes_def body_bytes_def members_def qmi_response_type_v01_ei_def slice_def tlv_header_def)
qed

lemma response_overlay: "length resp = 4 \<Longrightarrow> length out = 4 \<Longrightarrow> overlay resp {0..<4} out out' \<Longrightarrow> out' = resp"
  by (intro nth_equalityI) (auto simp: overlay_def)

text \<open>The common response header, as an element of a message, is the result and the error
  as two 16-bit values in one TLV, and decoding gives back the four bytes of the C struct.\<close>

lemma qmi_response_codec:
  assumes "length resp = 4" "length out = 4" "7 \<le> unat out_len" "unat out_len < 2 ^ 31" "d + unat out_len \<le> length mem"
  shows "qmi_encode False (Some response_ei) mem d resp 0 out_len 1 = Some (7, blit mem d ([2, 4, 0] @ resp)) \<and>
    qmi_decode False (Some response_ei) out 0 ([2, 4, 0] @ resp) 0 7 1 = Some (7, resp)"
proof -
  note ok = response_group_ok [OF assms(1)] and m = response_message_bytes [OF assms(1)]
  have l: "length resp < 2 ^ 31" "length out = length resp" using assms(1,2) by simp_all
  have enc: "qmi_encode False (Some response_ei) mem d resp 0 out_len 1 = Some (7, blit mem d ([2, 4, 0] @ resp))"
    using qmi_encode_message_bytes [OF ok(1,2) assms(4,5) l(1)] ok(3) assms(1,3) unfolding m response_ei_descr by simp
  obtain out' where o: "qmi_decode False (Some response_ei) out 0 ([2, 4, 0] @ resp) 0 7 1 = Some (7, out')"
    "overlay resp {0..<4} out out'"
    using qmi_decode_message_bytes [OF ok(1-4) l(2,1), of "[2, 4, 0] @ resp" 0 7] assms(1)
    unfolding m response_ei_descr ok(5) by (auto simp: holds_def slice_def)
  with enc response_overlay [OF assms(1,2)] show ?thesis by blast
qed

section \<open>A response from the service to its client\<close>

lemma length_response_bytes [simp]: "length (response_bytes be r) = 4"
  by (simp add: response_bytes_def half_bytes_def)

text \<open>Result and error can be read back from the struct.\<close>

lemma response_bytes_inject: "response_bytes be r = response_bytes be r' \<longleftrightarrow> r = r'"
proof -
  have half: "half_bytes be x = half_bytes be y \<Longrightarrow> x = y" for x y :: u16
  proof -
    assume "half_bytes be x = half_bytes be y"
    then have "half_word False (ucast x) (ucast (drop_bit 8 x)) = half_word False (ucast y) (ucast (drop_bit 8 y))"
      by (auto simp: half_bytes_def split: if_splits)
    moreover have "half_word False (ucast x) (ucast (drop_bit 8 x)) = x" for x :: u16
      by (rule bit_word_eqI) (auto simp: half_word_def bit_simps)
    ultimately show "x = y" by simp
  qed
  have "length (half_bytes be x) = 2" for x by (simp add: half_bytes_def)
  then show ?thesis by (cases r; cases r') (auto simp: response_bytes_def dest: half)
qed

definition response_wire :: "int \<Rightarrow> int \<Rightarrow> qmi_response_type_v01 \<Rightarrow> u8 list" where
  "response_wire msg_id txn_id r = [2] @ half_bytes False (word_of_int txn_id) @ half_bytes False (word_of_int msg_id) @
     [7, 0, 2, 4, 0] @ half_bytes False (rsp_result r) @ half_bytes False (rsp_error r)"

definition failure_41 :: qmi_response_type_v01 where
  "failure_41 = \<lparr>rsp_result = QMI_RESULT_FAILURE_V01, rsp_error = QMI_ERR_INVALID_ID_V01\<rparr>"

text \<open>Claim C10: a service answers a request with a response of any result and error: with room for 14
  bytes, \<open>qmi_encode_message\<close> on a packet of \<open>DEFINE_QRTR_PACKET\<close> returns 14 and \<open>qrtr_sendto\<close> sends
  exactly the type 2, the transaction id, the message id, the length 7, the TLV header 2, 4, 0 and the
  four bytes of the struct, all little-endian. The client that received them in a buffer of any size
  gets a data packet of the service from \<open>qrtr_decode\<close>, the message id from \<open>qmi_decode_header\<close>, and from
  \<open>qmi_decode_message\<close> the transaction id and a struct with the same result and error.\<close>
theorem qmi_response_delivered:
  assumes "14 \<le> length stack" "length stack < 2 ^ 31" "0 \<le> msg_id" "msg_id < 2 ^ 16"
    and "sq_port sq \<noteq> QRTR_PORT_CTRL" "length out = 4"
  shows "(\<exists>pkt. qmi_encode_message False (DEFINE_QRTR_PACKET stack) QMI_RESPONSE msg_id txn_id
        (Some (response_bytes False r)) (Some response_ei) = Some (14, pkt) \<and>
      snd (qrtr_sendto oc sock node port (take (qp_data_len pkt) (qp_data pkt))) =
        [Sendto sock \<lparr>sq_family = AF_QIPCRTR, sq_node = node, sq_port = port\<rparr> (response_wire msg_id txn_id r)]) \<and>
    (\<exists>dest'. qrtr_decode False dest (response_wire msg_id txn_id r @ rest) 14 sq = Some (0, dest') \<and>
      qp_type dest' = QRTR_TYPE_DATA \<and> qp_node dest' = sq_node sq \<and> qp_port dest' = sq_port sq \<and>
      qmi_decode_header False dest' = Some (Inr (word_of_int msg_id)) \<and>
      qmi_decode_message False (Some out) (Some (qp_data dest')) (qp_data_len dest') QMI_RESPONSE msg_id
        (Some response_ei) = Some (7, Some (response_bytes False r), Some (word_of_int txn_id)))"
proof -
  let ?resp = "response_bytes False r"
  have len: "length ?resp = 4" by simp
  note ok = response_group_ok [OF len] and m = response_message_bytes [OF len]
  have sizes: "length ?resp < 2 ^ 31" "length (message_bytes ?resp 0 [response_group]) < 2 ^ 16"
    "7 + length (message_bytes ?resp 0 [response_group]) \<le> length stack" "length out = length ?resp"
    "0 \<le> QMI_RESPONSE" "QMI_RESPONSE < 2 ^ 8"
    using assms(1,6) unfolding m by (simp_all add: QMI_RESPONSE_def)
  have wire: "message_wire QMI_RESPONSE msg_id txn_id (message_bytes ?resp 0 [response_group]) = response_wire msg_id txn_id r"
    unfolding m by (simp add: message_wire_def qmi_header_bytes_def response_wire_def QMI_RESPONSE_def response_bytes_def half_bytes_def)
  have l: "length (response_wire msg_id txn_id r) = 14" by (simp add: response_wire_def half_bytes_def)
  note sent = qmi_message_delivered [OF ok(1,2) sizes(1) assms(2) ok(3,4) sizes(2-6) assms(3-5),
      where txn_id = txn_id, unfolded wire, folded response_ei_descr]
  from sent(1) [where oc = oc and sock = sock and node = node and port = port]
    sent(2) [where dest = dest and rest = rest] show ?thesis
    unfolding ok(5) m l using response_overlay [OF len assms(6)] by fastforce
qed

theorem qmi_response_delivered_witness:
  "\<exists>dest'. qrtr_decode False (DEFINE_QRTR_PACKET []) ([2, 77, 0, 32, 0, 7, 0, 2, 4, 0, 1, 0, 41, 0] @ [9, 9]) 14
      \<lparr>sq_family = AF_QIPCRTR, sq_node = 1, sq_port = 16384\<rparr> = Some (0, dest') \<and>
    qmi_decode_header False dest' = Some (Inr 32) \<and>
    qmi_decode_message False (Some [0, 0, 0, 0]) (Some (qp_data dest')) (qp_data_len dest') 2 32 (Some response_ei) =
      Some (7, Some [1, 0, 41, 0], Some 77)"
proof -
  have wire: "response_wire 32 77 failure_41 = [2, 77, 0, 32, 0, 7, 0, 2, 4, 0, 1, 0, 41, 0]"
    "response_bytes False failure_41 = [1, 0, 41, 0]"
    by code_simp+
  have port: "sq_port \<lparr>sq_family = AF_QIPCRTR, sq_node = 1, sq_port = 16384\<rparr> \<noteq> QRTR_PORT_CTRL"
    by (simp add: QRTR_PORT_CTRL_def)
  from qmi_response_delivered [where stack = "replicate 16 170" and msg_id = 32 and out = "[0, 0, 0, 0]"
      and txn_id = 77 and r = failure_41 and dest = "DEFINE_QRTR_PACKET []" and rest = "[9, 9]",
      OF _ _ _ _ port, THEN conjunct2]
  show ?thesis unfolding wire by (auto simp: QMI_RESPONSE_def)
qed

end
