(* ===== verification/Address_Props.thy ===== *)
theory Address_Props
  imports Address
begin

text \<open>The properties of the address configuration, with a sample environment for the witnesses.\<close>

definition request_layout :: "bool \<Rightarrow> u32 \<Rightarrow> u8 list" where
  "request_layout be addr =
     mem_bytes be 32 @ half_bytes be 20 @ half_bytes be 5 @ mem_bytes be 0 @ mem_bytes be 0 @
     [42, 0, 0, 0] @ mem_bytes be 0 @
     half_bytes be 8 @ half_bytes be 2 @ mem_bytes be addr"

lemma set_address_request_layout: "set_address_request be addr = request_layout be addr"
proof -
  have z: "replicate (16 + 8 + 32) (0 :: u8) = concat (replicate 14 [0, 0, 0, 0])" by code_simp
  have s: "NLMSG_SPACE 8 = 24" "RTA_LENGTH 4 = 8" "RTA_LENGTH 0 = 4"
    by (simp_all add: NLMSG_SPACE_def RTA_LENGTH_def netlink_align_def)
  have l: "length (half_bytes be x) = 2" for x by (simp add: half_bytes_def)
  have af: "ucast AF_QIPCRTR = (42 :: u8)" by (simp add: AF_QIPCRTR_def)
  show ?thesis
    unfolding set_address_request_def request_layout_def s Let_def z af
    by (cases be) (simp_all add: blit_def half_bytes_def mem_bytes_def le_bytes_def RTM_NEWADDR_def NLM_F_REQUEST_def
        NLM_F_ACK_def IFA_LOCAL_def numeral_eq_Suc)
qed

lemma length_request_layout [simp]: "length (request_layout be addr) = 32"
  by (simp add: request_layout_def half_bytes_def)

text \<open>A host on which every call succeeds and the kernel answers with an acknowledgement (type
  \<open>NLMSG_ERROR\<close> with error 0) or with an error.\<close>

definition kernel_answers :: "u8 \<Rightarrow> addr_env" where
  "kernel_answers err = \<lparr>ae_qrtr_socket = 3, ae_getsockname = 0,
     ae_sockname = \<lparr>sq_family = AF_QIPCRTR, sq_node = 1, sq_port = 9\<rparr>, ae_socklen = 12,
     ae_netlink_socket = 4, ae_send = 32, ae_recv = 36,
     ae_resp = [36, 0, 0, 0, 2, 0, 0, 0] @ replicate 8 0 @ [err, 0, 0, 0] @ replicate 16 0\<rparr>"

definition calls_ok :: "addr_env \<Rightarrow> bool" where
  "calls_ok env \<longleftrightarrow> 0 \<le> ae_qrtr_socket env \<and> 0 \<le> ae_getsockname env \<and> 0 \<le> ae_netlink_socket env \<and>
     0 \<le> ae_send env \<and> 0 \<le> ae_recv env"

text \<open>Claim C39: if the system calls succeed, \<open>qrtr_set_address\<close> leaves a node alone that has the address
  already; otherwise it sends the kernel one \<open>RTM_NEWADDR\<close> message, requesting an acknowledgement, of
  exactly the 32 bytes its length field says, with the address in an \<open>IFA_LOCAL\<close> attribute, and ends the
  program with status 1 exactly if the answer is an error message with a non-zero code.\<close>
theorem qrtr_set_address_request:
  assumes "calls_ok env"
  shows "qrtr_set_address be env addr =
    (let calls = [Qrtr_socket, Qrtr_getsockname (ae_qrtr_socket env), Close_fd (ae_qrtr_socket env)];
         sock = ae_netlink_socket env;
         request = calls @ [Netlink_socket, Netlink_send sock (request_layout be addr), Netlink_recv sock 36] in
     if ae_socklen env = sizeof_sockaddr_qrtr \<and> sq_node (ae_sockname env) = addr then (Returned, calls)
     else if resp_error be (ae_resp env) then (Exited 1, request)
     else (Returned, request @ [Close_fd sock])) \<and>
    length (request_layout be addr) = 32"
  using assms
  by (auto simp: qrtr_set_address_def calls_ok_def Let_def set_address_request_layout)

theorem qrtr_set_address_request_witness:
  "fst (qrtr_set_address False (kernel_answers 0) 7) = Returned \<and>
    fst (qrtr_set_address False (kernel_answers 13) 7) = Exited 1 \<and>
    qrtr_set_address True (kernel_answers 13) 1 = (Returned, [Qrtr_socket, Qrtr_getsockname 3, Close_fd 3])"
  using qrtr_set_address_request [of "kernel_answers 0" False 7] qrtr_set_address_request [of "kernel_answers 13" False 7]
    qrtr_set_address_request [of "kernel_answers 13" True 1]
  by (simp add: kernel_answers_def calls_ok_def Let_def resp_error_def half_word_def slice_def mem_word_def
      NLMSG_ERROR_def sizeof_sockaddr_qrtr_def)

text \<open>Claim C38: \<open>qrtr-cfg\<close> with a number in decimal configures exactly that number, if it is below the
  broadcast address \<open>UINT_MAX\<close> and nothing but the number is given; otherwise it makes no system call
  and exits with status 1, also for numbers of any size.\<close>
theorem cfg_main_number:
  assumes "junk = [] \<or> 10 \<le> digit_value (hd junk)"
  shows "cfg_main be [progname, show_decimal n @ junk] env =
    (if junk = [] \<and> n < 2 ^ 32 - 1
     then (case qrtr_set_address be env (of_nat n) of (Returned, calls) \<Rightarrow> (0, calls) | (Exited st, calls) \<Rightarrow> (st, calls))
     else (1, []))"
proof -
  have max: "UINT_MAX \<le> of_nat n \<longleftrightarrow> 2 ^ 32 - 1 \<le> n" if "n < 2 ^ 64"
    using that by (simp add: UINT_MAX_def word_le_nat_alt unat_of_nat take_bit_nat_eq_self)
  have cast: "ucast (of_nat n :: u64) = (of_nat n :: u32)"
    by (rule bit_word_eqI) (auto simp: bit_simps)
  have top: "UINT_MAX \<le> ULONG_MAX" by (simp add: UINT_MAX_def ULONG_MAX_def)
  show ?thesis
  proof (cases "n < 2 ^ 64")
    case True
    then show ?thesis using strtoul_10 [OF assms, of n] max cast by (simp add: cfg_main_def not_le)
  next
    case False
    then show ?thesis using strtoul_10 [OF assms, of n] top by (simp add: cfg_main_def)
  qed
qed

theorem cfg_main_number_witness:
  "cfg_main False [''qrtr-cfg'', show_decimal 7 @ ''x''] (kernel_answers 0) = (1, []) \<and>
    fst (cfg_main False [''qrtr-cfg'', show_decimal 7 @ []] (kernel_answers 0)) = 0"
  using cfg_main_number [of "''x''" False "''qrtr-cfg''" 7 "kernel_answers 0"]
    cfg_main_number [of "[]" False "''qrtr-cfg''" 7 "kernel_answers 0"]
  by (simp add: digit_value_def qrtr_set_address_def kernel_answers_def sizeof_sockaddr_qrtr_def resp_error_def half_word_def
      slice_def mem_word_def NLMSG_ERROR_def Let_def)

text \<open>
  A negative number is read modulo \<open>2 ^ 64\<close>, so a very small one is accepted as a small address.
\<close>

lemma cfg_main_negative:
  "cfg_main be [progname, ''-18446744073709551615''] env = cfg_main be [progname, ''1''] env"
proof -
  have "strtoul 10 ''-18446744073709551615'' = (1, [], False)" "strtoul 10 ''1'' = (1, [], False)"
    by (simp_all add: strtoul_def take_sign_def take_base_def is_space_def digit_value_def number_def)
  then show ?thesis by (simp add: cfg_main_def)
qed

text \<open>The name server looks for an empty operand in \<open>argv[1]\<close>, not in the operand. Behind an
  option an empty node id is taken for node 0.\<close>
lemma ns_main_empty_operand:
  "ns_main_args be progname ''f'' [progname, ''-f'', ''''] 2 env =
    (case qrtr_set_address be env 0 of
       (Exited st, calls) \<Rightarrow> (Inl st, calls)
     | (Returned, calls) \<Rightarrow> (Inr (\<lparr>foreground = True, use_syslog = False, verbose_log = False\<rparr>,
         log_initial\<lparr>current_tag := progname\<rparr>), calls)) \<and>
   ns_main_args be progname '''' [progname, ''''] 1 env = (Inl 1, [])"
proof -
  have "strtoul 10 '''' = (0, [], False)" by code_simp
  then show ?thesis
    by (simp add: ns_main_args_def Let_def qlog_setup_def log_initial_def UINT_MAX_def split: prod.split finish.split)
qed

end
