(* ===== verification/Lookup.thy ===== *)
theory Lookup
  imports C_Text Qrtr_Client
begin

text \<open>
  The tool \<open>src/lookup.c\<close>: its table of well-known services, the parsing of its arguments, and \<open>main\<close>
  as a function of the argument vector, the outcomes of the system calls and the datagrams that
  \<open>recv\<close> returns, to the exit status, the system calls made and the lines on the standard output.
  Messages to the log and the usage text are left out.
\<close>

section \<open>Names\<close>

definition DIAG_SERVICE :: u32 where
  "DIAG_SERVICE = 4097"

text \<open>Service, filter on the instance, and name.\<close>

definition common_names :: "((u32 \<times> u32) \<times> string) list" where
  "common_names =
    [((0, 0), ''Control service''),
     ((1, 0), ''Wireless Data Service''),
     ((2, 0), ''Device Management Service''),
     ((3, 0), ''Network Access Service''),
     ((4, 0), ''Quality Of Service service''),
     ((5, 0), ''Wireless Messaging Service''),
     ((6, 0), ''Position Determination Service''),
     ((7, 0), ''Authentication service''),
     ((8, 0), ''AT service''),
     ((9, 0), ''Voice service''),
     ((10, 0), ''Card Application Toolkit service (v2)''),
     ((11, 0), ''User Identity Module service''),
     ((12, 0), ''Phonebook Management service''),
     ((13, 0), ''QCHAT service''),
     ((14, 0), ''Remote file system service''),
     ((15, 0), ''Test service''),
     ((16, 0), ''Location service (~ PDS v2)''),
     ((17, 0), ''Specific absorption rate service''),
     ((18, 0), ''IMS settings service''),
     ((19, 0), ''Analog to digital converter driver service''),
     ((20, 0), ''Core sound driver service''),
     ((21, 0), ''Modem embedded file system service''),
     ((22, 0), ''Time service''),
     ((23, 0), ''Thermal sensors service''),
     ((24, 0), ''Thermal mitigation device service''),
     ((25, 0), ''Service access proxy service''),
     ((26, 0), ''Wireless data administrative service''),
     ((27, 0), ''TSYNC control service''),
     ((28, 0), ''Remote file system access service''),
     ((29, 0), ''Circuit switched videotelephony service''),
     ((30, 0), ''Qualcomm mobile access point service''),
     ((31, 0), ''IMS presence service''),
     ((32, 0), ''IMS videotelephony service''),
     ((33, 0), ''IMS application service''),
     ((34, 0), ''Coexistence service''),
     ((36, 0), ''Persistent device configuration service''),
     ((38, 0), ''Simultaneous transmit service''),
     ((39, 0), ''Bearer independent transport service''),
     ((40, 0), ''IMS RTP service''),
     ((41, 0), ''RF radiated performance enhancement service''),
     ((42, 0), ''Data system determination service''),
     ((43, 0), ''Subsystem control service''),
     ((47, 0), ''Data Port Mapper service''),
     ((48, 0), ''QMI DFS service''),
     ((49, 0), ''IPA control service''),
     ((50, 0), ''UIMRMT service''),
     ((51, 0), ''CoreSight remote tracing service''),
     ((52, 0), ''Dynamic Heap Memory Sharing''),
     ((55, 0), ''QMI-SLIM service''),
     ((56, 0), ''LOWI (Location) service''),
     ((57, 0), ''WLPS service''),
     ((64, 0), ''Service registry locator service''),
     ((66, 0), ''Service registry notification service''),
     ((69, 0), ''ATH10k WLAN firmware service''),
     ((70, 0), ''LTE service''),
     ((71, 0), ''UIMHTTP service''),
     ((75, 0), ''QDMA service''),
     ((76, 0), ''SSGCCS service''),
     ((77, 0), ''IMS QMI Priv service''),
     ((224, 0), ''Card Application Toolkit service (v1)''),
     ((225, 0), ''Remote Management Service''),
     ((226, 0), ''Open Mobile Alliance device management service''),
     ((231, 0), ''Vendor-specific service''),
     ((235, 0), ''Modem service''),
     ((256, 0), ''Sensor Manager service''),
     ((271, 0), ''Sensor Registry service''),
     ((312, 0), ''QBT1000 Ultrasonic Fingerprint Sensor service''),
     ((400, 0), ''Snapdragon Sensor Core service''),
     ((769, 0), ''SLIMbus control service''),
     ((770, 0), ''IMS data service''),
     ((771, 0), ''Peripheral Access Control Manager service''),
     ((4096, 0), ''TFTP''),
     ((DIAG_SERVICE, 0), ''DIAG service'')]"

definition diag_instance_base_str :: "u32 \<Rightarrow> string" where
  "diag_instance_base_str base =
     (if base = 0 then ''MODEM'' else if base = 1 then ''LPASS'' else if base = 2 then ''WCNSS''
      else if base = 3 then ''SENSORS'' else if base = 4 then ''CDSP'' else if base = 5 then ''WDSP''
      else ''<unk>'')"

definition diag_instance_str :: "u32 \<Rightarrow> string" where
  "diag_instance_str i =
     (if i = 0 then ''CNTL'' else if i = 1 then ''CMD'' else if i = 2 then ''DATA''
      else if i = 3 then ''DCI_CMD'' else if i = 4 then ''DCI'' else ''<unk>'')"

text \<open>The text in the buffer and the result of \<open>snprintf\<close>.\<close>

definition get_diag_instance_info :: "nat \<Rightarrow> u32 \<Rightarrow> string \<times> nat" where
  "get_diag_instance_info sz i =
     (let s = diag_instance_base_str (drop_bit 6 i) @ '':'' @ diag_instance_str (i AND 0x3f) in
      (snprintf_text sz s, length s))"

text \<open>The loop over the table: the last entry that fits gives the name.\<close>

fun lookup_name :: "((u32 \<times> u32) \<times> string) list \<Rightarrow> u32 \<Rightarrow> u32 \<Rightarrow> string option \<Rightarrow> string option" where
  "lookup_name [] service i name = name"
| "lookup_name (((sv, ifilter), n) # rest) service i name =
     (if service \<noteq> sv then lookup_name rest service i name
      else if i \<noteq> 0 \<and> i AND ifilter \<noteq> ifilter then lookup_name rest service i name
      else lookup_name rest service i (Some n))"

section \<open>Arguments\<close>

text \<open>The value and the new \<open>*rcp\<close>.\<close>

definition read_num_le :: "bool \<Rightarrow> string \<Rightarrow> int \<Rightarrow> u32 \<times> int" where
  "read_num_le be str rc =
     (if rc \<noteq> 0 then (0, rc)
      else let (v, e, range) = strtoul 0 str in
        (cpu_to_le32 be (ucast v), if range \<or> e \<noteq> [] then - 1 else 0))"

text \<open>The switch on \<open>argc\<close>; \<open>None\<close> is the usage message.\<close>

definition lookup_request :: "bool \<Rightarrow> string list \<Rightarrow> ctrl_pkt option" where
  "lookup_request be argv =
     (let (pkt, rc) =
        (if length argv = 3 then
           let (i, rc) = read_num_le be (argv ! 2) 0; (s, rc) = read_num_le be (argv ! 1) rc in
           (zero_pkt\<lparr>pkt_w1 := i, pkt_w0 := s\<rparr>, rc)
         else if length argv = 2 then
           let (s, rc) = read_num_le be (argv ! 1) 0 in (zero_pkt\<lparr>pkt_w0 := s\<rparr>, rc)
         else if length argv = 1 then (zero_pkt, 0)
         else (zero_pkt, - 1)) in
      if rc \<noteq> 0 then None else Some pkt)"

section \<open>Replies\<close>

definition server_line :: "bool \<Rightarrow> ctrl_pkt \<Rightarrow> string" where
  "server_line be pkt =
     (let service = le32_to_cpu be (pkt_w0 pkt);
          version = le32_to_cpu be (pkt_w1 pkt) AND 0xff;
          i = drop_bit 8 (le32_to_cpu be (pkt_w1 pkt));
          node = le32_to_cpu be (pkt_w2 pkt);
          port = le32_to_cpu be (pkt_w3 pkt);
          name = (case lookup_name common_names service i None of None \<Rightarrow> ''<unknown>'' | Some n \<Rightarrow> n) in
      if service = DIAG_SERVICE then
        let i = le32_to_cpu be (pkt_w1 pkt); (buf, _) = get_diag_instance_info 24 i in
        format_u 9 service @ '' N/A '' @ format_u 8 i @ '' '' @ format_u 4 node @ '' '' @ format_u 5 port @
          '' '' @ name @ '' ('' @ buf @ '')'' @ [CHR 10]
      else
        format_u 9 service @ '' '' @ format_u 7 version @ '' '' @ format_u 8 i @ '' '' @ format_u 4 node @
          '' '' @ format_u 5 port @ '' '' @ name @ [CHR 10])"

text \<open>
  The receive loop, on the datagrams in order, \<open>None\<close> being an error of \<open>recv\<close>; of each the first 20
  bytes arrive. When there are none left, the timeout of a second makes \<open>recv\<close> fail. The result is the
  exit status, the calls made and the lines printed.
\<close>

fun lookup_loop :: "bool \<Rightarrow> int \<Rightarrow> u8 list option list \<Rightarrow> int \<times> syscall list \<times> string list" where
  "lookup_loop be sock [] = (1, [Recv sock 20], [])"
| "lookup_loop be sock (r # rs) =
     (case r of
        None \<Rightarrow> (1, [Recv sock 20], [])
      | Some bs \<Rightarrow>
          let bs = take 20 bs; pkt = pkt_of_bytes be bs;
              more = (\<lambda>lines. case lookup_loop be sock rs of (st, calls, ls) \<Rightarrow> (st, Recv sock 20 # calls, lines @ ls)) in
          if bs = [] then (0, [Recv sock 20, Close sock], [])
          else if length bs < sizeof_ctrl_pkt \<or> le32_to_cpu be (pkt_cmd pkt) \<noteq> QRTR_TYPE_NEW_SERVER then more []
          else if pkt_w0 pkt = 0 \<and> pkt_w1 pkt = 0 \<and> pkt_w2 pkt = 0 \<and> pkt_w3 pkt = 0
          then (0, [Recv sock 20, Close sock], [])
          else more [server_line be pkt])"

definition lookup_header :: string where
  "lookup_header = ''  Service Version Instance Node  Port'' @ [CHR 10]"

definition lookup_main :: "bool \<Rightarrow> string list \<Rightarrow> outcomes \<Rightarrow> u8 list option list \<Rightarrow> int \<times> syscall list \<times> string list" where
  "lookup_main be argv oc rs =
     (case lookup_request be argv of
        None \<Rightarrow> (1, [], [])
      | Some pkt \<Rightarrow>
          let sock = oc_socket oc; sq = oc_sockname oc in
          if sock < 0 then (1, [Socket], [])
          else if oc_getsockname oc \<noteq> 0 \<or> sq_family sq \<noteq> AF_QIPCRTR \<or> oc_socklen oc \<noteq> sizeof_sockaddr_qrtr
          then (1, [Socket, Getsockname sock], [])
          else if oc_setsockopt oc \<noteq> 0 then (1, [Socket, Getsockname sock, Setsockopt sock], [])
          else
            let sq = sq\<lparr>sq_port := QRTR_PORT_CTRL\<rparr>;
                pkt = pkt\<lparr>pkt_cmd := cpu_to_le32 be QRTR_TYPE_NEW_LOOKUP\<rparr>;
                calls = [Socket, Getsockname sock, Setsockopt sock, Sendto sock sq (pkt_bytes be pkt)] in
            if oc_sendto oc < 0 then (1, calls, [])
            else case lookup_loop be sock rs of (st, calls', ls) \<Rightarrow> (st, calls @ calls', lookup_header # ls))"

end
