(* ===== verification/Lookup_Props.thy ===== *)
theory Lookup_Props
  imports Lookup
begin

text \<open>
  The lookup tool: what its arguments make it ask, and what it prints for the replies of a name
  server, against a plain description of the printed row.
\<close>

section \<open>Names and rows\<close>

text \<open>The table names every service at most once and filters nothing, so the loop is a map lookup.\<close>

definition service_names :: "(u32 \<times> string) list" where
  "service_names = map (\<lambda>((service, _), n). (service, n)) common_names"

lemma common_names_plain:
  "distinct (map fst service_names)" "\<forall>((_, ifilter), _) \<in> set common_names. ifilter = 0"
  by code_simp+

lemma lookup_name_other: "service \<notin> fst ` fst ` set t \<Longrightarrow> lookup_name t service i name = name"
  by (induction t) auto

lemma lookup_name_map_of:
  assumes "distinct (map (fst \<circ> fst) t)" "\<forall>((_, ifilter), _) \<in> set t. ifilter = 0"
  shows "lookup_name t service i name =
    (case map_of (map (\<lambda>((service, _), n). (service, n)) t) service of None \<Rightarrow> name | Some n \<Rightarrow> Some n)"
  using assms
proof (induction t arbitrary: name)
  case (Cons e t)
  obtain sv f n where e: "e = ((sv, f), n)" by (metis prod.collapse)
  show ?case
  proof (cases "service = sv")
    case True
    then have "service \<notin> fst ` fst ` set t" using Cons.prems(1) e by (force simp: image_image)
    then show ?thesis using Cons.prems(2) e True by (simp add: lookup_name_other)
  next
    case False
    then show ?thesis using Cons e by simp
  qed
qed simp

definition service_name :: "u32 \<Rightarrow> string" where
  "service_name service = (case map_of service_names service of None \<Rightarrow> ''<unknown>'' | Some n \<Rightarrow> n)"

lemma lookup_name_common:
  "(case lookup_name common_names service i None of None \<Rightarrow> ''<unknown>'' | Some n \<Rightarrow> n) = service_name service"
proof -
  have "map (fst \<circ> fst) common_names = map fst service_names"
    unfolding service_names_def by (simp add: case_prod_unfold)
  then have d: "distinct (map (fst \<circ> fst) common_names)" using common_names_plain(1) by simp
  show ?thesis unfolding lookup_name_map_of [OF d common_names_plain(2)] service_name_def service_names_def
    by (cases "map_of (map (\<lambda>((service, _), n). (service, n)) common_names) service") simp_all
qed

lemma service_named: "service \<in> {0, 10, 4097} \<Longrightarrow> service_name service \<noteq> ''<unknown>''"
proof -
  have "\<forall>s \<in> {0, 10, 4097}. service_name s \<noteq> ''<unknown>''" by code_simp
  then show "service \<in> {0, 10, 4097} \<Longrightarrow> service_name service \<noteq> ''<unknown>''" by blast
qed

text \<open>The two names of a diagnostic instance and the colon always fit in the 24 bytes of the buffer.\<close>

lemma diag_info_fits: "get_diag_instance_info 24 i =
  (diag_instance_base_str (drop_bit 6 i) @ '':'' @ diag_instance_str (i AND 0x3f),
   length (diag_instance_base_str (drop_bit 6 i)) + 1 + length (diag_instance_str (i AND 0x3f)))"
proof -
  have "length (diag_instance_base_str b) \<le> 7" "length (diag_instance_str b) \<le> 7" for b
    by (simp_all add: diag_instance_base_str_def diag_instance_str_def)
  from this(1) [of "drop_bit 6 i"] this(2) [of "i AND 0x3f"] show ?thesis
    by (simp add: get_diag_instance_info_def snprintf_text_def Let_def)
qed

text \<open>The row printed for a server.\<close>

definition server_row :: "u32 \<Rightarrow> u32 \<Rightarrow> u32 \<Rightarrow> u32 \<Rightarrow> string" where
  "server_row service inst nid port =
     (let place = '' '' @ format_u 4 nid @ '' '' @ format_u 5 port @ '' '' @ service_name service in
      format_u 9 service @
      (if service = DIAG_SERVICE
       then '' N/A '' @ format_u 8 inst @ place @
         '' ('' @ diag_instance_base_str (drop_bit 6 inst) @ '':'' @ diag_instance_str (inst AND 0x3f) @ '')''
       else '' '' @ format_u 7 (inst AND 0xff) @ '' '' @ format_u 8 (drop_bit 8 inst) @ place) @ [CHR 10])"

lemma server_line_row:
  "server_line be pkt = server_row (le32_to_cpu be (pkt_w0 pkt)) (le32_to_cpu be (pkt_w1 pkt))
     (le32_to_cpu be (pkt_w2 pkt)) (le32_to_cpu be (pkt_w3 pkt))"
  by (simp add: server_line_def server_row_def lookup_name_common diag_info_fits Let_def)

section \<open>Arguments\<close>

lemma read_num_decimal:
  "n < 2 ^ 64 \<Longrightarrow> read_num_le be (show_decimal n) 0 = (cpu_to_le32 be (of_nat n), 0)"
  "n \<ge> 2 ^ 64 \<Longrightarrow> snd (read_num_le be (show_decimal n) 0) \<noteq> 0"
proof -
  have "ucast (of_nat n :: u64) = (of_nat n :: u32)" by (rule bit_word_eqI) (auto simp: bit_simps)
  then show "n < 2 ^ 64 \<Longrightarrow> read_num_le be (show_decimal n) 0 = (cpu_to_le32 be (of_nat n), 0)"
    by (simp add: read_num_le_def strtoul_0)
qed (simp add: read_num_le_def strtoul_0)

lemma lookup_request_decimal:
  assumes "service < 2 ^ 64" "inst < 2 ^ 64"
  shows "lookup_request be [progname, show_decimal service, show_decimal inst] =
    Some (zero_pkt\<lparr>pkt_w0 := cpu_to_le32 be (of_nat service), pkt_w1 := cpu_to_le32 be (of_nat inst)\<rparr>)"
  using assms by (simp add: lookup_request_def read_num_decimal zero_pkt_def)

section \<open>Replies\<close>

text \<open>Only packets that begin with a little-endian NEW\_SERVER count; the empty one ends the list.\<close>

definition end_of_list :: "u8 list" where
  "end_of_list = wire_bytes QRTR_TYPE_NEW_SERVER 0 0 0 0"

lemma lookup_loop_server:
  assumes "w0 \<noteq> 0"
  shows "lookup_loop be sock (Some (wire_bytes QRTR_TYPE_NEW_SERVER w0 w1 w2 w3) # rs) =
    (case lookup_loop be sock rs of (st, calls, ls) \<Rightarrow> (st, Recv sock 20 # calls, server_row w0 w1 w2 w3 # ls))"
proof -
  let ?bs = "wire_bytes QRTR_TYPE_NEW_SERVER w0 w1 w2 w3"
  have "le32_to_cpu be 0 = 0" by (simp add: le32_to_cpu_def bswap32_def le_bytes_def)
  then have "pkt_w0 (pkt_of_bytes be ?bs) \<noteq> 0"
    using assms wire_bytes_words'(2) [of be QRTR_TYPE_NEW_SERVER w0 w1 w2 w3] by metis
  moreover have "?bs \<noteq> []" by (simp add: wire_bytes_def le_bytes_def)
  moreover have "take 20 ?bs = ?bs" by (simp add: sizeof_ctrl_pkt_def)
  ultimately show ?thesis by (simp add: Let_def server_line_row split: prod.split)
qed

lemma lookup_loop_end: "lookup_loop be sock (Some end_of_list # rs) = (0, [Recv sock 20, Close sock], [])"
proof -
  have z: "pkt_of_bytes be end_of_list = zero_pkt\<lparr>pkt_cmd := cpu_to_le32 be QRTR_TYPE_NEW_SERVER\<rparr>"
    using pkt_of_pkt_bytes' [of be "zero_pkt\<lparr>pkt_cmd := cpu_to_le32 be QRTR_TYPE_NEW_SERVER\<rparr>"]
    unfolding zero_pkt_def end_of_list_def by (simp add: pkt_bytes_wire [of be _ 0 0 0 0, symmetric])
  have l: "length end_of_list = 20" by (simp add: end_of_list_def sizeof_ctrl_pkt_def)
  then have "take 20 end_of_list = end_of_list" "end_of_list \<noteq> []" by auto
  then show ?thesis using l by (simp add: Let_def z zero_pkt_def sizeof_ctrl_pkt_def)
qed

lemma lookup_loop_servers:
  assumes "\<forall>(w0, _) \<in> set ws. w0 \<noteq> 0"
  shows "lookup_loop be sock (map (\<lambda>(w0, w1, w2, w3). Some (wire_bytes QRTR_TYPE_NEW_SERVER w0 w1 w2 w3)) ws @
      Some end_of_list # rs) =
    (0, replicate (length ws + 1) (Recv sock 20) @ [Close sock], map (\<lambda>(w0, w1, w2, w3). server_row w0 w1 w2 w3) ws)"
  using assms by (induction ws) (auto simp: lookup_loop_server lookup_loop_end simp del: lookup_loop.simps)

text \<open>Anything else is skipped, and without an end the tool waits until \<open>recv\<close> times out.\<close>

lemma lookup_loop_foreign:
  assumes "\<forall>bs \<in> set rs. bs \<noteq> [] \<and> (length bs < sizeof_ctrl_pkt \<or>
    le32_to_cpu be (pkt_cmd (pkt_of_bytes be (take 20 bs))) \<noteq> QRTR_TYPE_NEW_SERVER)"
  shows "lookup_loop be sock (map Some rs) = (1, replicate (length rs + 1) (Recv sock 20), [])"
  using assms by (induction rs) (auto simp: Let_def sizeof_ctrl_pkt_def)

end
