(* ===== verification/Packet_Log.thy ===== *)
theory Packet_Log
  imports Name_Server C_Text Logging
begin

text \<open>
  What \<open>ctrl_port_fn\<close> of \<open>src/ns.c\<close> logs about a packet: the name of its command or its number, and
  a warning when the packet could not be received, is too short, or its handler failed.
\<close>

section \<open>The lines\<close>

text \<open>The entries 0 and 1 of the array are null.\<close>

definition ctrl_pkt_strings :: "string option list" where
  "ctrl_pkt_strings = [None, None, Some ''hello'', Some ''bye'', Some ''new-server'', Some ''del-server'',
     Some ''del-client'', Some ''resume-tx'', Some ''exit'', Some ''ping'', Some ''new-lookup'',
     Some ''del-lookup'']"

text \<open>The address of a sender as \<open>%u:%u\<close>.\<close>

definition from_text :: "sockaddr_qrtr \<Rightarrow> string" where
  "from_text sq = format_u 0 (sq_node sq) @ '':'' @ format_u 0 (sq_port sq)"

definition cmd_line :: "u32 \<Rightarrow> sockaddr_qrtr \<Rightarrow> log_state \<Rightarrow> log_call list" where
  "cmd_line cmd sq ls =
     (case if unat cmd < length ctrl_pkt_strings then ctrl_pkt_strings ! unat cmd else None of
        Some name \<Rightarrow> LOGD (name @ '' from '' @ from_text sq @ [CHR 10]) ls
      | None \<Rightarrow> LOGD (''UNK ('' @ format_08x cmd @ '') from '' @ from_text sq @ [CHR 10]) ls)"

text \<open>
  All lines of one call. \<open>err\<close> is the text of \<open>errno\<close> after \<open>recvfrom\<close> and \<open>rc\<close> the result of the
  handler.
\<close>

definition ctrl_port_log :: "string \<Rightarrow> bool \<Rightarrow> rx \<Rightarrow> int \<Rightarrow> log_state \<Rightarrow> log_call list" where
  "ctrl_port_log err be r rc ls =
     (let sq = rx_from r;
          len = (if rx_error r then - 1 else int (length (rx_data r))) in
      if len \<le> 0 then PLOGW err ''recvfrom()'' ls
      else if len < 4 then LOGW (''short packet from '' @ from_text sq) ls
      else cmd_line (le32_to_cpu be (pkt_cmd (pkt_of_bytes be (rx_buf r)))) sq ls @
        (if rc < 0 then LOGW (''failed while handling packet from '' @ from_text sq) ls else []))"

section \<open>Facts\<close>

text \<open>Exactly the commands that \<open>ctrl_port_fn\<close> has a case for have a name.\<close>

lemma named_commands:
  "(unat cmd < length ctrl_pkt_strings \<and> ctrl_pkt_strings ! unat cmd \<noteq> None) \<longleftrightarrow>
    cmd \<in> {QRTR_TYPE_HELLO, QRTR_TYPE_BYE, QRTR_TYPE_NEW_SERVER, QRTR_TYPE_DEL_SERVER, QRTR_TYPE_DEL_CLIENT,
      QRTR_TYPE_RESUME_TX, QRTR_TYPE_EXIT, QRTR_TYPE_PING, QRTR_TYPE_NEW_LOOKUP, QRTR_TYPE_DEL_LOOKUP}"
    (is "?l = ?r")
proof
  assume l: ?l
  have "ctrl_pkt_strings ! 0 = None" "ctrl_pkt_strings ! 1 = None" "length ctrl_pkt_strings = 12"
    by (simp_all add: ctrl_pkt_strings_def)
  with l have "unat cmd < 12" "unat cmd \<noteq> 0" "unat cmd \<noteq> 1" by metis+
  then have "unat cmd = 2 \<or> unat cmd = 3 \<or> unat cmd = 4 \<or> unat cmd = 5 \<or> unat cmd = 6 \<or> unat cmd = 7 \<or>
      unat cmd = 8 \<or> unat cmd = 9 \<or> unat cmd = 10 \<or> unat cmd = 11" by presburger
  moreover have "cmd = word_of_nat (unat cmd)" by simp
  ultimately show ?r unfolding qrtr_type_defs by (elim disjE) simp_all
next
  assume ?r
  then show ?l by (auto simp: qrtr_type_defs ctrl_pkt_strings_def)
qed

text \<open>
  With the priority the name server starts with, a packet leaves a line exactly if it could not be
  received, is shorter than its command or was refused; with \<open>-v\<close> every packet leaves one.
\<close>

lemma logged_by_default:
  assumes "min_priority ls = 6"
  shows "ctrl_port_log err be r rc ls \<noteq> [] \<longleftrightarrow> rx_error r \<or> length (rx_data r) < 4 \<or> rc < 0"
  using assms log_default [OF assms]
  by (auto simp: ctrl_port_log_def cmd_line_def PLOGW_def LOGW_def LOGD_def qlog_def Let_def split: option.split)

lemma logged_verbose:
  assumes "min_priority ls = 7"
  shows "ctrl_port_log err be r rc ls \<noteq> []"
  using assms
  by (auto simp: ctrl_port_log_def cmd_line_def PLOGW_def LOGW_def LOGD_def qlog_def Let_def split: option.split)

end
