(* ===== verification/Spec2Isabelle.thy ===== *)
theory Spec2Isabelle
  imports Hashmap_Props Linked_List_Props Observer_List Observer Qrtr_Client_Props Waiter_Props Daemon Qmi_Props Qmi_Response
    Address_Props Lookup_Props Packet_Log
begin

text \<open>
  This library models the userspace part of QRTR, the Qualcomm IPC router: a name server daemon that
  keeps a directory of services on the nodes of a system on chip, the C library with which clients
  register, look up and decode services, a codec for the QMI messages that services exchange, and two
  small tools. All paths below are under \<open>src/\<close>.

  \<^bold>\<open>Parts of the program and their theories.\<close>

    \<^item> \<open>src/hash.c\<close>: theory \<open>Hash\<close>, the functions on their machine types.

    \<^item> \<open>src/map.c\<close>, \<open>src/map.h\<close>: the hash table with open addressing, deletion marks and growth is
      \<open>Hashmap\<close> (one definition per function; \<open>None\<close> is an access outside the table or a division by
      zero, a result code is the code's own \<open>int\<close>). \<open>Hashmap_Spec\<close> has its invariant \<open>map_wf\<close> and what
      each operation does to the list of entries, \<open>Hashmap_Iter\<close> the iteration rules, \<open>Hashmap_Marks\<close> the
      insertion of stored keys among deletion marks, \<open>Hashmap_Props\<close> the refinement of a partial map. The interface the name server uses is the locale of
      \<open>Keyed_Table\<close>, interpreted on the table in \<open>Hashmap_Spec\<close>.

    \<^item> \<open>src/list.h\<close>: \<open>Linked_List\<close>, over a store of list items; its abstraction \<open>dll\<close> relates a store
      to a sequence of addresses. The interface is the locale of \<open>Item_Sequence\<close>, interpreted on the
      list; \<open>Linked_List_Props\<close> has the properties of the single operations.

    \<^item> \<open>include/libqrtr.h\<close>, \<open>include/ns.h\<close>: \<open>Wire\<close>, the control packets as five host words and as 20
      bytes, with the byte order of the host as a parameter.

    \<^item> \<open>src/ns.c\<close>: \<open>Name_Server\<close> has one definition per function and per loop. Its state \<open>ns_state\<close> is the
      context, the node table, the allocated nodes and servers (an access to a freed one is \<open>None\<close>),
      the outcomes that \<open>calloc\<close> and \<open>sendto\<close> will have, and the datagrams handed to \<open>sendto\<close> so far (also
      those whose \<open>sendto\<close> fails). The stack words that \<open>ctrl_cmd_del_client\<close> leaks are a constant of a run.
      \<open>Name_Server_Inv\<close> has the invariant and the directory \<open>dir\<close> (node and port to service and
      instance) that a state represents; \<open>Name_Server_Ops\<close>, \<open>Name_Server_Loops\<close> and
      \<open>Name_Server_Handlers\<close> say for nodes and servers, for the loops and for each command what happens
      to directory, observers and datagrams; \<open>Name_Server_Run\<close> has the dispatcher, runs as a step
      relation, and the exit; \<open>Name_Server_Props\<close> the claims. \<open>Directory\<close> has the abstract specification:
      a directory changed by the requests that datagrams stand for, which whole runs refine as long as
      no live port is registered again. Registering a live port again can put it into the hash table of its
      node twice (\<open>map_reput_stored_key\<close> says exactly when); a withdrawal or a BYE then leaves the older
      registration behind (\<open>stale_server_after_withdrawal\<close>, \<open>bye_leaves_stale_server\<close>), which is why
      the claims about these commands name \<open>map_uniq\<close>, a table without duplicates, where they need it.
      \<open>Observer_List\<close> takes the operations and loops on the observers and on the list of replies down to
      the intrusive list the code keeps them in.
      \<open>Observer\<close> shows that a client that asked for everything and replays what it is sent knows that
      directory.

    \<^item> \<open>src/waiter.c\<close>, \<open>src/util.c\<close>: \<open>Waiter\<close> and \<open>Util\<close>, over heaps of tickets and poll sets and the
      store of \<open>Linked_List\<close>; clock, \<open>poll\<close> and the registered callbacks are the functions of a \<open>world\<close>.
      \<open>Waiter_Inv\<close> has the invariant, \<open>Waiter_Spec\<close> an abstract wait on the sequence of tickets that
      \<open>waiter_wait\<close> refines, \<open>Waiter_Run\<close> the bounded wait, the synchronisation of timers and runs,
      \<open>Waiter_Props\<close> the claims. A run of a waiter has every call that returns as a step; the steps in which
      a ticket was allocated but the poll set was not are labelled, and the invariant is for runs without them.

    \<^item> The main loop of \<open>src/ns.c\<close> on top of the waiter is \<open>Event_Loop\<close>, and the whole \<open>main\<close>, from the
      command line to the exit, is \<open>Daemon\<close>.

    \<^item> \<open>lib/qrtr.c\<close>: \<open>Qrtr_Client\<close> and \<open>Qrtr_Client_Props\<close>. The outcomes of the system calls are an
      argument of each function, the calls made a part of its result.

    \<^item> \<open>lib/qmi.c\<close>: \<open>Qmi\<close> follows the encoder and the decoder function by function, on memories that
      are lists of bytes; an access outside one is \<open>None\<close>. \<open>Qmi_Memory\<close> has the facts on memories,
      \<open>Qmi_Group\<close> a reference for the bytes a message consists of, \<open>Qmi_Encode\<close> and \<open>Qmi_Decode\<close> the
      encoder and the decoder against it, \<open>Qmi_Message\<close> whole packets, \<open>Qmi_Unknown\<close> messages with TLVs the
      descriptor does not have, \<open>Qmi_Iteration\<close> and \<open>Qmi_Frame\<close> the decoder on arbitrary bytes and the bytes
      it may write, \<open>Qmi_Props\<close> the claims. \<open>Qmi_Response\<close> follows a message, and the common response in
      particular, from the codec of the service through \<open>qrtr_sendto\<close> and \<open>qrtr_decode\<close> to the codec of
      the client.

    \<^item> \<open>src/lookup.c\<close>: \<open>Lookup\<close> and \<open>Lookup_Props\<close>. \<open>src/addr.c\<close>, \<open>src/cfg.c\<close> and the command line of
      \<open>src/ns.c\<close>: \<open>Address\<close> and \<open>Address_Props\<close>. \<open>lib/logging.c\<close> and \<open>include/logging.h\<close>: \<open>Logging\<close>;
      \<open>Packet_Log\<close> has the lines the dispatcher of \<open>src/ns.c\<close> logs about a packet. What these use of
      \<open>strtoul\<close> and \<open>printf\<close> is \<open>C_Text\<close>.

    \<^item> \<open>Qrtr_Prelude\<close> has the machine types, the errno values, checked array access and the scripts of
      allocation outcomes that all components share.

  \<^bold>\<open>How the parts interact.\<close> A client sends a control packet (\<open>Qrtr_Client\<close>, \<open>Lookup\<close>) to the control
  port. The waiter calls \<open>ctrl_port_fn\<close> for each datagram (\<open>Event_Loop\<close>); a handler updates nodes and
  servers in hash tables and sends announcements to the broadcast address and notifications to the
  observers, which clients decode with \<open>qrtr_decode\<close> or print. The theorems of this theory follow these
  paths: a published service is entered and its announcement decodes to what was published; the main
  loop handles every datagram once and in order; the daemon ends with status 0 when its socket is
  closed; and \<open>qrtr-lookup\<close> prints exactly the matching servers of the directory, on little-endian
  hosts, and nothing at all on big-endian ones.

  \<^bold>\<open>Bounds and fuel.\<close> \<open>map_reput\<close> calls itself after \<open>map_rehash\<close>, which calls it on a larger table: fuel
  2 is enough because the second call finds room (\<open>map_reput_total\<close>). Tables have fewer than
  \<open>2 ^ 31\<close> slots, the range of the \<open>int\<close> indices of the code; \<open>ns_bound\<close> says how many insertions a
  state still has room for, which gives the 4194303 datagrams of whole runs (two insertions each, and
  256 slots per growth). Traversals of the waiter's list take the number of its tickets as their
  bound. \<open>ns_main\<close> takes the number of waits; \<open>ns_main_clean_exit\<close> shows that one per datagram is
  enough. The lists of observers and of replies are HOL lists in
  \<open>Name_Server\<close>; \<open>observer_list_refines\<close> and \<open>reply_list_linked\<close> relate them to the linked structs.
  The reference encoding of QMI and the round trip are for little-endian hosts, as \<open>qmi.c\<close>
  copies elements in host order, and for a host whose pointers and \<open>size_t\<close> have 64 bits; the descriptors
  covered (\<open>wf_descr\<close>) are sequences of groups of basic elements, strings, and structs of basic elements.
  Strings inside nested structs are outside this class: \<open>nested_string_overflow\<close> shows that the encoder
  leaves its buffer on them.

  \<^bold>\<open>Assumptions on the environment\<close> are named hypotheses: \<open>alloc_all\<close> (no allocation fails; the
  theorems on the safety of the name server and on its runs and exit do without it), \<open>bound_socket\<close> (the system calls of a client
  succeed), \<open>polls_socket\<close> (\<open>poll\<close> reports a socket in which a datagram waits), \<open>callbacks_clear\<close>
  (a callback does nothing to the waiter but clear its own ticket, as \<open>ctrl_port_fn\<close> does).

  \<^bold>\<open>Not modelled.\<close> The text of usage messages, and log messages inside functions other than the dispatcher
  of \<open>src/ns.c\<close> (output only; the logger itself is modelled); \<open>getopt\<close>, \<open>fork\<close>, \<open>poll\<close>, the clock and the sockets, whose results are parameters; the
  endless sleep of \<open>go_dormant\<close>, which is the result \<open>Dormant\<close>; a second thread, since the program has
  none; the Python binding \<open>qrtr.py\<close>, another language; build files.
\<close>

section \<open>From the client through the name server to the client\<close>

text \<open>What a client's socket calls have to return for a registration to be sent.\<close>

definition bound_socket :: "outcomes \<Rightarrow> bool" where
  "bound_socket oc \<longleftrightarrow> oc_getsockname oc = 0 \<and> sq_family (oc_sockname oc) = AF_QIPCRTR \<and>
     oc_socklen oc = sizeof_sockaddr_qrtr \<and> 0 \<le> oc_sendto oc"

definition delivered :: "sockaddr_qrtr \<Rightarrow> u8 list \<Rightarrow> u8 list \<Rightarrow> rx" where
  "delivered sq bs stale = \<lparr>rx_error = False, rx_from = sq, rx_data = bs, rx_stale = stale\<rparr>"



lemma announce_bytes_wire:
  "announce_bytes be cmd srv = wire_bytes cmd (srv_service srv) (srv_instance srv) (srv_node srv) (srv_port srv)"
  by (simp add: announce_bytes_def server_pkt_def pkt_bytes_wire)


text \<open>A client bound to port 5 of node 1.\<close>

definition client_5 :: outcomes where
  "client_5 = \<lparr>oc_socket = 4, oc_setsockopt = 0, oc_bind = 0, oc_getsockname = 0,
     oc_sockname = \<lparr>sq_family = AF_QIPCRTR, sq_node = 1, sq_port = 5\<rparr>, oc_socklen = 12, oc_sendto = 20,
     oc_recv = 0, oc_from = \<lparr>sq_family = AF_QIPCRTR, sq_node = 1, sq_port = 5\<rparr>, oc_poll = 0\<rparr>"


section \<open>The lookup tool and the name server\<close>

text \<open>What the tool sends, and the answer of the name server to it.\<close>

definition lookup_args :: "string \<Rightarrow> u32 \<Rightarrow> u32 \<Rightarrow> string list" where
  "lookup_args progname service instance = [progname, show_decimal (unat service), show_decimal (unat instance)]"

lemma lookup_main_request:
  assumes "bound_socket oc" "0 \<le> oc_socket oc" "oc_setsockopt oc = 0"
  shows "lookup_main be (lookup_args progname service instance) oc rs =
    (case lookup_loop be (oc_socket oc) rs of (st, calls, ls) \<Rightarrow>
      (st, [Socket, Getsockname (oc_socket oc), Setsockopt (oc_socket oc),
        Sendto (oc_socket oc) ((oc_sockname oc)\<lparr>sq_port := QRTR_PORT_CTRL\<rparr>)
          (wire_bytes QRTR_TYPE_NEW_LOOKUP service instance 0 0)] @ calls, lookup_header # ls))"
proof -
  have small: "unat (x :: u32) < 2 ^ 64" for x using unsigned_less [of x, where 'a = nat] by simp
  have "pkt_bytes be (zero_pkt\<lparr>pkt_w0 := cpu_to_le32 be service, pkt_w1 := cpu_to_le32 be instance,
      pkt_cmd := cpu_to_le32 be QRTR_TYPE_NEW_LOOKUP\<rparr>) = wire_bytes QRTR_TYPE_NEW_LOOKUP service instance 0 0"
    using pkt_bytes_wire [of be QRTR_TYPE_NEW_LOOKUP service "instance" 0 0] by (simp add: zero_pkt_def)
  then show ?thesis using assms lookup_request_decimal [OF small small, of be progname service "instance"]
    by (simp add: lookup_args_def lookup_main_def bound_socket_def Let_def)
qed

lemma lookup_answered:
  assumes "ns_wf s" "alloc_all (heap_script s)" "sq_node sq = local_node s"
  obtains s' where "ctrl_port_fn (delivered sq (wire_bytes QRTR_TYPE_NEW_LOOKUP service inst 0 0) stale) s = Some (0, s')"
    "sent s' = sent s @ lookup_packets s \<lparr>lk_service = service, lk_instance = inst, lk_sq = sq\<rparr>"
proof (cases rule: ctrl_cmd_new_lookup_spec [OF assms(1), of sq service inst])
  case (3 s' lk)
  moreover have "ctrl_port_fn (delivered sq (wire_bytes QRTR_TYPE_NEW_LOOKUP service inst 0 0) stale) s =
      ctrl_cmd_new_lookup sq service inst s"
    by (simp add: ctrl_port_fn_def delivered_def rx_buf_def Let_def sizeof_ctrl_pkt_def qrtr_type_defs)
  ultimately show thesis using that by auto
qed (use assms in auto)

definition listed_servers :: "ns_state \<Rightarrow> lookup \<Rightarrow> server list" where
  "listed_servers s lk = filter (\<lambda>srv. (lk_service lk = 0 \<or> lk_service lk = srv_service srv) \<and>
     (lk_instance lk = 0 \<or> lk_instance lk = srv_instance srv)) (map (\<lambda>sp. the (server_mem s sp)) (all_servers s))"

lemma listed_servers_service:
  assumes wf: "ns_wf s" and "srv \<in> set (listed_servers s lk)"
  shows "srv_service srv \<noteq> 0"
proof -
  obtain k p k' sp where e: "(k, p) \<in> set (entries (nodes s))" "srv = the (server_mem s sp)"
      "(k', sp) \<in> set (entries (nd_services (the (node_mem s p))))"
    using assms(2) by (auto simp: listed_servers_def all_servers_def)
  obtain nd where nd: "node_mem s p = Some nd" "services_ok (server_mem s) nd"
    using ns_wf_nodeD [OF wf e(1)] by metis
  then have "server_ok (server_mem s) (nd_id nd) (k', sp)" using e(3) by (simp add: services_ok_def)
  then show ?thesis using e(2) by (auto simp: server_ok_def split: option.splits)
qed

lemma lookup_packets_little:
  assumes "\<not> host_be s"
  shows "map snd (lookup_packets s lk) =
    map (\<lambda>srv. wire_bytes QRTR_TYPE_NEW_SERVER (srv_service srv) (srv_instance srv) (srv_node srv) (srv_port srv))
      (listed_servers s lk) @ [end_of_list]"
proof -
  have "pkt_bytes False (zero_pkt\<lparr>pkt_cmd := QRTR_TYPE_NEW_SERVER\<rparr>) = end_of_list"
    using pkt_bytes_wire [of False QRTR_TYPE_NEW_SERVER 0 0 0 0]
    by (simp add: zero_pkt_def end_of_list_def cpu_to_le32_def)
  moreover have "notify_bytes False QRTR_TYPE_NEW_SERVER srv =
      wire_bytes QRTR_TYPE_NEW_SERVER (srv_service srv) (srv_instance srv) (srv_node srv) (srv_port srv)" for srv
    using announce_bytes_wire [of False QRTR_TYPE_NEW_SERVER srv]
    by (simp add: announce_bytes_def notify_bytes_def cpu_to_le32_def)
  ultimately show ?thesis using assms
    by (simp add: lookup_packets_def listed_servers_def observes_def)
qed

lemma lookup_packets_big:
  assumes "host_be s" "bs \<in> snd ` set (lookup_packets s lk)"
  shows "length bs = 20 \<and> le32_to_cpu True (pkt_cmd (pkt_of_bytes True bs)) \<noteq> QRTR_TYPE_NEW_SERVER"
proof -
  have "le32_to_cpu True QRTR_TYPE_NEW_SERVER \<noteq> QRTR_TYPE_NEW_SERVER" by code_simp
  moreover obtain p where "bs = pkt_bytes True p" "pkt_cmd p = QRTR_TYPE_NEW_SERVER"
    using assms by (auto simp: lookup_packets_def notify_bytes_def server_pkt_def)
  ultimately show ?thesis by (simp add: sizeof_ctrl_pkt_def)
qed

lemma lookup_packets_dest: "lookup_packets s lk = map (Pair (lk_sq lk)) (map snd (lookup_packets s lk))"
  by (simp add: lookup_packets_def)

text \<open>Claim C6: on a little-endian host, \<open>qrtr-lookup\<close> called with a service and an instance in decimal
  sends the name server one NEW\_LOOKUP; the datagrams with which the name server answers, followed by
  whatever arrives later, make it print the header and exactly one row for every registered server of
  every node that matches, in table order, close the socket and exit with 0.\<close>
theorem lookup_prints_directory:
  assumes client: "bound_socket oc" "0 \<le> oc_socket oc" "oc_setsockopt oc = 0" "sq_node (oc_sockname oc) = local_node s"
    and server: "ns_wf s" "alloc_all (heap_script s)" "\<not> host_be s"
  shows "\<exists>bs s' replies. ctrl_port_fn (delivered (oc_sockname oc) bs stale) s = Some (0, s') \<and>
    sent s' = sent s @ map (Pair (oc_sockname oc)) replies \<and>
    lookup_main False (lookup_args progname service instance) oc (map Some replies @ later) =
      (0, [Socket, Getsockname (oc_socket oc), Setsockopt (oc_socket oc),
         Sendto (oc_socket oc) ((oc_sockname oc)\<lparr>sq_port := QRTR_PORT_CTRL\<rparr>) bs] @
         replicate (length replies) (Recv (oc_socket oc) 20) @ [Close (oc_socket oc)],
       lookup_header # map (\<lambda>srv. server_row (srv_service srv) (srv_instance srv) (srv_node srv) (srv_port srv))
         (listed_servers s \<lparr>lk_service = service, lk_instance = instance, lk_sq = oc_sockname oc\<rparr>))"
proof -
  let ?lk = "\<lparr>lk_service = service, lk_instance = instance, lk_sq = oc_sockname oc\<rparr>"
  let ?ws = "map (\<lambda>srv. (srv_service srv, srv_instance srv, srv_node srv, srv_port srv)) (listed_servers s ?lk)"
  let ?replies = "map snd (lookup_packets s ?lk)"
  obtain s' where s': "ctrl_port_fn (delivered (oc_sockname oc) (wire_bytes QRTR_TYPE_NEW_LOOKUP service instance 0 0) stale) s =
      Some (0, s')" "sent s' = sent s @ lookup_packets s ?lk"
    by (rule lookup_answered [OF server(1,2) client(4)])
  have "\<forall>(w0, _) \<in> set ?ws. w0 \<noteq> 0" using listed_servers_service [OF server(1)] by auto
  note lookup_loop_servers [OF this, of False "oc_socket oc" later]
  then have "lookup_loop False (oc_socket oc) (map Some ?replies @ later) =
      (0, replicate (length ?replies) (Recv (oc_socket oc) 20) @ [Close (oc_socket oc)],
       map (\<lambda>srv. server_row (srv_service srv) (srv_instance srv) (srv_node srv) (srv_port srv)) (listed_servers s ?lk))"
    unfolding lookup_packets_little [OF server(3)] by (simp add: comp_def)
  then show ?thesis
    using s' lookup_main_request [OF client(1-3), of False progname service "instance" "map Some ?replies @ later"]
      lookup_packets_dest [of s ?lk]
    by (intro exI [of _ "wire_bytes QRTR_TYPE_NEW_LOOKUP service instance 0 0"] exI [of _ s'] exI [of _ ?replies]) simp
qed

theorem lookup_prints_directory_witness:
  "\<exists>bs s' replies. ctrl_port_fn (delivered (oc_sockname client_5) bs []) one_server = Some (0, s') \<and>
    sent s' = sent one_server @ map (Pair (oc_sockname client_5)) replies \<and>
    lookup_main False (lookup_args ''qrtr-lookup'' 10 0) client_5 (map Some replies @ []) =
      (0, [Socket, Getsockname (oc_socket client_5), Setsockopt (oc_socket client_5),
         Sendto (oc_socket client_5) ((oc_sockname client_5)\<lparr>sq_port := QRTR_PORT_CTRL\<rparr>) bs] @
         replicate (length replies) (Recv (oc_socket client_5) 20) @ [Close (oc_socket client_5)],
       lookup_header # map (\<lambda>srv. server_row (srv_service srv) (srv_instance srv) (srv_node srv) (srv_port srv))
         (listed_servers one_server \<lparr>lk_service = 10, lk_instance = 0, lk_sq = oc_sockname client_5\<rparr>))"
proof -
  have "\<not> host_be one_server" by code_simp
  with one_server_ok show ?thesis
    by (intro lookup_prints_directory) (simp_all add: client_5_def bound_socket_def sizeof_sockaddr_qrtr_def one_server_script)
qed

text \<open>Claim C7: on a big-endian host the tool recognises none of the answers, whatever is registered: it
  prints the header only and exits with 1 when \<open>recv\<close> times out.\<close>
theorem lookup_blind_on_big_endian:
  assumes client: "bound_socket oc" "0 \<le> oc_socket oc" "oc_setsockopt oc = 0" "sq_node (oc_sockname oc) = local_node s"
    and server: "ns_wf s" "alloc_all (heap_script s)" "host_be s"
  shows "\<exists>bs s' replies. ctrl_port_fn (delivered (oc_sockname oc) bs stale) s = Some (0, s') \<and>
    sent s' = sent s @ map (Pair (oc_sockname oc)) replies \<and>
    lookup_main True (lookup_args progname service instance) oc (map Some replies) =
      (1, [Socket, Getsockname (oc_socket oc), Setsockopt (oc_socket oc),
         Sendto (oc_socket oc) ((oc_sockname oc)\<lparr>sq_port := QRTR_PORT_CTRL\<rparr>) bs] @
         replicate (length replies + 1) (Recv (oc_socket oc) 20), [lookup_header])"
proof -
  let ?lk = "\<lparr>lk_service = service, lk_instance = instance, lk_sq = oc_sockname oc\<rparr>"
  let ?replies = "map snd (lookup_packets s ?lk)"
  obtain s' where s': "ctrl_port_fn (delivered (oc_sockname oc) (wire_bytes QRTR_TYPE_NEW_LOOKUP service instance 0 0) stale) s =
      Some (0, s')" "sent s' = sent s @ lookup_packets s ?lk"
    by (rule lookup_answered [OF server(1,2) client(4)])
  have "\<forall>bs \<in> set ?replies. bs \<noteq> [] \<and> (length bs < sizeof_ctrl_pkt \<or>
      le32_to_cpu True (pkt_cmd (pkt_of_bytes True (take 20 bs))) \<noteq> QRTR_TYPE_NEW_SERVER)"
    using lookup_packets_big [OF server(3), of _ ?lk] by fastforce
  note lookup_loop_foreign [OF this, of "oc_socket oc"]
  then show ?thesis
    using s' lookup_main_request [OF client(1-3), of True progname service "instance" "map Some ?replies"]
      lookup_packets_dest [of s ?lk]
    by (intro exI [of _ "wire_bytes QRTR_TYPE_NEW_LOOKUP service instance 0 0"] exI [of _ s'] exI [of _ ?replies]) simp
qed

theorem lookup_blind_on_big_endian_witness:
  "\<exists>bs s' replies. ctrl_port_fn (delivered (oc_sockname client_5) bs []) (idle True (0, 0)) = Some (0, s') \<and>
    sent s' = sent (idle True (0, 0)) @ map (Pair (oc_sockname client_5)) replies \<and>
    lookup_main True (lookup_args ''qrtr-lookup'' 10 0) client_5 (map Some replies) =
      (1, [Socket, Getsockname (oc_socket client_5), Setsockopt (oc_socket client_5),
         Sendto (oc_socket client_5) ((oc_sockname client_5)\<lparr>sq_port := QRTR_PORT_CTRL\<rparr>) bs] @
         replicate (length replies + 1) (Recv (oc_socket client_5) 20), [lookup_header])"
  by (rule lookup_blind_on_big_endian) (simp_all add: client_5_def bound_socket_def sizeof_sockaddr_qrtr_def)
section \<open>The main loop\<close>

text \<open>Claim C4: The main loop of the name server, on a fresh waiter to which the control socket is
  added, runs \<open>ctrl_port_fn\<close> exactly once for every datagram that waits in the socket, in the order
  of their arrival, until the socket is closed: \<open>length rs\<close> waits have the effect of the
  abstract loop over the datagrams \<open>rs\<close>, provided \<open>poll\<close> reports a readable socket.\<close>
theorem main_loop_delivers:
  assumes fresh: "no_waiter st0" "waiter_create st0 = (True, (l, w))" "alloc_all (w_script w)"
    and poll: "polls_socket poll sock" and sock: "- (2 ^ 31) \<le> sock" "sock < 2 ^ 31"
    and env: "w_env w = (s, rs)"
  shows "\<exists>st. ns_main_waiter fn ctx sock (l, w) = Some st \<and>
    map_option (\<lambda>st. fst (w_env (snd st))) (ns_main_waits (length rs) (ns_world clock poll) st) =
      ns_main_loop rs s"
proof -
  have "waiter_ok (l, w) []" by (rule waiter_create_ok [OF fresh(1,2)])
  from ns_main_waiter_listening [OF this fresh(3), of fn ctx sock] obtain l' w' t where
    "ns_main_waiter fn ctx sock (l, w) = Some (l', w')" "listening fn ctx sock t (l', w')" "w_env w' = w_env w"
    by auto
  with ns_main_waits_loop [OF _ poll sock, of fn ctx t l' w' s rs clock] env show ?thesis by auto
qed

text \<open>An idle name server on socket 3 with one registration waiting.\<close>

definition idle_waiter :: "ns_env waiter" where
  "idle_waiter = \<lparr>w_pollset = None, w_count = 0, w_heap = Map.empty, w_psets = Map.empty, w_brk = 4,
     w_script = [], w_env = (idle False (0, 0), [packet_rx False (at_port 1 5) QRTR_TYPE_NEW_SERVER 10 7 0 0])\<rparr>"

theorem main_loop_delivers_witness:
  "\<exists>st. ns_main_waiter 8 9 3 ((Map.empty, \<lparr>lhead = None, ltail = None\<rparr>), idle_waiter) = Some st \<and>
    map_option (\<lambda>st. fst (w_env (snd st)))
      (ns_main_waits (length [packet_rx False (at_port 1 5) QRTR_TYPE_NEW_SERVER 10 7 0 0])
        (ns_world (\<lambda>e. ten_seconds) (\<lambda>fds ms e. (1, \<lambda>_. POLLIN, e))) st) =
      ns_main_loop [packet_rx False (at_port 1 5) QRTR_TYPE_NEW_SERVER 10 7 0 0] (idle False (0, 0))"
  by (rule main_loop_delivers [of "((Map.empty, \<lparr>lhead = None, ltail = None\<rparr>), idle_waiter)"])
    (simp_all add: no_waiter_def waiter_create_def idle_waiter_def list_init_def polls_socket_def
      poll_events_def POLLIN_def POLLERR_def)

section \<open>The whole daemon\<close>

text \<open>Claim C5: the name server, once its command line is accepted and it has started, in the foreground
  or as the child of \<open>fork\<close>, ends: given any 4194303 or fewer datagrams among which there is an
  empty one or a receive error, \<open>main\<close> returns 0 after at most one wait per datagram. It has then
  freed the tickets and the poll set of its waiter, and its state is that of the abstract loop over
  the datagrams followed by the exit path.\<close>
theorem ns_main_clean_exit:
  assumes args: "ns_main_args be progname opts argv optind (de_addr env) = (Inr (os, log), calls)"
      "foreground os \<or> de_fork env = 0"
    and fresh: "no_waiter st0" "alloc_all (w_script (snd st0))"
    and start: "boot (ns_of st0)"
      "ns_main_start (de_socket env) (de_getsockname env) (de_name env) (de_bind env) (de_errno env) (ns_of st0) = Inr s"
    and input: "snd (w_env (snd st0)) = rs" "length rs \<le> 4194303" "stop \<in> set rs" "rx_error stop \<or> rx_data stop = []"
    and poll: "polls_socket poll (de_socket env)" "de_socket env < 2 ^ 31"
  shows "\<exists>st t. ns_main (length rs) be progname opts argv optind env fn ctx (ns_world clock poll) st0 =
      Some (Status 0, calls, st) \<and> no_waiter st \<and> ns_main_loop rs s = Some t \<and> ns_main_exit t = Some (ns_of st)"
proof -
  obtain st1 where cr: "waiter_create st0 = (True, st1)" and al: "alloc_all (w_script (snd st1))"
    by (rule waiter_create_script [OF fresh(2)])
  have env1: "w_env (snd st1) = w_env (snd st0)" by (rule waiter_create_env [OF cr])
  note c = ns_main_start_cases [OF start(2)]
  have sock: "ctx_sock s = de_socket env" by (rule ns_main_start_sock [OF start(2)])
  let ?st2 = "put_ns s st1"
  have ok: "waiter_ok (fst ?st2, snd ?st2) []" using put_ns_ok waiter_create_ok [OF fresh(1) cr] by simp
  have al2: "alloc_all (w_script (snd ?st2))" using al by simp
  obtain l w tk where w: "ns_main_waiter fn ctx (ctx_sock s) ?st2 = Some (l, w)"
    "listening fn ctx (ctx_sock s) tk (l, w)" "w_env w = (s, rs)"
    using ns_main_waiter_listening [OF ok al2, of fn ctx "ctx_sock s"] env1 input(1) by auto
  obtain t where t: "ns_main_loop rs s = Some t" "ns_inv t"
    using ns_main_loop_total [OF boot_inv(1) [OF start(1) c(4-6,3)] boot_inv(3) [OF start(1) c(4-6,3), of "2 * length rs"]]
      input(2) by auto
  have closed: "ctx_sock t < 0" by (rule ns_main_loop_stops [OF t(1) input(3,4)])
  have range: "- (2 ^ 31) \<le> ctx_sock s" "ctx_sock s < 2 ^ 31" using c(1) sock poll(2) by simp_all
  obtain w' where w': "ns_main_waits (length rs) (ns_world clock poll) (l, w) = Some (l, w')"
    "listening fn ctx (ctx_sock s) tk (l, w')" "fst (w_env w') = t"
    using ns_main_waits_listening [OF w(2) _ range w(3), of poll clock] poll(1) sock t(1) by auto
  have "waiter_ok (l, w') [tk]" using w'(2) by (simp add: listening_def)
  then obtain st3 where d: "waiter_destroy 1 (l, w') = Some st3" "no_waiter st3" "w_env (snd st3) = w_env w'"
    using waiter_destroy_spec [of "(l, w')" "[tk]" 1] by auto
  obtain u where u: "ns_main_exit t = Some u" using t(2) by (metis ns_inv_def ns_main_exit_eq)
  have of1: "ns_of st1 = ns_of st0" by (simp add: ns_of_def env1)
  have of3: "ns_of (l, w') = t" "ns_of st3 = t" using w'(3) d(3) by (simp_all add: ns_of_def)
  have "ns_main (length rs) be progname opts argv optind env fn ctx (ns_world clock poll) st0 =
      Some (Status 0, calls, put_ns u st3)"
    unfolding ns_main_def using args start(2) cr closed w(1) w'(1) d(1) u by (auto simp: of1 of3 Let_def)
  then show ?thesis using d(2) t(1) u by (intro exI [of _ "put_ns u st3"] exI [of _ t]) simp
qed

text \<open>Started with \<open>-f\<close> on a host where every call succeeds: a registration, then an empty datagram.\<close>

definition demo_host :: daemon_env where
  "demo_host = \<lparr>de_addr = \<lparr>ae_qrtr_socket = 3, ae_getsockname = 0, ae_sockname = at_port 1 9, ae_socklen = 12,
      ae_netlink_socket = 4, ae_send = 32, ae_recv = 36, ae_resp = replicate 36 0\<rparr>,
     de_socket = 3, de_getsockname = 0, de_name = at_port 1 7, de_bind = 0, de_errno = 0, de_fork = 0\<rparr>"

definition demo_input :: "rx list" where
  "demo_input = [packet_rx False (at_port 1 5) QRTR_TYPE_NEW_SERVER 10 7 0 0,
     \<lparr>rx_error = False, rx_from = at_port 1 5, rx_data = [], rx_stale = []\<rparr>]"

definition demo_start :: "ns_env wst" where
  "demo_start = ((Map.empty, \<lparr>lhead = None, ltail = None\<rparr>),
     \<lparr>w_pollset = None, w_count = 0, w_heap = Map.empty, w_psets = Map.empty, w_brk = 4,
      w_script = [], w_env = (idle False (0, 0), demo_input)\<rparr>)"

theorem ns_main_clean_exit_witness:
  "\<exists>s st t. ns_main (length demo_input) False ''qrtr-ns'' ''f'' [''qrtr-ns'', ''-f''] 2 demo_host 8 9
      (ns_world (\<lambda>e. ten_seconds) (\<lambda>fds ms e. (1, \<lambda>_. POLLIN, e))) demo_start =
      Some (Status 0, [], st) \<and> no_waiter st \<and> ns_main_loop demo_input s = Some t \<and> ns_main_exit t = Some (ns_of st)"
proof -
  let ?os = "\<lparr>foreground = True, use_syslog = False, verbose_log = False\<rparr>"
  let ?log = "log_initial\<lparr>current_tag := ''qrtr-ns''\<rparr>"
  have args: "ns_main_args False ''qrtr-ns'' ''f'' [''qrtr-ns'', ''-f''] 2 (de_addr demo_host) = (Inr (?os, ?log), [])"
    by (simp add: ns_main_args_def Let_def qlog_setup_def log_initial_def)
  obtain s where s: "ns_main_start (de_socket demo_host) (de_getsockname demo_host) (de_name demo_host)
      (de_bind demo_host) (de_errno demo_host) (ns_of demo_start) = Inr s"
    using start_idle by (auto simp: demo_host_def demo_start_def ns_of_def)
  show ?thesis
    by (rule exI [of _ s], rule ns_main_clean_exit [OF args _ _ _ _ s, where stop = "demo_input ! 1"])
      (simp_all add: demo_start_def demo_input_def demo_host_def ns_of_def no_waiter_def idle_boot polls_socket_def
        poll_events_def POLLIN_def POLLERR_def)
qed

end
